(* ===== verification/Prelude.thy ===== *)
theory Prelude
  imports Main "HOL-Library.Word" "HOL-Library.Monad_Syntax"
begin

text \<open>
  Shared vocabulary of the development: machine integers and byte strings, the error values
  of \<^verbatim>\<open>std::io\<close>, the result type with the propagation of the question-mark operator, big-endian
  integers, saturating and checked arithmetic, and the fact collections that the component
  theories add to and prove with.
\<close>

section \<open>Types\<close>

type_synonym byte = "8 word"
type_synonym bytes = "byte list"
type_synonym u8 = "8 word"
type_synonym u16 = "16 word"
type_synonym u32 = "32 word"
type_synonym u64 = "64 word"
type_synonym i32 = "32 word" \<comment> \<open>read with \<open>sint\<close>\<close>
type_synonym fd = nat

text \<open>
  \<open>ascii\<close> is a Rust byte-string literal \<^verbatim>\<open>b"..."\<close> (and the bytes of an ASCII \<^verbatim>\<open>str\<close> literal).
\<close>

definition ascii :: "string \<Rightarrow> bytes" where
  "ascii s = map of_char s"

named_theorems result_simps \<open>rewriting of results and of the question-mark operator\<close>
named_theorems wire \<open>facts about bytes on the wire\<close>
named_theorems frame \<open>which parts of a state an operation leaves alone\<close>
named_theorems literals \<open>byte-string literals, unfolded to evaluate closed terms\<close>

declare ascii_def [literals]

section \<open>Errors and results\<close>

datatype io_kind =
    NotFound | PermissionDenied | ConnectionRefused | WouldBlock | InvalidInput | InvalidData
  | TimedOut | BrokenPipe | Unsupported | UnexpectedEof | OtherKind

text \<open>
  The \<^verbatim>\<open>errno\<close> values that the source names, by name; on Darwin \<^verbatim>\<open>EWOULDBLOCK\<close> is \<^verbatim>\<open>EAGAIN\<close>.
\<close>

datatype errno = EAGAIN | EPERM | EACCES | ESRCH | ENOENT | ECONNREFUSED | EIO | Errno nat

text \<open>
  An \<^verbatim>\<open>io::Error\<close> is either a kind with a message (\<^verbatim>\<open>io::Error::new\<close>) or a raw OS error.
\<close>

datatype io_error = Simple io_kind string | RawOs errno

fun error_kind :: "io_error \<Rightarrow> io_kind" where
  "error_kind (Simple k m) = k"
| "error_kind (RawOs EAGAIN) = WouldBlock"
| "error_kind (RawOs EPERM) = PermissionDenied"
| "error_kind (RawOs EACCES) = PermissionDenied"
| "error_kind (RawOs ENOENT) = NotFound"
| "error_kind (RawOs ECONNREFUSED) = ConnectionRefused"
| "error_kind (RawOs ESRCH) = OtherKind"
| "error_kind (RawOs EIO) = OtherKind"
| "error_kind (RawOs (Errno n)) = OtherKind"

fun raw_os_error :: "io_error \<Rightarrow> errno option" where
  "raw_os_error (Simple k m) = None"
| "raw_os_error (RawOs e) = Some e"

type_synonym 'a io_result = "io_error + 'a"

definition invalid :: "string \<Rightarrow> io_error" where
  "invalid message = Simple InvalidData message"

text \<open>\<open>bind_result m f\<close> is \<^verbatim>\<open>f(m?)\<close>: the error returns early, the value goes on.\<close>

fun bind_result :: "'e + 'a \<Rightarrow> ('a \<Rightarrow> 'e + 'b) \<Rightarrow> 'e + 'b" where
  "bind_result (Inl e) f = Inl e"
| "bind_result (Inr x) f = f x"

lemma bind_result_eq_Inr [result_simps]:
  "bind_result m f = Inr y \<longleftrightarrow> (\<exists>x. m = Inr x \<and> f x = Inr y)"
  by (cases m) auto

lemma bind_result_eq_Inl [result_simps]:
  "bind_result m f = Inl e \<longleftrightarrow> m = Inl e \<or> (\<exists>x. m = Inr x \<and> f x = Inl e)"
  by (cases m) auto

lemma bind_result_cong [fundef_cong]:
  assumes "m = m'" and "\<And>x. m' = Inr x \<Longrightarrow> f x = f' x"
  shows "bind_result m f = bind_result m' f'"
  using assms by (cases m') auto

lemma bind_result_assoc [result_simps]:
  "bind_result (bind_result m f) g = bind_result m (\<lambda>x. bind_result (f x) g)"
  by (cases m) auto

definition is_ok :: "'e + 'a \<Rightarrow> bool" where
  "is_ok r = (case r of Inl _ \<Rightarrow> False | Inr _ \<Rightarrow> True)"

lemma is_ok_simps [simp]: "is_ok (Inr x)" "\<not> is_ok (Inl e)"
  by (simp_all add: is_ok_def)

text \<open>\<open>ok_option\<close> is \<^verbatim>\<open>Result::ok\<close>.\<close>

definition ok_option :: "'e + 'a \<Rightarrow> 'a option" where
  "ok_option r = (case r of Inl _ \<Rightarrow> None | Inr x \<Rightarrow> Some x)"

lemma ok_option_simps [simp]: "ok_option (Inr x) = Some x" "ok_option (Inl e) = None"
  by (simp_all add: ok_option_def)

section \<open>Checked and saturating arithmetic\<close>

text \<open>\<^verbatim>\<open>usize\<close> is 64 bits on both supported architectures; its values are natural numbers here.\<close>

definition usize_max :: nat where
  "usize_max = 2 ^ 64 - 1"

definition checked_add_usize :: "nat \<Rightarrow> nat \<Rightarrow> nat option" where
  "checked_add_usize a b = (if a + b \<le> usize_max then Some (a + b) else None)"

definition saturating_add_usize :: "nat \<Rightarrow> nat \<Rightarrow> nat" where
  "saturating_add_usize a b = min (a + b) usize_max"

abbreviation u64_max :: u64 where
  "u64_max \<equiv> 18446744073709551615"

definition saturating_add_u64 :: "u64 \<Rightarrow> u64 \<Rightarrow> u64" where
  "saturating_add_u64 a b = (if unat a + unat b < 2 ^ 64 then a + b else u64_max)"

definition saturating_sub_u64 :: "u64 \<Rightarrow> u64 \<Rightarrow> u64" where
  "saturating_sub_u64 a b = (if b \<le> a then a - b else 0)"

definition saturating_mul_u64 :: "u64 \<Rightarrow> u64 \<Rightarrow> u64" where
  "saturating_mul_u64 a b = (if unat a * unat b < 2 ^ 64 then a * b else u64_max)"

lemma unat_u64_less: "unat (a :: u64) < 18446744073709551616"
  using unsigned_less [of a] by simp

lemma unat_u32_less: "unat (a :: u32) < 4294967296"
  using unsigned_less [of a] by simp

lemma unat_u16_less: "unat (a :: u16) < 65536"
  using unsigned_less [of a] by simp

lemma unat_u8_less: "unat (a :: u8) < 256"
  using unsigned_less [of a] by simp

lemma unat_saturating_add_u64:
  "unat (saturating_add_u64 a b) = min (unat a + unat b) (2 ^ 64 - 1)"
proof (cases "unat a + unat b < 2 ^ 64")
  case True
  then show ?thesis
    by (simp add: saturating_add_u64_def unat_word_ariths)
next
  case False
  then show ?thesis
    by (simp add: saturating_add_u64_def)
qed

lemma unat_saturating_mul_u64:
  "unat (saturating_mul_u64 a b) = min (unat a * unat b) (2 ^ 64 - 1)"
proof (cases "unat a * unat b < 2 ^ 64")
  case True
  then have "unat (a * b) = unat a * unat b"
    by (simp add: unat_word_ariths)
  with True show ?thesis by (simp add: saturating_mul_u64_def)
next
  case False
  then show ?thesis by (simp add: saturating_mul_u64_def)
qed

lemma unat_saturating_sub_u64: "unat (saturating_sub_u64 a b) = unat a - unat b"
  by (auto simp: saturating_sub_u64_def unat_sub word_le_nat_alt)

section \<open>Big-endian integers\<close>

fun be_bytes :: "nat \<Rightarrow> nat \<Rightarrow> bytes" where
  "be_bytes 0 v = []"
| "be_bytes (Suc n) v = be_bytes n (v div 256) @ [of_nat (v mod 256)]"

definition be_value :: "bytes \<Rightarrow> nat" where
  "be_value bs = foldl (\<lambda>a b. a * 256 + unat b) 0 bs"

lemma be_value_snoc: "be_value (bs @ [b]) = be_value bs * 256 + unat b"
  by (simp add: be_value_def)

lemma length_be_bytes [simp]: "length (be_bytes n v) = n"
  by (induction n arbitrary: v) auto

lemma be_value_be_bytes [simp, wire]: "be_value (be_bytes n v) = v mod 256 ^ n"
proof (induction n arbitrary: v)
  case 0
  then show ?case by (simp add: be_value_def)
next
  case (Suc n)
  have "v mod 256 ^ Suc n = 256 * (v div 256 mod 256 ^ n) + v mod 256"
    by (metis mod_mult2_eq power_Suc)
  then show ?case
    using Suc by (simp add: be_value_snoc unat_of_nat)
qed

lemma be_bytes_be_value [wire]: "be_bytes (length bs) (be_value bs) = bs"
proof (induction bs rule: rev_induct)
  case Nil
  then show ?case by simp
next
  case (snoc b bs)
  have "unat b < 256" by (rule unat_u8_less)
  then show ?case using snoc by (simp add: be_value_snoc)
qed

lemma be_value_less: "be_value bs < 256 ^ length bs"
proof (induction bs rule: rev_induct)
  case Nil
  then show ?case by (simp add: be_value_def)
next
  case (snoc b bs)
  have "unat b < 256" by (rule unat_u8_less)
  with snoc show ?case by (simp add: be_value_snoc)
qed

lemma be_bytes_numeral [literals]:
  "be_bytes (numeral k) v = be_bytes (pred_numeral k) (v div 256) @ [of_nat (v mod 256)]"
  by (subst numeral_eq_Suc) (rule be_bytes.simps(2))

section \<open>Lists\<close>

lemma take_drop_append [simp]:
  "take (length w) (drop (length p) (p @ w @ q)) = w"
  by simp

text \<open>\<open>starts_with xs p\<close> is \<^verbatim>\<open>xs.starts_with(p)\<close> of a slice or a string.\<close>

fun starts_with :: "'a list \<Rightarrow> 'a list \<Rightarrow> bool" where
  "starts_with xs [] = True"
| "starts_with [] (p # ps) = False"
| "starts_with (x # xs) (p # ps) = (x = p \<and> starts_with xs ps)"

lemma starts_with_iff: "starts_with xs p \<longleftrightarrow> (\<exists>ys. xs = p @ ys)"
  by (induction xs p rule: starts_with.induct) auto

text \<open>\<open>get_index xs i\<close> is \<^verbatim>\<open>xs.get(i)\<close>.\<close>

definition get_index :: "'a list \<Rightarrow> nat \<Rightarrow> 'a option" where
  "get_index xs i = (if i < length xs then Some (xs ! i) else None)"

text \<open>\<open>position p xs\<close> is \<^verbatim>\<open>xs.iter().position(p)\<close>.\<close>

fun position :: "('a \<Rightarrow> bool) \<Rightarrow> 'a list \<Rightarrow> nat option" where
  "position p [] = None"
| "position p (x # xs) = (if p x then Some 0 else map_option Suc (position p xs))"

lemma position_None [simp]: "position p xs = None \<longleftrightarrow> (\<forall>x\<in>set xs. \<not> p x)"
  by (induction xs) auto

lemma position_Some:
  "position p xs = Some i \<Longrightarrow> i < length xs \<and> p (xs ! i) \<and> (\<forall>j<i. \<not> p (xs ! j))"
proof (induction xs arbitrary: i)
  case Nil
  then show ?case by simp
next
  case (Cons x xs)
  show ?case
  proof (cases "p x")
    case True
    with Cons.prems show ?thesis by simp
  next
    case False
    with Cons.prems obtain k where "position p xs = Some k" and "i = Suc k"
      by auto
    with Cons.IH [of k] False show ?thesis
      by (auto simp: nth_Cons split: nat.splits)
  qed
qed

end
