(* ===== verification/Utf8.thy ===== *)
theory Utf8
  imports Prelude
begin

text \<open>
  Strings. A Rust \<^verbatim>\<open>String\<close> is a byte vector that is well-formed UTF-8 and an \<^verbatim>\<open>OsString\<close> (on Unix)
  is any byte vector; both are byte lists here, and \<open>utf8_valid\<close> is the check that
  \<^verbatim>\<open>String::from_utf8\<close> and \<^verbatim>\<open>OsStr::to_str\<close> make (Unicode, table 3-7: no overlong forms, no
  surrogates, nothing above U+10FFFF).
\<close>

definition continuation :: "byte \<Rightarrow> bool" where
  "continuation b \<longleftrightarrow> 128 \<le> b \<and> b \<le> 191"

text \<open>
  The length of the character that a first byte announces (0: none), and the bytes that may
  follow it directly.
\<close>

definition utf8_width :: "byte \<Rightarrow> nat" where
  "utf8_width a =
     (if a < 128 then 1
      else if 194 \<le> a \<and> a \<le> 223 then 2
      else if 224 \<le> a \<and> a \<le> 239 then 3
      else if 240 \<le> a \<and> a \<le> 244 then 4
      else 0)"

definition second_byte :: "byte \<Rightarrow> byte \<Rightarrow> bool" where
  "second_byte a b =
     (if a = 224 then 160 \<le> b \<and> b \<le> 191
      else if a = 237 then 128 \<le> b \<and> b \<le> 159
      else if a = 240 then 144 \<le> b \<and> b \<le> 191
      else if a = 244 then 128 \<le> b \<and> b \<le> 143
      else continuation b)"

text \<open>\<open>utf8_next\<close> reads one well-formed character and returns what follows it.\<close>

fun utf8_next :: "bytes \<Rightarrow> bytes option" where
  "utf8_next [] = None"
| "utf8_next (a # bs) =
     (if utf8_width a = 1 then Some bs
      else if utf8_width a = 2 then
        (case bs of b # r \<Rightarrow> if second_byte a b then Some r else None | _ \<Rightarrow> None)
      else if utf8_width a = 3 then
        (case bs of b # c # r \<Rightarrow>
           if second_byte a b \<and> continuation c then Some r else None
         | _ \<Rightarrow> None)
      else if utf8_width a = 4 then
        (case bs of b # c # d # r \<Rightarrow>
           if second_byte a b \<and> continuation c \<and> continuation d then Some r else None
         | _ \<Rightarrow> None)
      else None)"

lemma utf8_next_shorter: "utf8_next bs = Some r \<Longrightarrow> length r < length bs"
  by (cases bs) (auto split: list.splits if_split_asm)

lemma utf8_next_append: "utf8_next xs = Some r \<Longrightarrow> utf8_next (xs @ ys) = Some (r @ ys)"
  by (cases xs) (auto split: list.splits if_split_asm)

declare utf8_next.simps(2) [simp del]

function utf8_valid :: "bytes \<Rightarrow> bool" where
  "utf8_valid bs =
     (if bs = [] then True
      else (case utf8_next bs of None \<Rightarrow> False | Some r \<Rightarrow> utf8_valid r))"
  by pat_completeness auto
termination
  by (relation "measure length") (auto dest: utf8_next_shorter)

declare utf8_valid.simps [simp del]

lemma utf8_valid_Nil [simp]: "utf8_valid []"
  by (simp add: utf8_valid.simps)

lemma utf8_valid_Cons: "utf8_valid (a # bs) =
    (case utf8_next (a # bs) of None \<Rightarrow> False | Some r \<Rightarrow> utf8_valid r)"
  by (simp add: utf8_valid.simps [of "a # bs"])

lemma utf8_valid_ascii [simp]: "a < 128 \<Longrightarrow> utf8_valid (a # bs) = utf8_valid bs"
  by (simp add: utf8_valid_Cons utf8_next.simps utf8_width_def)

lemmas utf8_eval = utf8_valid_Cons utf8_next.simps utf8_width_def second_byte_def continuation_def

text \<open>\<open>to_str\<close> is \<^verbatim>\<open>OsStr::to_str\<close>; \<open>string_from_utf8\<close> is \<^verbatim>\<open>String::from_utf8(..).ok()\<close>.\<close>

definition to_str :: "bytes \<Rightarrow> bytes option" where
  "to_str value = (if utf8_valid value then Some value else None)"

definition string_from_utf8 :: "bytes \<Rightarrow> bytes option" where
  "string_from_utf8 value = (if utf8_valid value then Some value else None)"

lemma utf8_valid_ascii_bytes: "(\<forall>b\<in>set bs. b < 128) \<Longrightarrow> utf8_valid bs"
  by (induction bs) auto

lemma utf8_valid_append: "utf8_valid xs \<Longrightarrow> utf8_valid (xs @ ys) = utf8_valid ys"
proof (induction xs rule: utf8_valid.induct)
  case (1 xs)
  show ?case
  proof (cases xs)
    case Nil
    then show ?thesis by simp
  next
    case (Cons a bs)
    with "1.prems" obtain r where r: "utf8_next xs = Some r" and v: "utf8_valid r"
      by (auto simp: utf8_valid_Cons split: option.splits)
    have "utf8_valid (r @ ys) = utf8_valid ys"
      using "1.IH" [OF _ r] v Cons by simp
    with utf8_next_append [OF r, of ys] Cons show ?thesis
      by (simp add: utf8_valid_Cons)
  qed
qed

lemma to_str_Some: "to_str v = Some w \<longleftrightarrow> utf8_valid v \<and> w = v"
  by (auto simp: to_str_def)

lemma to_str_None: "to_str v = None \<longleftrightarrow> \<not> utf8_valid v"
  by (auto simp: to_str_def)

lemma string_from_utf8_Some: "string_from_utf8 v = Some w \<longleftrightarrow> utf8_valid v \<and> w = v"
  by (auto simp: string_from_utf8_def)

end
