(* ===== verification/Account.thy ===== *)
theory Account
  imports Utf8
begin

text \<open>
  \<^verbatim>\<open>src/account.rs\<close>: an account is the absent selector or one exact selector string. It is the key
  of the broker's authorization records.
\<close>

datatype account = Account (explicit: "bytes option")

text \<open>
  \<open>select explicit_value op_account\<close>: \<open>explicit_value\<close> is the \<^verbatim>\<open>--account\<close> value, \<open>op_account\<close> the
  value of \<^verbatim>\<open>OP_ACCOUNT\<close> in the invoking environment. The error is a usage message.
\<close>

definition utf8 :: "bytes \<Rightarrow> string + bytes" where
  "utf8 value =
     (case to_str value of
        Some v \<Rightarrow> Inr v
      | None \<Rightarrow> Inl ''account selectors must be valid UTF-8'')"

definition filter_nonempty :: "bytes option \<Rightarrow> bytes option" where
  "filter_nonempty v = (case v of Some x \<Rightarrow> if x = [] then None else Some x | None \<Rightarrow> None)"

definition select :: "bytes option \<Rightarrow> bytes option \<Rightarrow> string + account" where
  "select explicit_value op_account =
     (case filter_nonempty explicit_value of
        Some value \<Rightarrow> bind_result (utf8 value) (\<lambda>v. Inr (Account (Some v)))
      | None \<Rightarrow>
          (case filter_nonempty op_account of
             Some value \<Rightarrow> bind_result (utf8 value) (\<lambda>v. Inr (Account (Some v)))
           | None \<Rightarrow> Inr (Account None)))"

text \<open>The invariant of the \<^verbatim>\<open>String\<close> inside, and what selection adds to it.\<close>

definition account_ok :: "account \<Rightarrow> bool" where
  "account_ok a \<longleftrightarrow> (case explicit a of None \<Rightarrow> True | Some s \<Rightarrow> utf8_valid s)"

lemma utf8_Inr: "utf8 v = Inr w \<longleftrightarrow> utf8_valid v \<and> w = v"
  by (auto simp: utf8_def to_str_def)

lemma filter_nonempty_Some: "filter_nonempty v = Some x \<longleftrightarrow> v = Some x \<and> x \<noteq> []"
  by (auto simp: filter_nonempty_def split: option.splits if_splits)

lemma filter_nonempty_None: "filter_nonempty v = None \<longleftrightarrow> v = None \<or> v = Some []"
  by (auto simp: filter_nonempty_def split: option.splits if_splits)

lemma select_ok: "select e o' = Inr a \<Longrightarrow> account_ok a \<and> explicit a \<noteq> Some []"
  by (auto simp: select_def account_ok_def result_simps utf8_Inr filter_nonempty_Some
      split: option.splits)

end
