(* ===== verification/System.thy ===== *)
theory System
  imports Prelude
begin

text \<open>
  The world outside the program: the kernel and the broker's other threads. Every call into the
  kernel and every load of a shared atomic is an \<^emph>\<open>observation\<close>; observations are numbered in
  the order the modelled thread makes them, and \<open>os\<close> (a parameter of every definition that uses
  it) says what the \<open>n\<close>-th one answers. What the program does to the world is the list of its
  \<^emph>\<open>effects\<close>, each with the number of the observation at which it happened. Nothing is assumed
  of \<open>os\<close> here; properties that rely on documented behaviour of a call name it as a hypothesis.
\<close>

section \<open>Values exchanged with the kernel\<close>

type_synonym pid = int

text \<open>The signals named by the source, with \<^verbatim>\<open>Signal as i32\<close>.\<close>

datatype signal = SIGHUP | SIGINT | SIGQUIT | SIGKILL | SIGPIPE | SIGTERM | SIGCONT
  | SIGTSTP | SIGTTIN | SIGTTOU | OtherSignal i32

fun signal_number :: "signal \<Rightarrow> i32" where
  "signal_number SIGHUP = 1"
| "signal_number SIGINT = 2"
| "signal_number SIGQUIT = 3"
| "signal_number SIGKILL = 9"
| "signal_number SIGPIPE = 13"
| "signal_number SIGTERM = 15"
| "signal_number SIGTSTP = 18"
| "signal_number SIGCONT = 19"
| "signal_number SIGTTIN = 21"
| "signal_number SIGTTOU = 22"
| "signal_number (OtherSignal n) = n"

text \<open>The variants of \<^verbatim>\<open>nix::sys::wait::WaitStatus\<close> on Darwin.\<close>

datatype wait_status = Exited pid i32 | Signaled pid signal bool | Stopped pid signal
  | Continued pid | StillAlive

datatype file_type = Directory | RegularFile | Symlink | SocketFile | OtherFile

record metadata =
  file_type :: file_type
  owner :: u32
  mode :: u32

text \<open>The file-system calls that change something, and the two names asked of \<^verbatim>\<open>confstr\<close>.\<close>

datatype fs_call =
    CreateDirAll bytes
  | SetMode bytes u32
  | OpenLock bytes u32
  | SetLockMode bytes u32
  | FlockExclusiveNonblocking bytes
  | RemoveFile bytes
  | BindListener bytes

datatype conf_name = CS_PATH | CS_DARWIN_USER_TEMP_DIR

datatype file_action = Dup2 fd fd | AddChdir bytes

text \<open>The arguments of one \<^verbatim>\<open>posix_spawn\<close>: what the child is started with.\<close>

record spawn_call =
  sp_path :: bytes
  sp_argv :: "bytes list"
  sp_envp :: "bytes list"
  sp_actions :: "file_action list"
  sp_pgroup :: pid
  sp_sigmask :: "signal list"
  sp_sigdefault :: "signal list"
  sp_flags :: int

section \<open>Answers and effects\<close>

text \<open>
  What the program does to the world. A call that has an effect may be refused with an error
  (\<open>os_call\<close>); the effect is recorded as an attempt, with its observation number.
\<close>

datatype effect =
    PosixSpawn spawn_call
  | SetForeground fd pid
  | Kill pid signal
  | KillGroup pid signal
  | Reap pid
  | FileSystem fs_call
  | SetSid
  | IgnoreSignal signal
  | ControllingTerminal fd
  | GetFlags fd
  | SetNonblocking fd
  | TerminalClosed fd
  | Sleep nat
  | ListenerNonblocking
  | StartupWrite u8

record os =
  os_clock_gettime :: "nat \<Rightarrow> errno + (int \<times> int)"
  os_wall :: "nat \<Rightarrow> int"
  os_shutdown :: "nat \<Rightarrow> bool"
  os_pipe :: "nat \<Rightarrow> errno + (fd \<times> fd)"
  os_thread_spawn :: "nat \<Rightarrow> errno option"
  os_spawn_setup :: "nat \<Rightarrow> errno option"
  os_posix_spawn :: "nat \<Rightarrow> spawn_call \<Rightarrow> errno + pid"
  os_kill_zero :: "nat \<Rightarrow> pid \<Rightarrow> errno option"
  os_waitpid :: "nat \<Rightarrow> pid \<Rightarrow> errno + wait_status"
  os_probe_closed :: "nat \<Rightarrow> bool"
  os_lstat :: "nat \<Rightarrow> bytes \<Rightarrow> errno + metadata"
  os_fstat :: "nat \<Rightarrow> bytes \<Rightarrow> errno + metadata"
  os_confstr_length :: "nat \<Rightarrow> conf_name \<Rightarrow> nat"
  os_confstr_fill :: "nat \<Rightarrow> conf_name \<Rightarrow> nat \<Rightarrow> nat \<times> bytes"
  os_openpty :: "nat \<Rightarrow> errno + (fd \<times> fd)"
  os_getpgrp :: "nat \<Rightarrow> pid"
  os_peer_uid :: "nat \<Rightarrow> errno + u32"
  os_call :: "nat \<Rightarrow> effect \<Rightarrow> errno option"

text \<open>
  The modelled thread's own side: how many observations it has made, its effects in order, and
  whether it has itself stored \<^verbatim>\<open>true\<close> into the shared \<^verbatim>\<open>shutdown\<close> flag.
\<close>

record sys =
  observed :: nat
  effects :: "(nat \<times> effect) list"
  shutdown_stored :: bool

definition tick :: "sys \<Rightarrow> sys" where
  "tick s = s\<lparr>observed := Suc (observed s)\<rparr>"

definition emit :: "effect \<Rightarrow> sys \<Rightarrow> sys" where
  "emit e s = s\<lparr>effects := effects s @ [(observed s, e)]\<rparr>"

definition observe :: "(nat \<Rightarrow> 'a) \<Rightarrow> sys \<Rightarrow> 'a \<times> sys" where
  "observe f s = (f (observed s), tick s)"

text \<open>
  An action of the program on its world: it ends with a result and the next state. \<open>and_then\<close> is
  the sequencing of the code, with the early return of the question-mark operator.
\<close>

type_synonym 'a act = "sys \<Rightarrow> 'a io_result \<times> sys"

definition pure_act :: "'a io_result \<Rightarrow> 'a act" where
  "pure_act r s = (r, s)"

definition and_then :: "'a act \<Rightarrow> ('a \<Rightarrow> 'b act) \<Rightarrow> 'b act" where
  "and_then m f s =
     (case m s of (Inl e, s') \<Rightarrow> (Inl e, s') | (Inr x, s') \<Rightarrow> f x s')"

definition raw_os :: "errno + 'a \<Rightarrow> 'a io_result" where
  "raw_os r = (case r of Inl e \<Rightarrow> Inl (RawOs e) | Inr x \<Rightarrow> Inr x)"

definition raw_unit :: "errno option \<Rightarrow> unit io_result" where
  "raw_unit r = (case r of None \<Rightarrow> Inr () | Some e \<Rightarrow> Inl (RawOs e))"

definition query :: "(nat \<Rightarrow> errno + 'a) \<Rightarrow> 'a act" where
  "query f s = observe (\<lambda>n. raw_os (f n)) s"

definition call_os :: "os \<Rightarrow> effect \<Rightarrow> unit act" where
  "call_os os e s = (raw_unit (os_call os (observed s) e), tick (emit e s))"

text \<open>\<^verbatim>\<open>shutdown.load(Ordering::Acquire)\<close>: another thread's store, or this thread's own.\<close>

definition shutdown_load :: "os \<Rightarrow> sys \<Rightarrow> bool \<times> sys" where
  "shutdown_load os s = (os_shutdown os (observed s) \<or> shutdown_stored s, tick s)"

definition shutdown_store :: "sys \<Rightarrow> sys" where
  "shutdown_store s = s\<lparr>shutdown_stored := True\<rparr>"

section \<open>How a state may evolve\<close>

text \<open>
  \<open>advances s s'\<close>: from \<open>s\<close> to \<open>s'\<close> time does not go back, effects are only appended, the
  appended ones are dated in between, and the shutdown flag is never cleared. Every operation of the model
  advances the state; the lemmas below compose.
\<close>

definition advances :: "sys \<Rightarrow> sys \<Rightarrow> bool" where
  "advances s s' \<longleftrightarrow> observed s \<le> observed s' \<and> (shutdown_stored s \<longrightarrow> shutdown_stored s') \<and>
     (\<exists>es. effects s' = effects s @ es \<and> (\<forall>(n, e)\<in>set es. observed s \<le> n \<and> n \<le> observed s'))"

lemma advances_refl [simp, intro]: "advances s s"
  by (simp add: advances_def)

lemma advances_trans [trans]: "advances s t \<Longrightarrow> advances t u \<Longrightarrow> advances s u"
  unfolding advances_def by (fastforce simp: case_prod_unfold)

lemma advances_tick [simp, intro]: "advances s (tick s)"
  by (simp add: advances_def tick_def)

lemma advances_emit [simp, intro]: "advances s (emit e s)"
  by (simp add: advances_def emit_def)

lemma advances_shutdown_store [simp, intro]: "advances s (shutdown_store s)"
  by (simp add: advances_def shutdown_store_def)

text \<open>The effects added between two states.\<close>

definition new_effects :: "sys \<Rightarrow> sys \<Rightarrow> (nat \<times> effect) list" where
  "new_effects s s' = drop (length (effects s)) (effects s')"

lemma new_effects_simps [simp]:
  "new_effects s s = []"
  "new_effects s (tick t) = new_effects s t"
  "new_effects s (shutdown_store t) = new_effects s t"
  by (simp_all add: new_effects_def tick_def shutdown_store_def)

lemma advances_effects: "advances s s' \<Longrightarrow> effects s' = effects s @ new_effects s s'"
  by (auto simp: advances_def new_effects_def)

lemma new_effects_emit [simp]:
  "advances s t \<Longrightarrow> new_effects s (emit e t) = new_effects s t @ [(observed t, e)]"
  by (auto simp: advances_def new_effects_def emit_def)

lemma new_effects_trans:
  "advances s t \<Longrightarrow> advances t u \<Longrightarrow> new_effects s u = new_effects s t @ new_effects t u"
  by (auto simp: advances_def new_effects_def)

lemma system_frame [simp, frame]:
  "observed (tick s) = Suc (observed s)" "effects (tick s) = effects s"
  "shutdown_stored (tick s) = shutdown_stored s"
  "observed (emit e s) = observed s" "effects (emit e s) = effects s @ [(observed s, e)]"
  "shutdown_stored (emit e s) = shutdown_stored s"
  "observed (shutdown_store s) = observed s" "effects (shutdown_store s) = effects s"
  "shutdown_stored (shutdown_store s)"
  by (simp_all add: tick_def emit_def shutdown_store_def)

text \<open>The children started: the calls of \<^verbatim>\<open>posix_spawn\<close> among some effects.\<close>

fun spawned :: "(nat \<times> effect) list \<Rightarrow> spawn_call list" where
  "spawned [] = []"
| "spawned ((n, PosixSpawn c) # es) = c # spawned es"
| "spawned (_ # es) = spawned es"

lemma spawned_append [simp]: "spawned (xs @ ys) = spawned xs @ spawned ys"
  by (induction xs rule: spawned.induct) auto

section \<open>Actions\<close>

lemma and_then_eq_Inr [result_simps]:
  "and_then m f s = (Inr y, s'') \<longleftrightarrow> (\<exists>x s'. m s = (Inr x, s') \<and> f x s' = (Inr y, s''))"
  by (auto simp: and_then_def split: prod.splits sum.splits)

lemma and_then_eq_Inl [result_simps]:
  "and_then m f s = (Inl e, s'') \<longleftrightarrow>
    m s = (Inl e, s'') \<or> (\<exists>x s'. m s = (Inr x, s') \<and> f x s' = (Inl e, s''))"
  by (auto simp: and_then_def split: prod.splits sum.splits)

lemma pure_act_eq [result_simps]: "pure_act r s = (r', s') \<longleftrightarrow> r = r' \<and> s' = s"
  by (auto simp: pure_act_def)

lemma raw_unit_eq [result_simps]:
  "raw_unit r = Inr u \<longleftrightarrow> r = None" "raw_unit r = Inl e \<longleftrightarrow> (\<exists>err. r = Some err \<and> e = RawOs err)"
  by (auto simp: raw_unit_def split: option.splits)

lemma raw_os_eq [result_simps]:
  "raw_os r = Inr x \<longleftrightarrow> r = Inr x" "raw_os r = Inl e \<longleftrightarrow> (\<exists>err. r = Inl err \<and> e = RawOs err)"
  by (auto simp: raw_os_def split: sum.splits)

lemma query_eq [result_simps]:
  "query f s = (r, s') \<longleftrightarrow> raw_os (f (observed s)) = r \<and> s' = tick s"
  by (auto simp: query_def observe_def)

lemma call_os_eq [result_simps]:
  "call_os os e s = (r, s') \<longleftrightarrow>
    raw_unit (os_call os (observed s) e) = r \<and> s' = tick (emit e s)"
  by (auto simp: call_os_def)

lemma observe_eq [result_simps]:
  "observe f s = (x, s') \<longleftrightarrow> f (observed s) = x \<and> s' = tick s"
  by (auto simp: observe_def)

text \<open>The contract every action keeps, and the effects it may have: those satisfying \<open>P\<close>.\<close>

definition acts_within :: "(effect \<Rightarrow> bool) \<Rightarrow> 'a act \<Rightarrow> bool" where
  "acts_within P m \<longleftrightarrow> (\<forall>s r s'. m s = (r, s') \<longrightarrow>
     advances s s' \<and> (\<forall>(n, e)\<in>set (new_effects s s'). P e))"

named_theorems within \<open>which effects an action may have\<close>

lemma acts_withinD:
  "acts_within P m \<Longrightarrow> m s = (r, s') \<Longrightarrow> advances s s'"
  "acts_within P m \<Longrightarrow> m s = (r, s') \<Longrightarrow> (n, e) \<in> set (new_effects s s') \<Longrightarrow> P e"
  unfolding acts_within_def by (blast, fastforce)

lemma acts_within_mono: "acts_within P m \<Longrightarrow> (\<And>e. P e \<Longrightarrow> Q e) \<Longrightarrow> acts_within Q m"
  unfolding acts_within_def by fastforce

lemma within_pure [within, intro]: "acts_within P (pure_act r)"
  by (simp add: acts_within_def pure_act_def)

lemma within_query [within, intro]: "acts_within P (query f)"
  by (simp add: acts_within_def query_def observe_def)

lemma advances_tick_emit [simp, intro]: "advances s (tick (emit e s))"
  by (rule advances_trans [OF advances_emit advances_tick])

lemma within_call [within, intro]: "P e \<Longrightarrow> acts_within P (call_os os e)"
  by (simp add: acts_within_def call_os_def)

lemma within_and_then [within, intro]:
  assumes m: "acts_within P m" and f: "\<And>x. acts_within P (f x)"
  shows "acts_within P (and_then m f)"
  unfolding acts_within_def
proof (intro allI impI)
  fix s r s''
  assume run: "and_then m f s = (r, s'')"
  obtain r1 s1 where m1: "m s = (r1, s1)" by fastforce
  show "advances s s'' \<and> (\<forall>(n, e)\<in>set (new_effects s s''). P e)"
  proof (cases r1)
    case (Inl e)
    with run m1 m show ?thesis by (auto simp: and_then_def acts_within_def)
  next
    case (Inr x)
    with run m1 have fx: "f x s1 = (r, s'')" by (simp add: and_then_def)
    have a: "advances s s1" and b: "advances s1 s''"
      using acts_withinD(1) [OF m m1] acts_withinD(1) [OF f fx] by blast+
    show ?thesis
      using advances_trans [OF a b] new_effects_trans [OF a b] m m1 f fx
      unfolding acts_within_def by fastforce
  qed
qed

text \<open>An action without effects.\<close>

abbreviation silent :: "'a act \<Rightarrow> bool" where
  "silent m \<equiv> acts_within (\<lambda>_. False) m"

lemma silent_effects: "silent m \<Longrightarrow> m s = (r, s') \<Longrightarrow> new_effects s s' = []"
  unfolding acts_within_def by (cases "new_effects s s'") fastforce+

lemma silent_within: "silent m \<Longrightarrow> acts_within P m"
  by (erule acts_within_mono) simp

end
