(* ===== verification/Clock.thy ===== *)
theory Clock
  imports System
begin

text \<open>
  \<^verbatim>\<open>src/clock.rs\<close>: the monotonic clock in nanoseconds as a saturating \<^verbatim>\<open>u64\<close>, and the deadline
  arithmetic of the broker. A \<^verbatim>\<open>Duration\<close> is its number of nanoseconds, a natural number.
\<close>

type_synonym duration = nat

definition from_secs :: "nat \<Rightarrow> duration" where
  "from_secs n = n * 1000000000"

definition from_millis :: "nat \<Rightarrow> duration" where
  "from_millis n = n * 1000000"

text \<open>\<^verbatim>\<open>u64::try_from(x).unwrap_or(d)\<close> of a signed and of an unsigned value.\<close>

definition u64_from_int_or :: "int \<Rightarrow> u64 \<Rightarrow> u64" where
  "u64_from_int_or x d = (if 0 \<le> x \<and> x < 2 ^ 64 then of_int x else d)"

definition u64_from_nat_or :: "nat \<Rightarrow> u64 \<Rightarrow> u64" where
  "u64_from_nat_or x d = (if x < 2 ^ 64 then of_nat x else d)"

definition add_duration :: "u64 \<Rightarrow> duration \<Rightarrow> u64" where
  "add_duration base duration = saturating_add_u64 base (u64_from_nat_or duration u64_max)"

definition remaining :: "u64 \<Rightarrow> u64 \<Rightarrow> duration" where
  "remaining now deadline = unat (saturating_sub_u64 deadline now)"

definition monotonic_now :: "os \<Rightarrow> nat \<Rightarrow> errno + u64" where
  "monotonic_now os n =
     (case os_clock_gettime os n of
        Inl e \<Rightarrow> Inl e
      | Inr (tv_sec, tv_nsec) \<Rightarrow>
          (let seconds = u64_from_int_or tv_sec 0;
               nanos = u64_from_int_or tv_nsec 0
           in Inr (saturating_add_u64 (saturating_mul_u64 seconds 1000000000) nanos)))"

text \<open>\<open>clock_at os n\<close> is what \<^verbatim>\<open>SystemClock::monotonic\<close> returns as observation \<open>n\<close>.\<close>

definition clock_at :: "os \<Rightarrow> nat \<Rightarrow> u64" where
  "clock_at os n = (case monotonic_now os n of Inl e \<Rightarrow> 0 | Inr v \<Rightarrow> v)"

definition monotonic :: "os \<Rightarrow> sys \<Rightarrow> u64 \<times> sys" where
  "monotonic os s = observe (clock_at os) s"

definition wall :: "os \<Rightarrow> sys \<Rightarrow> int \<times> sys" where
  "wall os s = observe (os_wall os) s"

lemma monotonic_eq [simp]: "monotonic os s = (clock_at os (observed s), tick s)"
  by (simp add: monotonic_def observe_def)

lemma wall_eq [simp]: "wall os s = (os_wall os (observed s), tick s)"
  by (simp add: wall_def observe_def)

text \<open>
  The documented behaviour of \<^verbatim>\<open>CLOCK_MONOTONIC\<close>: readings never decrease. It is the hypothesis of
  the properties that compare readings.
\<close>

definition clock_monotone :: "os \<Rightarrow> bool" where
  "clock_monotone os \<longleftrightarrow> (\<forall>m n. m \<le> n \<longrightarrow> clock_at os m \<le> clock_at os n)"

lemma clock_monotoneD: "clock_monotone os \<Longrightarrow> m \<le> n \<Longrightarrow> clock_at os m \<le> clock_at os n"
  by (simp add: clock_monotone_def)

lemma unat_u64_from_nat_or: "unat (u64_from_nat_or x u64_max) = min x (2 ^ 64 - 1)"
proof (cases "x < 2 ^ 64")
  case True
  then show ?thesis by (simp add: u64_from_nat_or_def unat_of_nat)
next
  case False
  then show ?thesis by (simp add: u64_from_nat_or_def)
qed

lemma unat_add_duration: "unat (add_duration base d) = min (unat base + d) (2 ^ 64 - 1)"
  using unat_u64_less [of base]
  by (simp add: add_duration_def unat_saturating_add_u64 unat_u64_from_nat_or)

lemma add_duration_ge: "base \<le> add_duration base d"
  using unat_u64_less [of base]
  by (simp add: word_le_nat_alt unat_add_duration)

lemma add_duration_mono: "a \<le> b \<Longrightarrow> d \<le> e \<Longrightarrow> add_duration a d \<le> add_duration b e"
  by (simp add: word_le_nat_alt unat_add_duration)

lemma remaining_eq: "remaining now deadline = unat deadline - unat now"
  by (simp add: remaining_def unat_saturating_sub_u64)

lemma remaining_zero_iff: "remaining now deadline = 0 \<longleftrightarrow> deadline \<le> now"
  by (simp add: remaining_eq word_le_nat_alt)

lemma remaining_add_duration:
  assumes "unat now + d < 2 ^ 64"
  shows "remaining now (add_duration now d) = d"
  using assms by (simp add: remaining_eq unat_add_duration)

end
