(* ===== verification/Runtime.thy ===== *)
theory Runtime
  imports Clock
begin

text \<open>
  \<^verbatim>\<open>src/runtime.rs\<close>: the effective user, the runtime paths derived from the user's home, and the
  three guarded file-system operations of broker startup: preparing the directory, taking the
  lock, and removing a stale socket.
\<close>

record effective_user =
  uid :: u32
  user_name :: bytes
  user_home :: bytes

record runtime_paths =
  directory :: bytes
  lock_path :: bytes
  socket_path :: bytes

text \<open>\<^verbatim>\<open>PathBuf::join\<close>: an absolute argument replaces the base.\<close>

definition is_absolute :: "bytes \<Rightarrow> bool" where
  "is_absolute p \<longleftrightarrow> starts_with p (ascii ''/'')"

definition path_join :: "bytes \<Rightarrow> bytes \<Rightarrow> bytes" where
  "path_join base p =
     (if is_absolute p then p
      else if base = [] \<or> last base = hd (ascii ''/'') then base @ p
      else base @ ascii ''/'' @ p)"

definition for_user :: "effective_user \<Rightarrow> runtime_paths" where
  "for_user user =
     (let dir = path_join (user_home user) (ascii ''Library/Caches/opp/run'')
      in \<lparr>directory = dir,
          lock_path = path_join dir (ascii ''broker.lock''),
          socket_path = path_join dir (ascii ''broker.sock'')\<rparr>)"

definition fs_syscall :: "os \<Rightarrow> fs_call \<Rightarrow> unit act" where
  "fs_syscall os c = call_os os (FileSystem c)"

definition symlink_metadata :: "os \<Rightarrow> bytes \<Rightarrow> metadata act" where
  "symlink_metadata os p = query (\<lambda>n. os_lstat os n p)"

definition verify_directory :: "metadata \<Rightarrow> u32 \<Rightarrow> unit io_result" where
  "verify_directory m u =
     (if file_type m \<noteq> Directory \<or> file_type m = Symlink \<or> owner m \<noteq> u
      then Inl (Simple PermissionDenied ''unsafe broker runtime directory'')
      else Inr ())"

text \<open>The modes \<^verbatim>\<open>0o700\<close> and \<^verbatim>\<open>0o600\<close>.\<close>

definition DIRECTORY_MODE :: u32 where "DIRECTORY_MODE = 448"
definition PRIVATE_MODE :: u32 where "PRIVATE_MODE = 384"

definition prepare_directory :: "os \<Rightarrow> runtime_paths \<Rightarrow> effective_user \<Rightarrow> unit act" where
  "prepare_directory os paths user s =
     (let (existing, s1) = symlink_metadata os (directory paths) s;
          verified =
            (case existing of
               Inr m \<Rightarrow> pure_act (verify_directory m (uid user))
             | Inl _ \<Rightarrow>
                 and_then (fs_syscall os (CreateDirAll (directory paths))) (\<lambda>_.
                 and_then (symlink_metadata os (directory paths)) (\<lambda>m.
                   pure_act (verify_directory m (uid user)))))
      in and_then verified (\<lambda>_. fs_syscall os (SetMode (directory paths) DIRECTORY_MODE)) s1)"

text \<open>The lock's file is open for as long as the value lives; the kernel releases it after.\<close>

datatype broker_lock = BrokerLock bytes

definition acquire_lock :: "os \<Rightarrow> runtime_paths \<Rightarrow> effective_user \<Rightarrow> broker_lock act" where
  "acquire_lock os paths user =
     and_then (fs_syscall os (OpenLock (lock_path paths) PRIVATE_MODE)) (\<lambda>_.
     and_then (query (\<lambda>n. os_fstat os n (lock_path paths))) (\<lambda>m.
       if file_type m \<noteq> RegularFile \<or> owner m \<noteq> uid user
       then pure_act (Inl (Simple PermissionDenied ''unsafe broker lock''))
       else
         and_then (fs_syscall os (SetLockMode (lock_path paths) PRIVATE_MODE)) (\<lambda>_.
         and_then (fs_syscall os (FlockExclusiveNonblocking (lock_path paths))) (\<lambda>_.
           pure_act (Inr (BrokerLock (lock_path paths)))))))"

definition remove_stale_socket :: "os \<Rightarrow> runtime_paths \<Rightarrow> effective_user \<Rightarrow> unit act" where
  "remove_stale_socket os paths user s =
     (case symlink_metadata os (socket_path paths) s of
        (Inl e, s1) \<Rightarrow> if error_kind e = NotFound then (Inr (), s1) else (Inl e, s1)
      | (Inr m, s1) \<Rightarrow>
          if file_type m \<noteq> SocketFile \<or> owner m \<noteq> uid user
          then (Inl (Simple PermissionDenied ''unsafe stale broker socket''), s1)
          else fs_syscall os (RemoveFile (socket_path paths)) s1)"

definition is_absent_socket_error :: "io_error \<Rightarrow> bool" where
  "is_absent_socket_error e \<longleftrightarrow> error_kind e \<in> {NotFound, ConnectionRefused}"

end
