(* ===== verification/Environment.thy ===== *)
theory Environment
  imports Account Runtime
begin

text \<open>
  \<^verbatim>\<open>src/environment.rs\<close>: the client context sent with a request, the environment derived from it
  for every child, and the context of a maintenance check.
\<close>

type_synonym env_vars = "(bytes \<times> bytes) list"

record client_context =
  cwd :: bytes
  environment :: env_vars

text \<open>\<open>capture\<close> reads the process: its current directory and its variables.\<close>

definition capture :: "bytes io_result \<Rightarrow> env_vars \<Rightarrow> client_context io_result" where
  "capture current_dir vars =
     bind_result current_dir (\<lambda>dir.
       if \<not> is_absolute dir
       then Inl (invalid ''current directory is not absolute'')
       else Inr \<lparr>cwd = dir, environment = vars\<rparr>)"

definition is_removed :: "bytes \<Rightarrow> bool" where
  "is_removed key \<longleftrightarrow>
     key = ascii ''OP_SESSION''
     \<or> starts_with key (ascii ''OP_SESSION_'')
     \<or> key = ascii ''OP_SERVICE_ACCOUNT_TOKEN''
     \<or> key = ascii ''OP_CONNECT_HOST''
     \<or> key = ascii ''OP_CONNECT_TOKEN''
     \<or> starts_with key (ascii ''OPP_'')"

definition remove_var :: "env_vars \<Rightarrow> bytes \<Rightarrow> env_vars" where
  "remove_var env key = filter (\<lambda>(candidate, _). candidate \<noteq> key) env"

definition set_var :: "env_vars \<Rightarrow> bytes \<Rightarrow> bytes \<Rightarrow> env_vars" where
  "set_var env key value = remove_var env key @ [(key, value)]"

definition sanitized :: "client_context \<Rightarrow> account \<Rightarrow> env_vars" where
  "sanitized context account =
     (let kept = filter (\<lambda>(key, _). \<not> is_removed key) (environment context);
          biometric = set_var kept (ascii ''OP_BIOMETRIC_UNLOCK_ENABLED'') (ascii ''true'')
      in (case explicit account of
            Some selector \<Rightarrow> set_var biometric (ascii ''OP_ACCOUNT'') selector
          | None \<Rightarrow> remove_var biometric (ascii ''OP_ACCOUNT'')))"

text \<open>
  \<^verbatim>\<open>confstr\<close> is called twice: for the size, then to fill a buffer of that size; the answer counts
  the terminating NUL, which is cut off.
\<close>

definition confstr :: "os \<Rightarrow> conf_name \<Rightarrow> sys \<Rightarrow> bytes option \<times> sys" where
  "confstr os name s =
     (let (len, s1) = observe (\<lambda>n. os_confstr_length os n name) s
      in if len \<le> 1 then (None, s1)
         else
           (let ((written, buffer), s2) = observe (\<lambda>n. os_confstr_fill os n name len) s1
            in if written = 0 \<or> written > len then (None, s2)
               else (Some (take (written - 1) buffer), s2)))"

definition system_path :: "os \<Rightarrow> sys \<Rightarrow> bytes \<times> sys" where
  "system_path os s =
     (let (path, s1) = confstr os CS_PATH s
      in (case path of Some p \<Rightarrow> p | None \<Rightarrow> ascii ''/usr/bin:/bin:/usr/sbin:/sbin'', s1))"

definition darwin_user_temp_dir :: "os \<Rightarrow> sys \<Rightarrow> bytes option \<times> sys" where
  "darwin_user_temp_dir os s = confstr os CS_DARWIN_USER_TEMP_DIR s"

definition maintenance ::
  "os \<Rightarrow> effective_user \<Rightarrow> account \<Rightarrow> sys \<Rightarrow> client_context \<times> sys" where
  "maintenance os user account s =
     (let (path, s1) = system_path os s;
          base =
            [(ascii ''HOME'', user_home user),
             (ascii ''USER'', user_name user),
             (ascii ''LOGNAME'', user_name user),
             (ascii ''PATH'', path),
             (ascii ''OP_BIOMETRIC_UNLOCK_ENABLED'', ascii ''true'')];
          (tmpdir, s2) = darwin_user_temp_dir os s1;
          with_tmp = (case tmpdir of Some t \<Rightarrow> base @ [(ascii ''TMPDIR'', t)] | None \<Rightarrow> base);
          vars = (case explicit account of
                    Some selector \<Rightarrow> with_tmp @ [(ascii ''OP_ACCOUNT'', selector)]
                  | None \<Rightarrow> with_tmp)
      in (\<lparr>cwd = user_home user, environment = vars\<rparr>, s2))"

section \<open>What a child's environment contains\<close>

text \<open>All the values bound to a key, in order.\<close>

definition bindings :: "env_vars \<Rightarrow> bytes \<Rightarrow> bytes list" where
  "bindings env key = map snd (filter (\<lambda>(k, _). k = key) env)"

abbreviation op_account_key :: bytes where
  "op_account_key \<equiv> ascii ''OP_ACCOUNT''"

abbreviation biometric_key :: bytes where
  "biometric_key \<equiv> ascii ''OP_BIOMETRIC_UNLOCK_ENABLED''"

lemma bindings_append [simp]: "bindings (xs @ ys) k = bindings xs k @ bindings ys k"
  by (simp add: bindings_def)

lemma bindings_single [simp]: "bindings [(k', v)] k = (if k' = k then [v] else [])"
  by (simp add: bindings_def)

lemma bindings_remove_var [simp]:
  "bindings (remove_var env k') k = (if k = k' then [] else bindings env k)"
proof (cases "k = k'")
  case True
  then show ?thesis by (induction env) (auto simp: bindings_def remove_var_def)
next
  case False
  then show ?thesis by (induction env) (auto simp: bindings_def remove_var_def)
qed

lemma bindings_set_var [simp]:
  "bindings (set_var env k' v) k = (if k = k' then [v] else bindings env k)"
  by (auto simp: set_var_def)

lemma bindings_kept [simp]:
  "bindings (filter (\<lambda>(k, _). \<not> is_removed k) env) k = (if is_removed k then [] else bindings env k)"
  by (induction env) (auto simp: bindings_def)

lemma forced_keys [simp]:
  "\<not> is_removed op_account_key" "\<not> is_removed biometric_key"
  "op_account_key \<noteq> biometric_key" "biometric_key \<noteq> op_account_key"
  by (simp_all add: is_removed_def literals)

lemma bindings_sanitized:
  "bindings (sanitized c a) k =
    (if k = op_account_key then (case explicit a of Some s \<Rightarrow> [s] | None \<Rightarrow> [])
     else if k = biometric_key then [ascii ''true'']
     else if is_removed k then []
     else bindings (environment c) k)"
  by (auto simp: sanitized_def Let_def split: option.splits)

lemma bindings_Nil_iff: "bindings env k = [] \<longleftrightarrow> k \<notin> fst ` set env"
  by (auto simp: bindings_def filter_empty_conv case_prod_unfold image_iff)

lemma sanitized_keys: "k \<in> fst ` set (sanitized c a) \<longleftrightarrow> bindings (sanitized c a) k \<noteq> []"
  by (simp add: bindings_Nil_iff)

lemma sanitized_not_removed: "k \<in> fst ` set (sanitized c a) \<Longrightarrow> \<not> is_removed k"
  unfolding sanitized_keys bindings_sanitized
  by (auto split: if_splits)

text \<open>The order of the variables that are kept is the client's.\<close>

lemma sanitized_split:
  "sanitized c a =
    filter (\<lambda>(k, _). \<not> is_removed k \<and> k \<noteq> biometric_key \<and> k \<noteq> op_account_key) (environment c)
    @ (biometric_key, ascii ''true'')
    # (case explicit a of Some s \<Rightarrow> [(op_account_key, s)] | None \<Rightarrow> [])"
  by (auto simp: sanitized_def set_var_def remove_var_def Let_def filter_filter
      case_prod_unfold conj_commute conj_left_commute split: option.splits intro!: filter_cong)

section \<open>What a maintenance check passes on\<close>

lemma confstr_advances: "confstr os name s = (r, s') \<Longrightarrow> advances s s'"
  by (auto simp: confstr_def observe_def Let_def advances_def tick_def split: if_splits prod.splits)

lemma maintenance_advances: "maintenance os user a s = (c, s') \<Longrightarrow> advances s s'"
  by (auto simp: maintenance_def system_path_def darwin_user_temp_dir_def Let_def
      split: prod.splits dest!: confstr_advances intro: advances_trans)

lemma maintenance_cwd: "maintenance os user a s = (c, s') \<Longrightarrow> cwd c = user_home user"
  by (auto simp: maintenance_def Let_def split: prod.splits)

lemma maintenance_keys:
  assumes "maintenance os user a s = (c, s')"
  shows "set (map fst (sanitized c a)) \<subseteq>
    {ascii ''HOME'', ascii ''USER'', ascii ''LOGNAME'', ascii ''PATH'', ascii ''TMPDIR'',
     biometric_key, op_account_key}"
  using assms
  by (auto simp: maintenance_def Let_def sanitized_split split: prod.splits option.splits)

end
