(* ===== verification/Darwin.thy ===== *)
theory Darwin
  imports Environment
begin

text \<open>
  \<^verbatim>\<open>src/darwin.rs\<close>: the broker process's own set-up, peer verification, the retained terminal, and
  starting a suspended child in a process group of its own.
\<close>

section \<open>The broker process and its peers\<close>

definition prepare_broker_process :: "os \<Rightarrow> unit act" where
  "prepare_broker_process os =
     and_then (call_os os SetSid) (\<lambda>_.
     and_then (call_os os (IgnoreSignal SIGHUP)) (\<lambda>_.
     and_then (call_os os (IgnoreSignal SIGTTOU)) (\<lambda>_.
     and_then (call_os os (IgnoreSignal SIGTTIN)) (\<lambda>_.
       call_os os (IgnoreSignal SIGPIPE)))))"

definition verify_peer :: "os \<Rightarrow> u32 \<Rightarrow> unit act" where
  "verify_peer os expected_uid =
     and_then (query (os_peer_uid os)) (\<lambda>u.
       pure_act (if u \<noteq> expected_uid
                 then Inl (Simple PermissionDenied ''broker peer user mismatch'')
                 else Inr ()))"

section \<open>The terminal\<close>

record terminal =
  slave :: fd
  broker_group :: pid
  drain_master :: "fd option"

definition terminal_acquire :: "os \<Rightarrow> terminal act" where
  "terminal_acquire os =
     and_then (query (os_openpty os)) (\<lambda>(master_fd, slave_fd).
     and_then (call_os os (ControllingTerminal slave_fd)) (\<lambda>_.
     and_then (\<lambda>s. case observe (os_getpgrp os) s of (g, s') \<Rightarrow> (Inr g, s')) (\<lambda>pgrp.
     and_then (call_os os (SetForeground slave_fd pgrp)) (\<lambda>_.
     and_then (call_os os (GetFlags master_fd)) (\<lambda>_.
     and_then (call_os os (SetNonblocking master_fd)) (\<lambda>_.
     and_then (\<lambda>s. case observe (os_thread_spawn os) s of (r, s') \<Rightarrow> (raw_unit r, s')) (\<lambda>_.
       pure_act (Inr \<lparr>slave = slave_fd, broker_group = pgrp,
                      drain_master = Some master_fd\<rparr>))))))))"

definition foreground :: "os \<Rightarrow> terminal \<Rightarrow> pid \<Rightarrow> unit act" where
  "foreground os t pgrp = call_os os (SetForeground (slave t) pgrp)"

definition restore_foreground :: "os \<Rightarrow> terminal \<Rightarrow> unit act" where
  "restore_foreground os t = foreground os t (broker_group t)"

text \<open>Stops and joins the draining thread, which owns the master side and closes it; idempotent.\<close>

definition terminal_shutdown :: "terminal \<Rightarrow> sys \<Rightarrow> terminal \<times> sys" where
  "terminal_shutdown t s =
     (case drain_master t of
        None \<Rightarrow> (t, s)
      | Some master_fd \<Rightarrow> (t\<lparr>drain_master := None\<rparr>, emit (TerminalClosed master_fd) s))"

section \<open>Starting a child\<close>

record spawn_input =
  si_executable :: bytes
  si_arguments :: "bytes list"
  si_environment :: env_vars
  si_cwd :: bytes
  si_stdio :: "fd \<times> fd \<times> fd"

text \<open>\<^verbatim>\<open>CString::new(..).map_err(nul_error)\<close>.\<close>

definition cstring :: "bytes \<Rightarrow> bytes io_result" where
  "cstring bs =
     (if 0 \<in> set bs then Inl (Simple InvalidInput ''process value contains NUL'') else Inr bs)"

fun cstrings :: "bytes list \<Rightarrow> bytes list io_result" where
  "cstrings [] = Inr []"
| "cstrings (x # xs) =
     bind_result (cstring x) (\<lambda>c. bind_result (cstrings xs) (\<lambda>cs. Inr (c # cs)))"

definition environment_entry :: "bytes \<times> bytes \<Rightarrow> bytes" where
  "environment_entry kv = fst kv @ ascii ''='' @ snd kv"

text \<open>One call of the \<^verbatim>\<open>posix_spawn\<close> set-up functions, which may fail (\<^verbatim>\<open>cvt_spawn\<close>).\<close>

definition spawn_setup :: "os \<Rightarrow> unit act" where
  "spawn_setup os s = (case observe (os_spawn_setup os) s of (r, s') \<Rightarrow> (raw_unit r, s'))"

definition actions_new :: "os \<Rightarrow> file_action list act" where
  "actions_new os = and_then (spawn_setup os) (\<lambda>_. pure_act (Inr []))"

definition actions_dup2 :: "os \<Rightarrow> fd \<Rightarrow> fd \<Rightarrow> file_action list \<Rightarrow> file_action list act" where
  "actions_dup2 os source target actions =
     and_then (spawn_setup os) (\<lambda>_. pure_act (Inr (actions @ [Dup2 source target])))"

definition actions_chdir :: "os \<Rightarrow> bytes \<Rightarrow> file_action list \<Rightarrow> file_action list act" where
  "actions_chdir os path actions =
     and_then (spawn_setup os) (\<lambda>_. pure_act (Inr (actions @ [AddChdir path])))"

record spawn_attributes =
  at_pgroup :: pid
  at_sigmask :: "signal list"
  at_sigdefault :: "signal list"
  at_flags :: int

text \<open>
  \<^verbatim>\<open>POSIX_SPAWN_SETPGROUP | SETSIGDEF | SETSIGMASK | START_SUSPENDED | CLOEXEC_DEFAULT\<close>: distinct bits
  of Darwin's \<^verbatim>\<open>spawn.h\<close>, so their union is their sum.
\<close>

definition SPAWN_FLAGS :: int where
  "SPAWN_FLAGS = 2 + 4 + 8 + 128 + 16384"

definition default_signals :: "signal list" where
  "default_signals = [SIGHUP, SIGINT, SIGQUIT, SIGPIPE, SIGTERM, SIGTSTP, SIGTTIN, SIGTTOU]"

fun add_signals :: "os \<Rightarrow> signal list \<Rightarrow> signal list \<Rightarrow> signal list act" where
  "add_signals os [] acc = pure_act (Inr acc)"
| "add_signals os (sig # sigs) acc =
     and_then (spawn_setup os) (\<lambda>_. add_signals os sigs (acc @ [sig]))"

definition attributes_new :: "os \<Rightarrow> spawn_attributes act" where
  "attributes_new os =
     and_then (spawn_setup os) (\<lambda>_.
       pure_act (Inr \<lparr>at_pgroup = - 1, at_sigmask = [], at_sigdefault = [], at_flags = 0\<rparr>))"

definition attributes_configure :: "os \<Rightarrow> spawn_attributes \<Rightarrow> spawn_attributes act" where
  "attributes_configure os a =
     and_then (spawn_setup os) (\<lambda>_.
     let a1 = a\<lparr>at_pgroup := 0\<rparr> in
     and_then (spawn_setup os) (\<lambda>_.
     and_then (add_signals os default_signals []) (\<lambda>defaults.
     and_then (spawn_setup os) (\<lambda>_.
     let a2 = a1\<lparr>at_sigmask := []\<rparr> in
     and_then (spawn_setup os) (\<lambda>_.
     let a3 = a2\<lparr>at_sigdefault := defaults\<rparr> in
       if \<not> (- (2 ^ 15) \<le> SPAWN_FLAGS \<and> SPAWN_FLAGS < 2 ^ 15)
       then pure_act (Inl (Simple InvalidInput ''spawn flags do not fit c_short''))
       else and_then (spawn_setup os) (\<lambda>_. pure_act (Inr (a3\<lparr>at_flags := SPAWN_FLAGS\<rparr>))))))))"

text \<open>Everything \<^verbatim>\<open>spawn_suspended\<close> does before the call that starts the child.\<close>

definition spawn_prepare :: "os \<Rightarrow> spawn_input \<Rightarrow> spawn_call act" where
  "spawn_prepare os input =
     and_then (pure_act (cstring (si_executable input))) (\<lambda>executable.
     and_then (pure_act (cstring (si_cwd input))) (\<lambda>dir.
     and_then (pure_act (cstrings (si_executable input # si_arguments input))) (\<lambda>arguments.
     and_then (pure_act (cstrings (map environment_entry (si_environment input)))) (\<lambda>vars.
     and_then (actions_new os) (\<lambda>acts0.
     (case si_stdio input of (a, b, c) \<Rightarrow>
     and_then (actions_dup2 os a 0 acts0) (\<lambda>acts1.
     and_then (actions_dup2 os b 1 acts1) (\<lambda>acts2.
     and_then (actions_dup2 os c 2 acts2) (\<lambda>acts3.
     and_then (actions_chdir os dir acts3) (\<lambda>actions.
     and_then (attributes_new os) (\<lambda>attrs0.
     and_then (attributes_configure os attrs0) (\<lambda>attrs.
       pure_act (Inr \<lparr>sp_path = executable, sp_argv = arguments, sp_envp = vars,
                      sp_actions = actions, sp_pgroup = at_pgroup attrs,
                      sp_sigmask = at_sigmask attrs, sp_sigdefault = at_sigdefault attrs,
                      sp_flags = at_flags attrs\<rparr>)))))))))))))"

definition spawn_suspended :: "os \<Rightarrow> spawn_input \<Rightarrow> pid act" where
  "spawn_suspended os input =
     and_then (spawn_prepare os input) (\<lambda>spawn s.
       (raw_os (os_posix_spawn os (observed s) spawn), tick (emit (PosixSpawn spawn) s)))"

section \<open>What a child is started with\<close>

text \<open>
  The abstract description of a start: the executable, the argument vector headed by it, the
  environment as \<^verbatim>\<open>KEY=VALUE\<close>, the three standard streams, the directory, a new process group, an
  empty signal mask, default dispositions, and a suspended start with every other descriptor
  closed.
\<close>

definition spawn_of :: "spawn_input \<Rightarrow> spawn_call" where
  "spawn_of input =
     (case si_stdio input of (a, b, c) \<Rightarrow>
       \<lparr>sp_path = si_executable input,
        sp_argv = si_executable input # si_arguments input,
        sp_envp = map environment_entry (si_environment input),
        sp_actions = [Dup2 a 0, Dup2 b 1, Dup2 c 2, AddChdir (si_cwd input)],
        sp_pgroup = 0, sp_sigmask = [], sp_sigdefault = default_signals,
        sp_flags = SPAWN_FLAGS\<rparr>)"

definition spawnable :: "spawn_input \<Rightarrow> bool" where
  "spawnable input \<longleftrightarrow> 0 \<notin> set (si_executable input) \<and> 0 \<notin> set (si_cwd input)
     \<and> (\<forall>a\<in>set (si_arguments input). 0 \<notin> set a)
     \<and> (\<forall>kv\<in>set (si_environment input). 0 \<notin> set (fst kv) \<and> 0 \<notin> set (snd kv))"

lemma cstring_Inr [result_simps]: "cstring b = Inr c \<longleftrightarrow> 0 \<notin> set b \<and> c = b"
  by (auto simp: cstring_def)

lemma cstrings_Inr [result_simps]: "cstrings xs = Inr cs \<longleftrightarrow> (\<forall>x\<in>set xs. 0 \<notin> set x) \<and> cs = xs"
  by (induction xs arbitrary: cs) (auto simp: result_simps)

lemma environment_entry_nul:
  "0 \<notin> set (environment_entry kv) \<longleftrightarrow> 0 \<notin> set (fst kv) \<and> 0 \<notin> set (snd kv)"
  by (auto simp: environment_entry_def literals)

lemma silent_spawn_setup [within]: "silent (spawn_setup os)"
  by (simp add: acts_within_def spawn_setup_def observe_def)

lemma silent_add_signals [within]: "silent (add_signals os sigs acc)"
  by (induction sigs arbitrary: acc) (auto intro: within)

lemma silent_spawn_prepare: "silent (spawn_prepare os input)"
  by (auto simp: spawn_prepare_def actions_new_def actions_dup2_def actions_chdir_def
      attributes_new_def attributes_configure_def Let_def split: prod.splits intro!: within)

lemma add_signals_Inr: "add_signals os sigs acc s = (Inr r, s') \<Longrightarrow> r = acc @ sigs"
  by (induction sigs arbitrary: acc s) (fastforce simp: result_simps)+

lemma spawn_prepare_Inr:
  assumes "spawn_prepare os input s = (Inr spawn, s')"
  shows "spawn = spawn_of input \<and> spawnable input"
proof -
  obtain a b c where stdio: "si_stdio input = (a, b, c)" by (cases "si_stdio input")
  from assms show ?thesis
    by (auto simp: spawn_prepare_def actions_new_def actions_dup2_def actions_chdir_def
        attributes_new_def attributes_configure_def Let_def stdio result_simps spawn_of_def
        spawnable_def environment_entry_nul split: if_splits dest!: add_signals_Inr)
qed

lemma spawn_suspended_cases:
  assumes "spawn_suspended os input s = (r, s')"
  obtains (refused) e where "r = Inl e" and "advances s s'" and "new_effects s s' = []"
  | (called) s1 where "advances s s1" and "new_effects s s1 = []" and "spawnable input"
    and "r = raw_os (os_posix_spawn os (observed s1) (spawn_of input))"
    and "s' = tick (emit (PosixSpawn (spawn_of input)) s1)"
proof -
  obtain r1 s1 where p: "spawn_prepare os input s = (r1, s1)" by fastforce
  have a: "advances s s1" and n: "new_effects s s1 = []"
    using acts_withinD(1) [OF silent_spawn_prepare p] silent_effects [OF silent_spawn_prepare p]
    by blast+
  show thesis
  proof (cases r1)
    case (Inl e)
    with assms p a n show ?thesis
      by (intro refused [of e]) (auto simp: spawn_suspended_def and_then_def)
  next
    case (Inr spawn)
    with spawn_prepare_Inr p have "spawn = spawn_of input" "spawnable input" by blast+
    with assms p a n Inr show ?thesis
      by (intro called [of s1]) (auto simp: spawn_suspended_def and_then_def)
  qed
qed

lemma within_spawn_suspended [within]: "acts_within (\<lambda>e. e = PosixSpawn (spawn_of input)) (spawn_suspended os input)"
  unfolding acts_within_def
proof (intro allI impI)
  fix s r s'
  assume "spawn_suspended os input s = (r, s')"
  then show "advances s s' \<and> (\<forall>(n, e)\<in>set (new_effects s s'). e = PosixSpawn (spawn_of input))"
    by (cases rule: spawn_suspended_cases) (auto intro: advances_trans)
qed

end
