(* ===== verification/Process.thy ===== *)
theory Process
  imports Darwin
begin

text \<open>
  \<^verbatim>\<open>src/process.rs\<close>: running one child to its end. \<open>runner_run\<close> is a requested command on the client's
  descriptors, \<open>runner_probe\<close> an authorization probe whose output is discarded; both share the polling
  loop \<open>wait_inner\<close> with its escalation from SIGTERM to SIGKILL. The loop ends only when the child is
  reaped and its streams are closed, which the world may never grant: \<open>None\<close> is "does not return".
\<close>

definition POLL_INTERVAL :: duration where
  "POLL_INTERVAL = from_millis 10"

definition TERMINATION_GRACE :: duration where
  "TERMINATION_GRACE = from_secs 2"

section \<open>Request control\<close>

record request_control =
  cancelled :: bool
  streams_closed :: bool
  cancel_signal :: i32

definition control_default :: request_control where
  "control_default = \<lparr>cancelled = False, streams_closed = False, cancel_signal = 0\<rparr>"

definition control_cancel :: "i32 \<Rightarrow> request_control \<Rightarrow> request_control" where
  "control_cancel sig c = c\<lparr>cancel_signal := sig, cancelled := True\<rparr>"

definition control_disconnect :: "request_control \<Rightarrow> request_control" where
  "control_disconnect c = c\<lparr>streams_closed := True, cancelled := True\<rparr>"

definition control_close_streams :: "request_control \<Rightarrow> request_control" where
  "control_close_streams c = c\<lparr>streams_closed := True\<rparr>"

text \<open>
  The control is shared with the thread that monitors the client, so the executor sees a history
  of it: its value at each observation.
\<close>

type_synonym control = "nat \<Rightarrow> request_control"

definition is_cancelled :: "control \<Rightarrow> sys \<Rightarrow> bool \<times> sys" where
  "is_cancelled control s = observe (\<lambda>n. cancelled (control n)) s"

definition control_signal :: "control \<Rightarrow> sys \<Rightarrow> i32 \<times> sys" where
  "control_signal control s = observe (\<lambda>n. cancel_signal (control n)) s"

section \<open>The polling loop\<close>

datatype process_outcome = OutExited i32 | OutSignaled i32 | OutTimedOut | OutCancelled i32
  | OutShutdown

fun map_wait_status :: "wait_status \<Rightarrow> process_outcome" where
  "map_wait_status (Exited p code) = OutExited code"
| "map_wait_status (Signaled p sig core) = OutSignaled (signal_number sig)"
| "map_wait_status _ = OutSignaled (signal_number SIGKILL)"

definition terminate_group :: "os \<Rightarrow> pid \<Rightarrow> signal \<Rightarrow> unit act" where
  "terminate_group os p sig s =
     (case call_os os (KillGroup p sig) s of
        (Inl (RawOs ESRCH), s') \<Rightarrow> (Inr (), s')
      | (r, s') \<Rightarrow> (r, s'))"

definition process_group_exists :: "os \<Rightarrow> pid \<Rightarrow> bool act" where
  "process_group_exists os p s =
     (case observe (\<lambda>n. os_kill_zero os n p) s of
        (None, s') \<Rightarrow> (Inr True, s')
      | (Some ESRCH, s') \<Rightarrow> (Inr False, s')
      | (Some EPERM, s') \<Rightarrow> (Inr True, s')
      | (Some e, s') \<Rightarrow> (Inl (RawOs e), s'))"

record loop_state =
  ls_status :: "wait_status option"
  ls_termination :: "process_outcome option"
  ls_kill_deadline :: "u64 option"

definition loop_start :: loop_state where
  "loop_start = \<lparr>ls_status = None, ls_termination = None, ls_kill_deadline = None\<rparr>"

definition poll_status :: "os \<Rightarrow> pid \<Rightarrow> wait_status option \<Rightarrow> wait_status option act" where
  "poll_status os p status =
     (if status = None then
        and_then (query (\<lambda>n. os_waitpid os n p)) (\<lambda>w.
          pure_act (Inr (if w = StillAlive then None else Some w)))
      else pure_act (Inr status))"

text \<open>The reason to terminate, if any: shutdown before cancellation before the deadline.\<close>

definition termination_reason ::
  "os \<Rightarrow> u64 option \<Rightarrow> control \<Rightarrow> sys \<Rightarrow> process_outcome option \<times> sys" where
  "termination_reason os deadline control s =
     (let (down, s1) = shutdown_load os s in
      if down then (Some OutShutdown, s1)
      else
        (let (gone, s2) = is_cancelled control s1 in
         if gone then
           (let (sig, s3) = control_signal control s2 in (Some (OutCancelled sig), s3))
         else
           (case deadline of
              None \<Rightarrow> (None, s2)
            | Some value \<Rightarrow>
                (let (now, s3) = monotonic os s2
                 in (if value \<le> now then Some OutTimedOut else None, s3)))))"

definition escalate ::
  "os \<Rightarrow> pid \<Rightarrow> u64 option \<Rightarrow> control \<Rightarrow> loop_state \<Rightarrow> loop_state act" where
  "escalate os p deadline control ls s =
     (if ls_termination ls = None then
        (let (reason, s1) = termination_reason os deadline control s in
         if reason \<noteq> None then
           and_then (terminate_group os p SIGTERM) (\<lambda>_ s2.
             (let (now, s3) = monotonic os s2
              in (Inr (ls\<lparr>ls_termination := reason,
                          ls_kill_deadline := Some (add_duration now TERMINATION_GRACE)\<rparr>), s3))) s1
         else (Inr ls, s1))
      else
        (case ls_kill_deadline ls of
           None \<Rightarrow> (Inr ls, s)
         | Some value \<Rightarrow>
             (let (now, s1) = monotonic os s in
              if value \<le> now then
                and_then (terminate_group os p SIGKILL)
                  (\<lambda>_. pure_act (Inr (ls\<lparr>ls_kill_deadline := None\<rparr>))) s1
              else (Inr ls, s1))))"

definition completion ::
  "os \<Rightarrow> pid \<Rightarrow> (nat \<Rightarrow> bool) \<Rightarrow> loop_state \<Rightarrow> process_outcome option act" where
  "completion os p closed ls s =
     (case ls_status ls of
        None \<Rightarrow> (Inr None, s)
      | Some status \<Rightarrow>
          (let (closed_now, s1) = observe closed s;
               (ended, s2) = (if closed_now then (True, s1) else shutdown_load os s1)
           in if \<not> ended then (Inr None, s2)
              else
                (case ls_termination ls of
                   None \<Rightarrow> (Inr (Some (map_wait_status status)), s2)
                 | Some outcome \<Rightarrow>
                     and_then (process_group_exists os p) (\<lambda>alive.
                       pure_act (Inr (if alive then None else Some outcome))) s2)))"

definition sleep_interval :: "u64 option \<Rightarrow> u64 \<Rightarrow> duration" where
  "sleep_interval deadline now =
     max (case deadline of
            None \<Rightarrow> POLL_INTERVAL
          | Some value \<Rightarrow> min (remaining now value) POLL_INTERVAL) (from_millis 1)"

definition loop_sleep :: "os \<Rightarrow> u64 option \<Rightarrow> sys \<Rightarrow> sys" where
  "loop_sleep os deadline s =
     (let (now, s1) = (if deadline = None then (0, s) else monotonic os s)
      in tick (emit (Sleep (sleep_interval deadline now)) s1))"

definition wait_step ::
  "os \<Rightarrow> pid \<Rightarrow> u64 option \<Rightarrow> control \<Rightarrow> (nat \<Rightarrow> bool) \<Rightarrow> loop_state \<Rightarrow>
    (loop_state + process_outcome) act" where
  "wait_step os p deadline control closed ls =
     and_then (poll_status os p (ls_status ls)) (\<lambda>status.
     and_then (escalate os p deadline control (ls\<lparr>ls_status := status\<rparr>)) (\<lambda>ls'.
     and_then (completion os p closed ls') (\<lambda>finished.
       (case finished of
          Some outcome \<Rightarrow> pure_act (Inr (Inr outcome))
        | None \<Rightarrow> (\<lambda>s. (Inr (Inl ls'), loop_sleep os deadline s))))))"

partial_function (option) wait_inner ::
  "os \<Rightarrow> pid \<Rightarrow> u64 option \<Rightarrow> control \<Rightarrow> (nat \<Rightarrow> bool) \<Rightarrow> loop_state \<Rightarrow> sys \<Rightarrow>
    (process_outcome io_result \<times> sys) option" where
  "wait_inner os p deadline control closed ls s =
     (case wait_step os p deadline control closed ls s of
        (r, s') \<Rightarrow>
          (case r of
             Inl e \<Rightarrow> Some (Inl e, s')
           | Inr next \<Rightarrow>
               (case next of
                  Inr outcome \<Rightarrow> Some (Inr outcome, s')
                | Inl ls' \<Rightarrow> wait_inner os p deadline control closed ls' s')))"

section \<open>Running a child\<close>

text \<open>\<^verbatim>\<open>let _ = killpg(pid, SIGKILL); let _ = waitpid(pid, None);\<close>\<close>

definition kill_and_reap :: "os \<Rightarrow> pid \<Rightarrow> sys \<Rightarrow> sys" where
  "kill_and_reap os p s =
     (let s1 = snd (call_os os (KillGroup p SIGKILL) s) in snd (call_os os (Reap p) s1))"

text \<open>From the suspended child to its outcome: the part that \<^verbatim>\<open>run\<close> and \<^verbatim>\<open>probe\<close> have in common.\<close>

definition supervise ::
  "os \<Rightarrow> terminal \<Rightarrow> pid \<Rightarrow> (sys \<Rightarrow> (process_outcome io_result \<times> sys) option) \<Rightarrow> sys \<Rightarrow>
    (process_outcome io_result \<times> sys) option" where
  "supervise os t p wait s =
     (case foreground os t p s of
        (Inl e, s1) \<Rightarrow> Some (Inl e, kill_and_reap os p s1)
      | (Inr _, s1) \<Rightarrow>
          (case call_os os (Kill p SIGCONT) s1 of
             (Inl e, s2) \<Rightarrow>
               Some (Inl e, snd (restore_foreground os t (kill_and_reap os p s2)))
           | (Inr _, s2) \<Rightarrow>
               (case wait s2 of
                  None \<Rightarrow> None
                | Some (outcome, s3) \<Rightarrow>
                    (let s4 = (if is_ok outcome then s3 else kill_and_reap os p s3);
                         (foreground_result, s5) = restore_foreground os t s4
                     in Some (case outcome of
                                Inl e \<Rightarrow> (Inl e, s5)
                              | Inr v \<Rightarrow>
                                  (case foreground_result of
                                     Inl e \<Rightarrow> (Inl e, s5)
                                   | Inr _ \<Rightarrow> (Inr v, s5)))))))"

definition runner_run ::
  "os \<Rightarrow> bytes \<Rightarrow> terminal \<Rightarrow> bytes list \<Rightarrow> client_context \<Rightarrow> env_vars \<Rightarrow> fd \<times> fd \<times> fd \<Rightarrow>
    u64 option \<Rightarrow> control \<Rightarrow> sys \<Rightarrow> (process_outcome io_result \<times> sys) option" where
  "runner_run os executable t arguments context vars descriptors deadline control s =
     (case spawn_suspended os
         \<lparr>si_executable = executable, si_arguments = arguments, si_environment = vars,
          si_cwd = cwd context, si_stdio = descriptors\<rparr> s of
        (Inl e, s1) \<Rightarrow> Some (Inl e, s1)
      | (Inr p, s1) \<Rightarrow>
          supervise os t p
            (wait_inner os p deadline control (\<lambda>n. streams_closed (control n)) loop_start) s1)"

text \<open>The three pipes of a probe and the thread that drains its output.\<close>

definition probe_pipes :: "os \<Rightarrow> (fd \<times> fd \<times> fd) act" where
  "probe_pipes os =
     and_then (query (os_pipe os)) (\<lambda>(stdin_read, stdin_write).
     and_then (query (os_pipe os)) (\<lambda>(stdout_read, stdout_write).
     and_then (query (os_pipe os)) (\<lambda>(stderr_read, stderr_write).
     and_then (\<lambda>s. case observe (os_thread_spawn os) s of (r, s') \<Rightarrow> (raw_unit r, s')) (\<lambda>_.
       pure_act (Inr (stdin_read, stdout_write, stderr_write))))))"

definition runner_probe ::
  "os \<Rightarrow> bytes \<Rightarrow> terminal \<Rightarrow> bytes list \<Rightarrow> client_context \<Rightarrow> env_vars \<Rightarrow>
    u64 \<Rightarrow> control \<Rightarrow> sys \<Rightarrow> (process_outcome io_result \<times> sys) option" where
  "runner_probe os executable t arguments context vars deadline external_control s =
     (case probe_pipes os s of
        (Inl e, s1) \<Rightarrow> Some (Inl e, s1)
      | (Inr descriptors, s1) \<Rightarrow>
          (case spawn_suspended os
              \<lparr>si_executable = executable, si_arguments = arguments, si_environment = vars,
               si_cwd = cwd context, si_stdio = descriptors\<rparr> s1 of
             (Inl e, s2) \<Rightarrow> Some (Inl e, s2)
           | (Inr p, s2) \<Rightarrow>
               supervise os t p
                 (wait_inner os p (Some deadline) external_control (os_probe_closed os) loop_start)
                 s2))"

end
