(* ===== verification/Codec.thy ===== *)
theory Codec
  imports Environment
begin

text \<open>
  The \<^verbatim>\<open>Encoder\<close> and \<^verbatim>\<open>Decoder\<close> of \<^verbatim>\<open>src/protocol.rs\<close>. An encoder is the byte vector it has written; a
  decoder is a buffer and an offset. Each field type has an \<open>enc_*\<close> and a \<open>dec_*\<close> function, and the
  locale \<open>field_codec\<close> states what every pair owes the messages built from it: encoding appends,
  decoding inverts encoding, and only canonical encodings decode.
\<close>

definition MAX_PAYLOAD :: nat where
  "MAX_PAYLOAD = 2 * 1024 * 1024"

section \<open>Encoder\<close>

type_synonym encoder = bytes

definition enc_u8 :: "u8 \<Rightarrow> encoder \<Rightarrow> encoder" where
  "enc_u8 value e = e @ [value]"

definition enc_u16 :: "u16 \<Rightarrow> encoder \<Rightarrow> encoder" where
  "enc_u16 value e = e @ be_bytes 2 (unat value)"

definition enc_u32 :: "u32 \<Rightarrow> encoder \<Rightarrow> encoder" where
  "enc_u32 value e = e @ be_bytes 4 (unat value)"

definition enc_u64 :: "u64 \<Rightarrow> encoder \<Rightarrow> encoder" where
  "enc_u64 value e = e @ be_bytes 8 (unat value)"

text \<open>\<^verbatim>\<open>u32::try_from\<close> and \<^verbatim>\<open>u16::try_from\<close> of a length.\<close>

definition u32_try_from :: "nat \<Rightarrow> u32 option" where
  "u32_try_from n = (if n < 2 ^ 32 then Some (of_nat n) else None)"

definition u16_try_from :: "nat \<Rightarrow> u16 option" where
  "u16_try_from n = (if n < 2 ^ 16 then Some (of_nat n) else None)"

definition enc_bytes :: "bytes \<Rightarrow> encoder \<Rightarrow> encoder io_result" where
  "enc_bytes value e =
     (case u32_try_from (length value) of
        None \<Rightarrow> Inl (invalid ''field is too large'')
      | Some n \<Rightarrow> Inr (enc_u32 n e @ value))"

definition enc_string :: "bytes \<Rightarrow> encoder \<Rightarrow> encoder io_result" where
  "enc_string value e = enc_bytes value e"

definition enc_account :: "account \<Rightarrow> encoder \<Rightarrow> encoder io_result" where
  "enc_account account e =
     (case explicit account of
        Some selector \<Rightarrow> enc_string selector (enc_u8 1 e)
      | None \<Rightarrow> Inr (enc_u8 0 e))"

text \<open>A \<^verbatim>\<open>for\<close> loop that encodes each element and returns early on an error.\<close>

fun enc_each :: "('a \<Rightarrow> encoder \<Rightarrow> encoder io_result) \<Rightarrow> 'a list \<Rightarrow> encoder \<Rightarrow> encoder io_result" where
  "enc_each f [] e = Inr e"
| "enc_each f (x # xs) e = bind_result (f x e) (enc_each f xs)"

definition enc_entry :: "bytes \<times> bytes \<Rightarrow> encoder \<Rightarrow> encoder io_result" where
  "enc_entry kv e = bind_result (enc_bytes (fst kv) e) (enc_bytes (snd kv))"

definition enc_context :: "client_context \<Rightarrow> encoder \<Rightarrow> encoder io_result" where
  "enc_context context e =
     bind_result (enc_bytes (cwd context) e) (\<lambda>e1.
       (case u32_try_from (length (environment context)) of
          None \<Rightarrow> Inl (invalid ''too many environment entries'')
        | Some n \<Rightarrow> enc_each enc_entry (environment context) (enc_u32 n e1)))"

definition enc_finish :: "encoder \<Rightarrow> bytes io_result" where
  "enc_finish e =
     (if length e > MAX_PAYLOAD then Inl (invalid ''protocol payload is too large'') else Inr e)"

section \<open>Decoder\<close>

record decoder =
  buf :: bytes
  offset :: nat

definition dec_new :: "bytes \<Rightarrow> decoder" where
  "dec_new bs = \<lparr>buf = bs, offset = 0\<rparr>"

definition dec_take :: "nat \<Rightarrow> decoder \<Rightarrow> (bytes \<times> decoder) io_result" where
  "dec_take len d =
     (case checked_add_usize (offset d) len of
        None \<Rightarrow> Inl (invalid ''protocol field overflow'')
      | Some stop \<Rightarrow>
          if stop > length (buf d) then Inl (invalid ''truncated protocol payload'')
          else Inr (take (stop - offset d) (drop (offset d) (buf d)), d\<lparr>offset := stop\<rparr>))"

definition dec_u8 :: "decoder \<Rightarrow> (u8 \<times> decoder) io_result" where
  "dec_u8 d = bind_result (dec_take 1 d) (\<lambda>(bs, d'). Inr (bs ! 0, d'))"

definition dec_boolean :: "decoder \<Rightarrow> (bool \<times> decoder) io_result" where
  "dec_boolean d =
     bind_result (dec_u8 d) (\<lambda>(b, d').
       if b = 0 then Inr (False, d')
       else if b = 1 then Inr (True, d')
       else Inl (invalid ''invalid protocol boolean''))"

definition dec_u16 :: "decoder \<Rightarrow> (u16 \<times> decoder) io_result" where
  "dec_u16 d = bind_result (dec_take 2 d) (\<lambda>(bs, d'). Inr (of_nat (be_value bs), d'))"

definition dec_u32 :: "decoder \<Rightarrow> (u32 \<times> decoder) io_result" where
  "dec_u32 d = bind_result (dec_take 4 d) (\<lambda>(bs, d'). Inr (of_nat (be_value bs), d'))"

definition dec_u64 :: "decoder \<Rightarrow> (u64 \<times> decoder) io_result" where
  "dec_u64 d = bind_result (dec_take 8 d) (\<lambda>(bs, d'). Inr (of_nat (be_value bs), d'))"

definition dec_bytes :: "decoder \<Rightarrow> (bytes \<times> decoder) io_result" where
  "dec_bytes d = bind_result (dec_u32 d) (\<lambda>(n, d'). dec_take (unat n) d')"

definition dec_string :: "decoder \<Rightarrow> (bytes \<times> decoder) io_result" where
  "dec_string d =
     bind_result (dec_bytes d) (\<lambda>(bs, d').
       (case string_from_utf8 bs of
          None \<Rightarrow> Inl (invalid ''invalid protocol UTF-8'')
        | Some str \<Rightarrow> Inr (str, d')))"

definition dec_account :: "decoder \<Rightarrow> (account \<times> decoder) io_result" where
  "dec_account d =
     bind_result (dec_u8 d) (\<lambda>(flag, d').
       if flag = 0 then Inr (Account None, d')
       else if flag = 1 then
         bind_result (dec_string d') (\<lambda>(selector, d''). Inr (Account (Some selector), d''))
       else Inl (invalid ''invalid account presence flag''))"

text \<open>A \<^verbatim>\<open>for _ in 0..count\<close> loop that decodes one element per round.\<close>

fun dec_each :: "(decoder \<Rightarrow> ('a \<times> decoder) io_result) \<Rightarrow> nat \<Rightarrow> decoder \<Rightarrow>
    ('a list \<times> decoder) io_result" where
  "dec_each f 0 d = Inr ([], d)"
| "dec_each f (Suc n) d =
     bind_result (f d) (\<lambda>(x, d').
       bind_result (dec_each f n d') (\<lambda>(xs, d''). Inr (x # xs, d'')))"

definition dec_entry :: "decoder \<Rightarrow> ((bytes \<times> bytes) \<times> decoder) io_result" where
  "dec_entry d =
     bind_result (dec_bytes d) (\<lambda>(key, d').
       bind_result (dec_bytes d') (\<lambda>(value, d'').
         if key = [] \<or> 0 \<in> set key \<or> hd (ascii ''='') \<in> set key \<or> 0 \<in> set value
         then Inl (invalid ''invalid environment entry'')
         else Inr ((key, value), d'')))"

definition dec_context :: "decoder \<Rightarrow> (client_context \<times> decoder) io_result" where
  "dec_context d =
     bind_result (dec_bytes d) (\<lambda>(dir, d1).
       if dir = [] \<or> 0 \<in> set dir \<or> hd dir \<noteq> hd (ascii ''/'')
       then Inl (invalid ''invalid working directory'')
       else
         bind_result (dec_u32 d1) (\<lambda>(n, d2).
           if unat n > (length (buf d2) - offset d2) div 8
           then Inl (invalid ''invalid environment count'')
           else
             bind_result (dec_each dec_entry (unat n) d2) (\<lambda>(vars, d3).
               Inr (\<lparr>cwd = dir, environment = vars\<rparr>, d3))))"

definition dec_end :: "decoder \<Rightarrow> unit io_result" where
  "dec_end d =
     (if offset d = length (buf d) then Inr () else Inl (invalid ''trailing protocol data''))"

section \<open>Positions in a buffer\<close>

definition skip :: "decoder \<Rightarrow> nat \<Rightarrow> decoder" where
  "skip d n = d\<lparr>offset := offset d + n\<rparr>"

text \<open>\<open>upcoming d w\<close>: the bytes at the offset are \<open>w\<close>.\<close>

definition upcoming :: "decoder \<Rightarrow> bytes \<Rightarrow> bool" where
  "upcoming d w \<longleftrightarrow> offset d + length w \<le> length (buf d)
     \<and> take (length w) (drop (offset d) (buf d)) = w"

definition decoder_ok :: "decoder \<Rightarrow> bool" where
  "decoder_ok d \<longleftrightarrow> offset d \<le> length (buf d) \<and> length (buf d) \<le> usize_max"

lemma skip_simps [simp]:
  "buf (skip d n) = buf d" "offset (skip d n) = offset d + n" "skip d 0 = d"
  "skip (skip d m) n = skip d (m + n)"
  by (simp_all add: skip_def)

lemma upcoming_Nil [simp]: "upcoming d [] \<longleftrightarrow> offset d \<le> length (buf d)"
  by (simp add: upcoming_def)

lemma upcoming_append:
  "upcoming d (u @ v) \<longleftrightarrow> upcoming d u \<and> upcoming (skip d (length u)) v"
proof -
  have "take (length u + length v) (drop (offset d) (buf d))
      = take (length u) (drop (offset d) (buf d))
        @ take (length v) (drop (length u + offset d) (buf d))"
    by (simp add: take_add add.commute)
  then show ?thesis
    by (auto simp: upcoming_def add.commute append_eq_append_conv)
qed

lemma decoder_ok_skip [simp]: "decoder_ok d \<Longrightarrow> upcoming d w \<Longrightarrow> decoder_ok (skip d (length w))"
  by (simp add: decoder_ok_def upcoming_def)

lemma dec_take_iff:
  assumes "decoder_ok d"
  shows "dec_take n d = Inr (bs, d') \<longleftrightarrow> length bs = n \<and> upcoming d bs \<and> d' = skip d n"
  using assms
  by (auto simp: dec_take_def checked_add_usize_def decoder_ok_def upcoming_def skip_def
      split: if_splits)

section \<open>The contract of a field\<close>

locale field_codec =
  fixes enc :: "'a \<Rightarrow> encoder \<Rightarrow> encoder io_result"
    and dec :: "decoder \<Rightarrow> ('a \<times> decoder) io_result"
    and ok :: "'a \<Rightarrow> bool"
  assumes appends: "enc x e = Inr e' \<longleftrightarrow> (\<exists>w. enc x [] = Inr w \<and> e' = e @ w)"
    and decodes: "decoder_ok d \<Longrightarrow> ok x \<Longrightarrow> enc x [] = Inr w \<Longrightarrow> upcoming d w \<Longrightarrow>
      dec d = Inr (x, skip d (length w))"
    and canonical: "decoder_ok d \<Longrightarrow> dec d = Inr (x, d') \<Longrightarrow>
      ok x \<and> (\<exists>w. enc x [] = Inr w \<and> upcoming d w \<and> d' = skip d (length w))"
begin

lemma dec_iff:
  assumes "decoder_ok d"
  shows "dec d = Inr (x, d') \<longleftrightarrow>
    ok x \<and> (\<exists>w. enc x [] = Inr w \<and> upcoming d w \<and> d' = skip d (length w))"
  using assms canonical decodes by blast

text \<open>An encoding determines its value: no two values share one.\<close>

lemma enc_inj:
  assumes "enc x [] = Inr w" and "enc y [] = Inr w" and "ok x" and "ok y"
    and "length w \<le> usize_max"
  shows "x = y"
proof -
  let ?d = "\<lparr>buf = w, offset = 0\<rparr>"
  have "decoder_ok ?d" and "upcoming ?d w"
    using assms(5) by (simp_all add: decoder_ok_def upcoming_def)
  then have "dec ?d = Inr (x, skip ?d (length w))" and "dec ?d = Inr (y, skip ?d (length w))"
    using assms decodes by blast+
  then show ?thesis by simp
qed

text \<open>The loop over a list of fields is a field again, for a fixed number of elements.\<close>

lemma each_appends:
  "enc_each enc xs e = Inr e' \<longleftrightarrow> (\<exists>w. enc_each enc xs [] = Inr w \<and> e' = e @ w)"
proof (induction xs arbitrary: e e')
  case Nil
  then show ?case by (simp add: eq_commute)
next
  case (Cons x xs)
  have cons: "enc_each enc (x # xs) p = Inr r \<longleftrightarrow>
      (\<exists>w v. enc x [] = Inr w \<and> enc_each enc xs [] = Inr v \<and> r = p @ w @ v)" for p r
  proof -
    have "enc_each enc (x # xs) p = Inr r \<longleftrightarrow>
        (\<exists>w. enc x [] = Inr w \<and> enc_each enc xs (p @ w) = Inr r)"
      unfolding enc_each.simps bind_result_eq_Inr appends [of x p] by blast
    also have "\<dots> \<longleftrightarrow> (\<exists>w v. enc x [] = Inr w \<and> enc_each enc xs [] = Inr v \<and> r = p @ w @ v)"
      using Cons.IH [of "p @ _" r] by simp
    finally show ?thesis .
  qed
  then show ?case unfolding cons by auto
qed

lemma each_decodes:
  assumes "decoder_ok d" and "list_all ok xs" and "enc_each enc xs [] = Inr w" and "upcoming d w"
  shows "dec_each dec (length xs) d = Inr (xs, skip d (length w))"
  using assms
proof (induction xs arbitrary: d w)
  case Nil
  then show ?case by simp
next
  case (Cons x xs)
  from Cons.prems(3) obtain u where u: "enc x [] = Inr u" and "enc_each enc xs u = Inr w"
    by (auto simp: result_simps)
  then obtain v where v: "enc_each enc xs [] = Inr v" and w: "w = u @ v"
    using each_appends by blast
  have up: "upcoming d u" "upcoming (skip d (length u)) v"
    using Cons.prems(4) by (simp_all add: w upcoming_append)
  have "dec d = Inr (x, skip d (length u))"
    using Cons.prems(1,2) u up(1) by (intro decodes) simp_all
  moreover have "dec_each dec (length xs) (skip d (length u)) =
      Inr (xs, skip (skip d (length u)) (length v))"
    using Cons.prems(1,2) up v by (intro Cons.IH) simp_all
  ultimately show ?case by (simp add: w)
qed

lemma each_canonical:
  assumes "decoder_ok d" and "dec_each dec n d = Inr (xs, d')"
  shows "length xs = n \<and> list_all ok xs \<and>
    (\<exists>w. enc_each enc xs [] = Inr w \<and> upcoming d w \<and> d' = skip d (length w))"
  using assms
proof (induction n arbitrary: d d' xs)
  case 0
  then show ?case by (auto simp: decoder_ok_def)
next
  case (Suc n)
  then obtain x d1 ys where x: "dec d = Inr (x, d1)"
    and ys: "dec_each dec n d1 = Inr (ys, d')" and xs: "xs = x # ys"
    by (auto simp: result_simps)
  from canonical [OF Suc.prems(1) x] obtain u where u: "ok x" "enc x [] = Inr u" "upcoming d u"
    and d1: "d1 = skip d (length u)"
    by blast
  have "decoder_ok d1"
    using Suc.prems(1) u(3) by (simp add: d1)
  from Suc.IH [OF this ys] obtain v where v: "length ys = n" "list_all ok ys"
    "enc_each enc ys [] = Inr v" "upcoming d1 v" "d' = skip d1 (length v)"
    by blast
  have "enc_each enc ys u = Inr (u @ v)"
    using v(3) each_appends by blast
  with u v show ?case
    by (auto simp: xs d1 upcoming_append)
qed

text \<open>A payload that is one field and nothing else.\<close>

lemma whole_payload:
  assumes "length p \<le> usize_max"
  shows "bind_result (dec (dec_new p)) (\<lambda>(x, d). bind_result (dec_end d) (\<lambda>_. Inr (f x))) = Inr r
    \<longleftrightarrow> (\<exists>x. ok x \<and> enc x [] = Inr p \<and> r = f x)"
proof -
  have ok: "decoder_ok (dec_new p)"
    using assms by (simp add: decoder_ok_def dec_new_def)
  have all: "upcoming (dec_new p) w \<and> dec_end (skip (dec_new p) (length w)) = Inr u \<longleftrightarrow> w = p"
    for w u
    by (auto simp: upcoming_def dec_new_def dec_end_def skip_def)
  have "bind_result (dec (dec_new p)) (\<lambda>(x, d). bind_result (dec_end d) (\<lambda>_. Inr (f x))) = Inr r
      \<longleftrightarrow> (\<exists>x d. dec (dec_new p) = Inr (x, d) \<and> dec_end d = Inr () \<and> r = f x)"
    by (auto simp: result_simps)
  also have "\<dots> \<longleftrightarrow> (\<exists>x w. ok x \<and> enc x [] = Inr w \<and> upcoming (dec_new p) w \<and>
      dec_end (skip (dec_new p) (length w)) = Inr () \<and> r = f x)"
    unfolding dec_iff [OF ok] by auto
  also have "\<dots> \<longleftrightarrow> (\<exists>x. ok x \<and> enc x [] = Inr p \<and> r = f x)"
    by (metis all)
  finally show ?thesis .
qed

lemma each_codec:
  "field_codec (enc_each enc) (dec_each dec n) (\<lambda>xs. length xs = n \<and> list_all ok xs)"
  by unfold_locales (use each_appends each_decodes each_canonical in \<open>blast+\<close>)

end

text \<open>A field whose encoding has at least a known number of bytes.\<close>

locale sized_codec = field_codec +
  fixes least :: nat
  assumes at_least: "enc x [] = Inr w \<Longrightarrow> least \<le> length w"
begin

lemma each_at_least: "enc_each enc xs [] = Inr w \<Longrightarrow> least * length xs \<le> length w"
proof (induction xs arbitrary: w)
  case Nil
  then show ?case by simp
next
  case (Cons x xs)
  then obtain u where u: "enc x [] = Inr u" and "enc_each enc xs u = Inr w"
    by (auto simp: result_simps)
  then obtain v where "enc_each enc xs [] = Inr v" and "w = u @ v"
    using each_appends by blast
  with Cons.IH [of v] at_least [OF u] show ?case by simp
qed

end

text \<open>Two fields in a row are a field.\<close>

definition enc_pair :: "('a \<Rightarrow> encoder \<Rightarrow> encoder io_result) \<Rightarrow> ('b \<Rightarrow> encoder \<Rightarrow> encoder io_result) \<Rightarrow>
    'a \<times> 'b \<Rightarrow> encoder \<Rightarrow> encoder io_result" where
  "enc_pair f g xy e = bind_result (f (fst xy) e) (g (snd xy))"

definition dec_pair :: "(decoder \<Rightarrow> ('a \<times> decoder) io_result) \<Rightarrow> (decoder \<Rightarrow> ('b \<times> decoder) io_result) \<Rightarrow>
    decoder \<Rightarrow> (('a \<times> 'b) \<times> decoder) io_result" where
  "dec_pair f g d =
     bind_result (f d) (\<lambda>(x, d'). bind_result (g d') (\<lambda>(y, d''). Inr ((x, y), d'')))"

locale codec_pair = a: field_codec enc_a dec_a ok_a + b: field_codec enc_b dec_b ok_b
  for enc_a :: "'a \<Rightarrow> encoder \<Rightarrow> encoder io_result" and dec_a ok_a
    and enc_b :: "'b \<Rightarrow> encoder \<Rightarrow> encoder io_result" and dec_b ok_b
begin

lemma pair_enc_iff:
  "enc_pair enc_a enc_b (x, y) e = Inr e' \<longleftrightarrow>
    (\<exists>u v. enc_a x [] = Inr u \<and> enc_b y [] = Inr v \<and> e' = e @ u @ v)"
  unfolding enc_pair_def bind_result_eq_Inr fst_conv snd_conv a.appends [of x e] b.appends [of y _ e']
  by auto

lemma pair_dec_iff:
  assumes "decoder_ok d"
  shows "dec_pair dec_a dec_b d = Inr ((x, y), d') \<longleftrightarrow> ok_a x \<and> ok_b y \<and>
    (\<exists>u v. enc_a x [] = Inr u \<and> enc_b y [] = Inr v \<and> upcoming d (u @ v) \<and>
      d' = skip d (length (u @ v)))"
proof -
  have "dec_pair dec_a dec_b d = Inr ((x, y), d') \<longleftrightarrow>
      (\<exists>d1. dec_a d = Inr (x, d1) \<and> dec_b d1 = Inr (y, d'))"
    by (auto simp: dec_pair_def result_simps)
  also have "\<dots> \<longleftrightarrow> ok_a x \<and> (\<exists>u. enc_a x [] = Inr u \<and> upcoming d u \<and>
      dec_b (skip d (length u)) = Inr (y, d'))"
    unfolding a.dec_iff [OF assms] by blast
  also have "\<dots> \<longleftrightarrow> ok_a x \<and> ok_b y \<and>
      (\<exists>u v. enc_a x [] = Inr u \<and> enc_b y [] = Inr v \<and> upcoming d (u @ v) \<and>
        d' = skip d (length (u @ v)))"
    using b.dec_iff [OF decoder_ok_skip [OF assms]] by (auto simp: upcoming_append)
  finally show ?thesis .
qed

lemma pair_codec: "field_codec (enc_pair enc_a enc_b) (dec_pair dec_a dec_b) (\<lambda>(x, y). ok_a x \<and> ok_b y)"
proof (unfold_locales, goal_cases)
  case (1 xy e e')
  then show ?case by (cases xy) (auto simp: pair_enc_iff)
next
  case (2 d xy w)
  then show ?case by (cases xy) (auto simp: pair_enc_iff pair_dec_iff)
next
  case (3 d xy d')
  then show ?case by (cases xy) (auto simp: pair_enc_iff pair_dec_iff)
qed

end

text \<open>The fields of the protocol.\<close>

lemma u8_appends: "Inr (enc_u8 v e) = Inr e' \<longleftrightarrow> e' = e @ [v]"
  by (auto simp: enc_u8_def)

lemma dec_u8_iff:
  assumes "decoder_ok d"
  shows "dec_u8 d = Inr (v, d') \<longleftrightarrow> upcoming d [v] \<and> d' = skip d 1"
  using assms
  by (auto simp: dec_u8_def result_simps dec_take_iff length_Suc_conv)

interpretation u8: field_codec "\<lambda>v e. Inr (enc_u8 v e)" dec_u8 "\<lambda>_. True"
  by unfold_locales (auto simp: enc_u8_def dec_u8_iff)

text \<open>Fixed-width integers share one argument.\<close>

lemma be_field_iff:
  fixes d :: decoder
  assumes "decoder_ok d" and n: "(256::nat) ^ n = 2 ^ LENGTH('l::len)"
  shows "bind_result (dec_take n d) (\<lambda>(bs, d'). Inr ((of_nat (be_value bs) :: 'l word), d')) = Inr (v, d')
    \<longleftrightarrow> upcoming d (be_bytes n (unat v)) \<and> d' = skip d n"
proof -
  have eq: "bs = be_bytes n (unat v)" if "length bs = n" and "v = of_nat (be_value bs)"
    for bs and v :: "'l word"
  proof -
    have "be_value bs < 2 ^ LENGTH('l)"
      using be_value_less [of bs] that(1) n by simp
    with that be_bytes_be_value [of bs] show ?thesis
      by (simp add: unat_of_nat)
  qed
  have v: "of_nat (be_value (be_bytes n (unat v))) = v" for v :: "'l word"
    using n unsigned_less [of v] by simp
  have "bind_result (dec_take n d) (\<lambda>(bs, d'). Inr ((of_nat (be_value bs) :: 'l word), d')) = Inr (v, d')
      \<longleftrightarrow> (\<exists>bs. length bs = n \<and> upcoming d bs \<and> d' = skip d n \<and> v = of_nat (be_value bs))"
    using assms(1) by (auto simp: result_simps dec_take_iff)
  also have "\<dots> \<longleftrightarrow> upcoming d (be_bytes n (unat v)) \<and> d' = skip d n"
    using eq [of _ v] v [of v] length_be_bytes [of n "unat v"] by metis
  finally show ?thesis .
qed

lemma dec_u16_iff: "decoder_ok d \<Longrightarrow>
    dec_u16 d = Inr (v, d') \<longleftrightarrow> upcoming d (be_bytes 2 (unat v)) \<and> d' = skip d 2"
  unfolding dec_u16_def by (rule be_field_iff) simp_all

lemma dec_u32_iff: "decoder_ok d \<Longrightarrow>
    dec_u32 d = Inr (v, d') \<longleftrightarrow> upcoming d (be_bytes 4 (unat v)) \<and> d' = skip d 4"
  unfolding dec_u32_def by (rule be_field_iff) simp_all

lemma dec_u64_iff: "decoder_ok d \<Longrightarrow>
    dec_u64 d = Inr (v, d') \<longleftrightarrow> upcoming d (be_bytes 8 (unat v)) \<and> d' = skip d 8"
  unfolding dec_u64_def by (rule be_field_iff) simp_all

interpretation u16: field_codec "\<lambda>v e. Inr (enc_u16 v e)" dec_u16 "\<lambda>_. True"
  by unfold_locales (auto simp: enc_u16_def dec_u16_iff)

interpretation u32: field_codec "\<lambda>v e. Inr (enc_u32 v e)" dec_u32 "\<lambda>_. True"
  by unfold_locales (auto simp: enc_u32_def dec_u32_iff)

interpretation u64: field_codec "\<lambda>v e. Inr (enc_u64 v e)" dec_u64 "\<lambda>_. True"
  by unfold_locales (auto simp: enc_u64_def dec_u64_iff)

text \<open>Length-prefixed byte strings, strings and accounts.\<close>

lemma enc_bytes_iff:
  "enc_bytes v e = Inr e' \<longleftrightarrow>
    length v < 2 ^ 32 \<and> e' = e @ be_bytes 4 (length v) @ v"
  by (auto simp: enc_bytes_def u32_try_from_def enc_u32_def unat_of_nat)

lemma enc_u32_simp: "n < 2 ^ 32 \<Longrightarrow> be_bytes 4 (unat (of_nat n :: u32)) = be_bytes 4 n"
  by (simp add: unat_of_nat)

lemma dec_bytes_iff:
  assumes "decoder_ok d"
  shows "dec_bytes d = Inr (v, d') \<longleftrightarrow>
    length v < 2 ^ 32 \<and> upcoming d (be_bytes 4 (length v) @ v) \<and> d' = skip d (4 + length v)"
proof -
  have "dec_bytes d = Inr (v, d') \<longleftrightarrow> (\<exists>n :: u32. upcoming d (be_bytes 4 (unat n)) \<and>
      length v = unat n \<and> upcoming (skip d 4) v \<and> d' = skip (skip d 4) (unat n))"
    using assms decoder_ok_skip [OF assms, of "be_bytes 4 _"]
    by (auto simp: dec_bytes_def result_simps dec_u32_iff dec_take_iff)
  also have "\<dots> \<longleftrightarrow>
      length v < 2 ^ 32 \<and> upcoming d (be_bytes 4 (length v) @ v) \<and> d' = skip d (4 + length v)"
  proof safe
    fix n :: u32
    assume "upcoming d (be_bytes 4 (unat n))" "length v = unat n" "upcoming (skip d 4) v"
    then show "length v < 2 ^ 32" "upcoming d (be_bytes 4 (length v) @ v)"
      using unat_u32_less [of n] by (simp_all add: upcoming_append)
  next
    assume "length v < 2 ^ 32" "upcoming d (be_bytes 4 (length v) @ v)"
    then show "\<exists>n :: u32. upcoming d (be_bytes 4 (unat n)) \<and> length v = unat n \<and>
        upcoming (skip d 4) v \<and> skip d (4 + length v) = skip (skip d 4) (unat n)"
      by (intro exI [of _ "of_nat (length v)"]) (simp add: upcoming_append unat_of_nat)
  qed simp
  finally show ?thesis .
qed

interpretation bytes: sized_codec enc_bytes dec_bytes "\<lambda>_. True" 4
  by unfold_locales (auto simp: enc_bytes_iff dec_bytes_iff)

lemma dec_string_iff:
  "dec_string d = Inr (v, d') \<longleftrightarrow> utf8_valid v \<and> dec_bytes d = Inr (v, d')"
  by (auto simp: dec_string_def result_simps string_from_utf8_def split: option.splits if_splits)

interpretation str: sized_codec enc_string dec_string utf8_valid 4
  by unfold_locales (auto simp: enc_string_def dec_string_iff enc_bytes_iff dec_bytes_iff)

lemma enc_account_iff:
  "enc_account a e = Inr e' \<longleftrightarrow>
    (case explicit a of
       None \<Rightarrow> e' = e @ [0]
     | Some s \<Rightarrow> length s < 2 ^ 32 \<and> e' = e @ [1] @ be_bytes 4 (length s) @ s)"
  by (auto simp: enc_account_def enc_string_def enc_bytes_iff enc_u8_def split: option.splits)

lemma dec_account_iff:
  assumes "decoder_ok d"
  shows "dec_account d = Inr (a, d') \<longleftrightarrow> account_ok a \<and>
    (case explicit a of
       None \<Rightarrow> upcoming d [0] \<and> d' = skip d 1
     | Some s \<Rightarrow> length s < 2 ^ 32 \<and> upcoming d ([1] @ be_bytes 4 (length s) @ s) \<and>
         d' = skip d (5 + length s))"
proof -
  have ok1: "decoder_ok (skip d (Suc 0))" if "upcoming d [b]" for b
    using decoder_ok_skip [OF assms that] by simp
  have once: "\<not> (upcoming d [0] \<and> upcoming d [1])" and cons: "upcoming d (1 # be_bytes 4 n @ w) \<longleftrightarrow>
      upcoming d [1] \<and> upcoming (skip d (Suc 0)) (be_bytes 4 n @ w)" for n w
    using upcoming_append [of d "[1]" "be_bytes 4 n @ w"] by (auto simp: upcoming_def)
  show ?thesis
  proof (cases "explicit a")
    case None
    then have "a = Account None" by (cases a) simp
    then show ?thesis
      using assms once
      by (auto simp: dec_account_def result_simps dec_u8_iff account_ok_def split: if_splits
          intro: exI [of _ "0 :: u8"])
  next
    case (Some s)
    then have "a = Account (Some s)" by (cases a) simp
    then show ?thesis
      using assms once
      by (auto simp: dec_account_def result_simps dec_u8_iff dec_string_iff dec_bytes_iff ok1
          account_ok_def cons split: if_splits)
  qed
qed

interpretation account: field_codec enc_account dec_account account_ok
  by unfold_locales
    (auto simp: enc_account_iff dec_account_iff split: option.splits)

text \<open>Environment entries and the client context.\<close>

definition entry_ok :: "bytes \<times> bytes \<Rightarrow> bool" where
  "entry_ok kv \<longleftrightarrow> fst kv \<noteq> [] \<and> 0 \<notin> set (fst kv) \<and> hd (ascii ''='') \<notin> set (fst kv)
     \<and> 0 \<notin> set (snd kv)"

definition context_ok :: "client_context \<Rightarrow> bool" where
  "context_ok c \<longleftrightarrow> is_absolute (cwd c) \<and> 0 \<notin> set (cwd c) \<and> list_all entry_ok (environment c)"

lemma enc_entry_iff:
  "enc_entry kv e = Inr e' \<longleftrightarrow> length (fst kv) < 2 ^ 32 \<and> length (snd kv) < 2 ^ 32 \<and>
    e' = e @ (be_bytes 4 (length (fst kv)) @ fst kv) @ be_bytes 4 (length (snd kv)) @ snd kv"
  by (auto simp: enc_entry_def result_simps enc_bytes_iff)

lemma dec_entry_iff:
  assumes "decoder_ok d"
  shows "dec_entry d = Inr (kv, d') \<longleftrightarrow> entry_ok kv \<and>
    (\<exists>w. enc_entry kv [] = Inr w \<and> upcoming d w \<and> d' = skip d (length w))"
proof -
  have ok: "decoder_ok (skip d (4 + length k))" if "upcoming d (be_bytes 4 (length k) @ k)" for k
    using decoder_ok_skip [OF assms that] by simp
  obtain k v where kv: "kv = (k, v)" by fastforce
  have "dec_entry d = Inr (kv, d') \<longleftrightarrow> entry_ok kv \<and>
      (\<exists>d1. dec_bytes d = Inr (k, d1) \<and> dec_bytes d1 = Inr (v, d'))"
    by (auto simp: dec_entry_def result_simps entry_ok_def kv split: if_splits)
  also have "\<dots> \<longleftrightarrow> entry_ok kv \<and> length k < 2 ^ 32 \<and> upcoming d (be_bytes 4 (length k) @ k) \<and>
      dec_bytes (skip d (4 + length k)) = Inr (v, d')"
    by (auto simp: dec_bytes_iff [OF assms])
  also have "\<dots> \<longleftrightarrow> entry_ok kv \<and>
      (\<exists>w. enc_entry kv [] = Inr w \<and> upcoming d w \<and> d' = skip d (length w))"
    using upcoming_append [of d "be_bytes 4 (length k) @ k"]
    by (auto simp: dec_bytes_iff [OF ok] enc_entry_iff kv add.assoc)
  finally show ?thesis .
qed

interpretation entry: sized_codec enc_entry dec_entry entry_ok 8
  by unfold_locales (auto simp: enc_entry_iff dec_entry_iff)

interpretation entries: field_codec "enc_each enc_entry" "dec_each dec_entry n"
  "\<lambda>xs. length xs = n \<and> list_all entry_ok xs" for n
  by (rule entry.each_codec)

lemma absolute_iff: "is_absolute dir \<longleftrightarrow> dir \<noteq> [] \<and> hd dir = hd (ascii ''/'')"
  by (cases dir) (auto simp: is_absolute_def literals)

lemma enc_context_iff:
  "enc_context c e = Inr e' \<longleftrightarrow> length (cwd c) < 2 ^ 32 \<and> length (environment c) < 2 ^ 32 \<and>
    (\<exists>w. enc_each enc_entry (environment c) [] = Inr w \<and>
      e' = e @ (be_bytes 4 (length (cwd c)) @ cwd c) @ be_bytes 4 (length (environment c)) @ w)"
proof -
  have "enc_context c e = Inr e' \<longleftrightarrow> length (cwd c) < 2 ^ 32 \<and> length (environment c) < 2 ^ 32 \<and>
      enc_each enc_entry (environment c)
        (e @ (be_bytes 4 (length (cwd c)) @ cwd c) @ be_bytes 4 (length (environment c))) = Inr e'"
    by (auto simp: enc_context_def result_simps enc_bytes_iff u32_try_from_def enc_u32_def
        enc_u32_simp)
  also have "\<dots> \<longleftrightarrow> length (cwd c) < 2 ^ 32 \<and> length (environment c) < 2 ^ 32 \<and>
      (\<exists>w. enc_each enc_entry (environment c) [] = Inr w \<and>
        e' = e @ (be_bytes 4 (length (cwd c)) @ cwd c) @ be_bytes 4 (length (environment c)) @ w)"
    using entries.appends [of "environment c" "_ @ _" e'] by auto
  finally show ?thesis .
qed

lemma dec_context_steps:
  "dec_context d = Inr (c, d') \<longleftrightarrow>
    (\<exists>d1 d2 n. dec_bytes d = Inr (cwd c, d1) \<and> is_absolute (cwd c) \<and> 0 \<notin> set (cwd c) \<and>
      dec_u32 d1 = Inr (n, d2) \<and> unat n \<le> (length (buf d2) - offset d2) div 8 \<and>
      dec_each dec_entry (unat n) d2 = Inr (environment c, d'))"
  by (cases c) (auto simp: dec_context_def result_simps absolute_iff split: if_splits; force)

lemma upcoming_remaining: "upcoming d w \<Longrightarrow> length w \<le> length (buf d) - offset d"
  unfolding upcoming_def by linarith

lemma dec_context_decodes:
  assumes d: "decoder_ok d" and c: "context_ok c" and w: "enc_context c [] = Inr w"
    and up: "upcoming d w"
  shows "dec_context d = Inr (c, skip d (length w))"
proof -
  let ?a = "be_bytes 4 (length (cwd c)) @ cwd c" and ?n = "length (environment c)"
  from w obtain v where v: "enc_each enc_entry (environment c) [] = Inr v"
    and w_eq: "w = ?a @ be_bytes 4 ?n @ v" and len: "length (cwd c) < 2 ^ 32" "?n < 2 ^ 32"
    by (auto simp: enc_context_iff)
  define d1 where "d1 = skip d (length ?a)"
  define d2 where "d2 = skip d1 4"
  have ups: "upcoming d ?a" "upcoming d1 (be_bytes 4 ?n)" "upcoming d2 v"
    using up by (simp_all only: w_eq upcoming_append d1_def d2_def length_be_bytes)
  have d1: "decoder_ok d1" using decoder_ok_skip [OF d ups(1)] by (simp add: d1_def)
  have d2: "decoder_ok d2" using decoder_ok_skip [OF d1 ups(2)] by (simp add: d2_def)
  have "dec_bytes d = Inr (cwd c, d1)"
    using ups(1) len by (simp add: dec_bytes_iff [OF d] d1_def)
  moreover have "dec_u32 d1 = Inr (of_nat ?n, d2)"
    using ups(2) len by (simp add: dec_u32_iff [OF d1] d2_def enc_u32_simp)
  moreover have "?n \<le> (length (buf d2) - offset d2) div 8"
    using entry.each_at_least [OF v] upcoming_remaining [OF ups(3)] by linarith
  moreover have "dec_each dec_entry ?n d2 = Inr (environment c, skip d2 (length v))"
    using entries.decodes [OF d2 _ v ups(3)] c by (simp add: context_ok_def)
  ultimately show ?thesis
    using c len
    by (auto simp: dec_context_steps context_ok_def unat_of_nat w_eq d1_def d2_def add.assoc
        intro!: exI [of _ "of_nat ?n :: u32"])
qed

lemma dec_context_canonical:
  assumes d: "decoder_ok d" and dec: "dec_context d = Inr (c, d')"
  shows "context_ok c \<and> (\<exists>w. enc_context c [] = Inr w \<and> upcoming d w \<and> d' = skip d (length w))"
proof -
  from dec obtain d1 d2 n where b: "dec_bytes d = Inr (cwd c, d1)" "is_absolute (cwd c)"
    "0 \<notin> set (cwd c)" and n: "dec_u32 d1 = Inr (n, d2)"
    and e: "dec_each dec_entry (unat n) d2 = Inr (environment c, d')"
    unfolding dec_context_steps by blast
  let ?a = "be_bytes 4 (length (cwd c)) @ cwd c"
  from b(1) have a: "length (cwd c) < 2 ^ 32" "upcoming d ?a" "d1 = skip d (length ?a)"
    by (simp_all add: dec_bytes_iff [OF d])
  have d1: "decoder_ok d1" using decoder_ok_skip [OF d a(2)] a(3) by simp
  from n have u: "upcoming d1 (be_bytes 4 (unat n))" "d2 = skip d1 4"
    by (simp_all add: dec_u32_iff [OF d1])
  have d2: "decoder_ok d2" using decoder_ok_skip [OF d1 u(1)] u(2) by simp
  from entries.canonical [OF d2 e] obtain v where v: "length (environment c) = unat n"
    "list_all entry_ok (environment c)" "enc_each enc_entry (environment c) [] = Inr v"
    "upcoming d2 v" "d' = skip d2 (length v)"
    by blast
  have "upcoming d (?a @ be_bytes 4 (unat n) @ v)"
    using a(2) u(1) v(4) by (simp only: upcoming_append a(3) u(2) length_be_bytes)
  then show ?thesis
    using a b v unat_u32_less [of n]
    by (simp add: enc_context_iff context_ok_def u(2) add.assoc)
qed

lemma enc_context_appends:
  "enc_context c e = Inr e' \<longleftrightarrow> (\<exists>w. enc_context c [] = Inr w \<and> e' = e @ w)"
  unfolding enc_context_iff by auto

interpretation context_field: field_codec enc_context dec_context context_ok
  by unfold_locales
    (rule enc_context_appends, (rule dec_context_decodes; assumption),
      (rule dec_context_canonical; assumption))

end
