(* ===== verification/Frames.thy ===== *)
theory Frames
  imports Codec
begin

text \<open>
  The transport part of \<^verbatim>\<open>src/protocol.rs\<close>: the preamble exchange and the frames of a Unix stream
  socket, with descriptors passed as \<^verbatim>\<open>SCM_RIGHTS\<close>. A stream end is the bytes that will still
  arrive before end of file and the bytes written so far; a control message travels attached to
  the first byte of the send that carried it, and a plain read drops it. How many bytes one
  \<^verbatim>\<open>sendmsg\<close> accepts and one \<^verbatim>\<open>recvmsg\<close> delivers, and whether a call fails, is up to the kernel:
  the parameter \<open>socket\<close>.
\<close>

section \<open>Streams\<close>

datatype control_message = ScmRights "fd list" | OtherControl

type_synonym cell = "byte \<times> control_message list"

record stream =
  incoming :: "cell list"
  outgoing :: "cell list"

record socket =
  so_sendmsg :: "cell list \<Rightarrow> bytes \<Rightarrow> errno + nat"
  so_write :: "cell list \<Rightarrow> bytes \<Rightarrow> errno option"
  so_recvmsg :: "cell list \<Rightarrow> errno + nat"
  so_set_cloexec :: "fd \<Rightarrow> errno option"

definition plain :: "bytes \<Rightarrow> cell list" where
  "plain bs = map (\<lambda>b. (b, [])) bs"

fun attach :: "control_message list \<Rightarrow> bytes \<Rightarrow> cell list" where
  "attach ctrl [] = []"
| "attach ctrl (b # bs) = (b, ctrl) # plain bs"

text \<open>\<^verbatim>\<open>Write::write_all\<close> and \<^verbatim>\<open>Read::read_exact\<close> of the standard library.\<close>

definition write_all :: "socket \<Rightarrow> bytes \<Rightarrow> stream \<Rightarrow> stream io_result" where
  "write_all so bs st =
     (if bs = [] then Inr st
      else (case so_write so (outgoing st) bs of
              Some e \<Rightarrow> Inl (RawOs e)
            | None \<Rightarrow> Inr (st\<lparr>outgoing := outgoing st @ plain bs\<rparr>)))"

definition read_exact :: "nat \<Rightarrow> stream \<Rightarrow> (bytes \<times> stream) io_result" where
  "read_exact n st =
     (if length (incoming st) < n
      then Inl (Simple UnexpectedEof ''failed to fill whole buffer'')
      else Inr (map fst (take n (incoming st)), st\<lparr>incoming := drop n (incoming st)\<rparr>))"

definition sendmsg :: "socket \<Rightarrow> bytes \<Rightarrow> control_message list \<Rightarrow> stream \<Rightarrow> (nat \<times> stream) io_result" where
  "sendmsg so bs ctrl st =
     (case so_sendmsg so (outgoing st) bs of
        Inl e \<Rightarrow> Inl (RawOs e)
      | Inr n \<Rightarrow> Inr (n, st\<lparr>outgoing := outgoing st @ attach ctrl (take n bs)\<rparr>))"

text \<open>
  One \<^verbatim>\<open>recvmsg\<close> with room for \<open>CONTROL_ROOM\<close> descriptors: the bytes, the control messages
  attached to them, and \<^verbatim>\<open>MSG_CTRUNC\<close> when they did not fit.
\<close>

definition CONTROL_ROOM :: nat where
  "CONTROL_ROOM = 8"

fun rights :: "control_message list \<Rightarrow> fd list" where
  "rights [] = []"
| "rights (ScmRights fds # ms) = fds @ rights ms"
| "rights (OtherControl # ms) = rights ms"

record received =
  rc_bytes :: bytes
  rc_control :: "control_message list"
  rc_truncated :: bool

definition recvmsg :: "socket \<Rightarrow> stream \<Rightarrow> (received \<times> stream) io_result" where
  "recvmsg so st =
     (case so_recvmsg so (incoming st) of
        Inl e \<Rightarrow> Inl (RawOs e)
      | Inr n \<Rightarrow>
          (let cells = take n (incoming st); ctrl = concat (map snd cells)
           in Inr (\<lparr>rc_bytes = map fst cells, rc_control = ctrl,
                    rc_truncated = length (rights ctrl) > CONTROL_ROOM\<rparr>,
                   st\<lparr>incoming := drop n (incoming st)\<rparr>)))"

text \<open>
  What the kernel documents of the two calls: a successful \<^verbatim>\<open>sendmsg\<close> of a header takes at least
  one and at most all of its bytes; \<^verbatim>\<open>recvmsg\<close> into an 8-byte buffer delivers between one and eight
  of the available bytes, and none only at end of file. \<open>socket_works\<close> adds that no call fails.
\<close>

definition socket_documented :: "socket \<Rightarrow> bool" where
  "socket_documented so \<longleftrightarrow>
     (\<forall>cs bs n. so_sendmsg so cs bs = Inr n \<longrightarrow> n \<le> length bs \<and> (bs \<noteq> [] \<longrightarrow> 0 < n)) \<and>
     (\<forall>cs n. so_recvmsg so cs = Inr n \<longrightarrow> n \<le> length cs \<and> n \<le> 8 \<and> (cs \<noteq> [] \<longrightarrow> 0 < n))"

definition socket_works :: "socket \<Rightarrow> bool" where
  "socket_works so \<longleftrightarrow> socket_documented so \<and>
     (\<forall>cs bs. is_ok (so_sendmsg so cs bs)) \<and> (\<forall>cs bs. so_write so cs bs = None) \<and>
     (\<forall>cs. is_ok (so_recvmsg so cs)) \<and> (\<forall>d. so_set_cloexec so d = None)"

section \<open>Frames\<close>

definition send_frame ::
  "socket \<Rightarrow> stream \<Rightarrow> u8 \<Rightarrow> bytes \<Rightarrow> fd list \<Rightarrow> stream io_result" where
  "send_frame so st kind payload descriptors =
     (if length payload > MAX_PAYLOAD
      then Inl (invalid ''protocol payload is too large'')
      else
        (case u32_try_from (length payload) of
           None \<Rightarrow> Inl (invalid ''protocol payload is too large'')
         | Some n \<Rightarrow>
             (let header = [kind, 0, 0, 0] @ be_bytes 4 (unat n);
                  ctrl = (if descriptors = [] then [] else [ScmRights descriptors])
              in bind_result (sendmsg so header ctrl st) (\<lambda>(sent, st1).
                   bind_result (if sent < length header then write_all so (drop sent header) st1
                                else Inr st1)
                     (write_all so payload)))))"

text \<open>The descriptors of the control messages, each marked close-on-exec.\<close>

fun take_rights :: "socket \<Rightarrow> fd list \<Rightarrow> fd list \<Rightarrow> fd list io_result" where
  "take_rights so [] acc = Inr acc"
| "take_rights so (descriptor # ds) acc =
     (case so_set_cloexec so descriptor of
        Some e \<Rightarrow> Inl (RawOs e)
      | None \<Rightarrow> take_rights so ds (acc @ [descriptor]))"

fun take_control :: "socket \<Rightarrow> control_message list \<Rightarrow> fd list \<Rightarrow> fd list io_result" where
  "take_control so [] acc = Inr acc"
| "take_control so (ScmRights fds # ms) acc =
     bind_result (take_rights so fds acc) (take_control so ms)"
| "take_control so (OtherControl # ms) acc = Inl (invalid ''unexpected control message'')"

definition receive_frame :: "socket \<Rightarrow> stream \<Rightarrow> ((u8 \<times> bytes \<times> fd list) \<times> stream) io_result" where
  "receive_frame so st =
     bind_result (recvmsg so st) (\<lambda>(message, st1).
       if rc_bytes message = [] then Inl (Simple UnexpectedEof ''broker disconnected'')
       else if rc_truncated message then Inl (invalid ''truncated descriptor message'')
       else
         bind_result (take_control so (rc_control message) []) (\<lambda>descriptors.
         bind_result
           (if length (rc_bytes message) < 8 then read_exact (8 - length (rc_bytes message)) st1
            else Inr ([], st1)) (\<lambda>(rest, st2).
           let header = rc_bytes message @ rest in
           if take 3 (drop 1 header) \<noteq> [0, 0, 0]
           then Inl (invalid ''nonzero protocol header flags'')
           else
             (let len = unat (of_nat (be_value (drop 4 header)) :: u32) in
              if len > MAX_PAYLOAD then Inl (invalid ''protocol payload is too large'')
              else
                bind_result (read_exact len st2) (\<lambda>(payload, st3).
                  Inr ((header ! 0, payload, descriptors), st3))))))"

definition require_no_descriptors :: "fd list \<Rightarrow> unit io_result" where
  "require_no_descriptors descriptors =
     (if descriptors = [] then Inr () else Inl (invalid ''unexpected descriptors''))"

text \<open>The bytes of a frame, and the cells it leaves on the stream.\<close>

definition frame_header :: "u8 \<Rightarrow> bytes \<Rightarrow> bytes" where
  "frame_header kind payload = [kind, 0, 0, 0] @ be_bytes 4 (length payload)"

definition frame_cells :: "u8 \<Rightarrow> bytes \<Rightarrow> fd list \<Rightarrow> cell list" where
  "frame_cells kind payload descriptors =
     attach (if descriptors = [] then [] else [ScmRights descriptors]) (frame_header kind payload)
     @ plain payload"

section \<open>Facts about streams\<close>

lemma plain_simps [simp]:
  "length (plain bs) = length bs" "map fst (plain bs) = bs" "plain [] = []"
  "plain (xs @ ys) = plain xs @ plain ys" "take n (plain bs) = plain (take n bs)"
  "drop n (plain bs) = plain (drop n bs)" "concat (map snd (plain bs)) = []"
  by (simp_all add: plain_def comp_def take_map drop_map concat_eq_Nil_conv)

lemma attach_simps [simp]:
  "length (attach ctrl bs) = length bs" "map fst (attach ctrl bs) = bs"
  "drop (Suc n) (attach ctrl bs) = plain (drop (Suc n) bs)"
  by (cases bs; simp; simp add: plain_def comp_def drop_map)+

lemma take_attach: "take n (attach ctrl bs) = attach ctrl (take n bs)"
  by (cases bs; cases n) simp_all

lemma drop_attach: "0 < n \<Longrightarrow> drop n (attach ctrl bs) = plain (drop n bs)"
  by (cases n) simp_all

lemma control_attach: "concat (map snd (attach ctrl bs)) = (if bs = [] then [] else ctrl)"
  by (cases bs) simp_all

lemma attach_split:
  assumes "0 < n"
  shows "attach ctrl (take n bs) @ plain (drop n bs) = attach ctrl bs"
  using append_take_drop_id [of n "attach ctrl bs"] assms
  by (simp add: take_attach drop_attach)

lemma write_all_plain:
  "write_all so bs st = Inr st' \<Longrightarrow> st' = st\<lparr>outgoing := outgoing st @ plain bs\<rparr>"
  by (auto simp: write_all_def split: if_splits option.splits)

lemma take_rights_Inr: "take_rights so ds acc = Inr fds \<Longrightarrow> fds = acc @ ds"
  by (induction ds arbitrary: acc) (fastforce split: option.splits)+

lemma take_rights_works:
  "(\<And>d. so_set_cloexec so d = None) \<Longrightarrow> take_rights so ds acc = Inr (acc @ ds)"
  by (induction ds arbitrary: acc) auto

lemma length_frame_header [simp]: "length (frame_header kind payload) = 8"
  by (simp add: frame_header_def)

lemma socket_sends:
  assumes "socket_documented so" and "sendmsg so bs ctrl st = Inr (n, st')" and "bs \<noteq> []"
  shows "0 < n \<and> n \<le> length bs \<and> st' = st\<lparr>outgoing := outgoing st @ attach ctrl (take n bs)\<rparr>"
  using assms by (auto simp: socket_documented_def sendmsg_def split: sum.splits)

lemma send_frame_sends:
  assumes so: "socket_documented so" and sent: "send_frame so st kind payload fds = Inr st'"
  shows "length payload \<le> MAX_PAYLOAD \<and>
    st' = st\<lparr>outgoing := outgoing st @ frame_cells kind payload fds\<rparr>"
proof -
  let ?ctrl = "if fds = [] then [] else [ScmRights fds]"
  let ?h = "frame_header kind payload"
  have small: "length payload \<le> MAX_PAYLOAD"
    using sent by (auto simp: send_frame_def split: if_splits)
  then have len: "u32_try_from (length payload) = Some (of_nat (length payload))"
    and head: "[kind, 0, 0, 0] @ be_bytes 4 (unat (of_nat (length payload) :: u32)) = ?h"
    by (simp_all add: u32_try_from_def MAX_PAYLOAD_def frame_header_def enc_u32_simp)
  from sent small obtain n st1 st2 where m: "sendmsg so ?h ?ctrl st = Inr (n, st1)"
    and w: "(if n < length ?h then write_all so (drop n ?h) st1 else Inr st1) = Inr st2"
    and p: "write_all so payload st2 = Inr st'"
    unfolding send_frame_def len option.case Let_def head
    by (auto simp: result_simps)
  have "?h \<noteq> []" by (simp add: frame_header_def)
  from socket_sends [OF so m this] have n: "0 < n" "n \<le> length ?h"
    and st1: "st1 = st\<lparr>outgoing := outgoing st @ attach ?ctrl (take n ?h)\<rparr>"
    by simp_all
  have "st2 = st1\<lparr>outgoing := outgoing st1 @ plain (drop n ?h)\<rparr>"
    using w n(2) by (cases "n < length ?h") (auto dest: write_all_plain)
  moreover have "st' = st2\<lparr>outgoing := outgoing st2 @ plain payload\<rparr>"
    using p by (rule write_all_plain)
  ultimately show ?thesis
    using small attach_split [OF n(1), of ?ctrl ?h]
    by (simp add: st1 frame_cells_def)
qed

lemma header_fields:
  assumes "length payload \<le> MAX_PAYLOAD"
  shows "take 3 (drop 1 (frame_header kind payload)) = [0, 0, 0]"
    and "unat (of_nat (be_value (drop 4 (frame_header kind payload))) :: u32) = length payload"
    and "frame_header kind payload ! 0 = kind"
proof -
  have "length payload < 4294967296"
    using assms by (simp add: MAX_PAYLOAD_def)
  then show "unat (of_nat (be_value (drop 4 (frame_header kind payload))) :: u32) = length payload"
    by (simp add: frame_header_def unat_of_nat)
qed (simp_all add: frame_header_def)

lemma receive_frame_receives:
  assumes so: "socket_works so" and inc: "incoming st = frame_cells kind payload fds @ rest"
    and small: "length payload \<le> MAX_PAYLOAD" and fds: "length fds \<le> CONTROL_ROOM"
  shows "receive_frame so st = Inr ((kind, payload, fds), st\<lparr>incoming := rest\<rparr>)"
proof -
  let ?ctrl = "if fds = [] then [] else [ScmRights fds]"
  let ?h = "frame_header kind payload"
  obtain n where n: "so_recvmsg so (incoming st) = Inr n" "0 < n" "n \<le> 8"
  proof -
    have "is_ok (so_recvmsg so (incoming st))" and ne: "incoming st \<noteq> []"
      using so by (simp_all add: socket_works_def inc frame_cells_def frame_header_def)
    then obtain n where "so_recvmsg so (incoming st) = Inr n"
      by (cases "so_recvmsg so (incoming st)") auto
    with so ne show ?thesis
      using that [of n] unfolding socket_works_def socket_documented_def by blast
  qed
  have cells: "take n (incoming st) = attach ?ctrl (take n ?h)"
    and left: "drop n (incoming st) = plain (drop n ?h) @ plain payload @ rest"
    using n(2,3) by (simp_all add: inc frame_cells_def take_attach drop_attach)
  have ne: "take n ?h \<noteq> []"
    using n(2) by (simp add: frame_header_def)
  have ctrl: "concat (map snd (take n (incoming st))) = ?ctrl" and bs: "map fst (take n (incoming st)) = take n ?h"
    using ne by (simp_all add: cells control_attach)
  have rcv: "recvmsg so st = Inr (\<lparr>rc_bytes = take n ?h, rc_control = ?ctrl, rc_truncated = False\<rparr>,
      st\<lparr>incoming := drop n (incoming st)\<rparr>)"
    using fds by (simp only: recvmsg_def n(1) sum.case Let_def ctrl bs) (simp add: CONTROL_ROOM_def)
  have taken: "take_control so ?ctrl [] = Inr fds"
    using so take_rights_works [of so fds "[]"] by (simp add: socket_works_def)
  have rest: "(if length (take n ?h) < 8
      then read_exact (8 - length (take n ?h)) (st\<lparr>incoming := drop n (incoming st)\<rparr>)
      else Inr ([], st\<lparr>incoming := drop n (incoming st)\<rparr>))
    = Inr (drop n ?h, st\<lparr>incoming := plain payload @ rest\<rparr>)"
    using n(2,3) left by (auto simp: read_exact_def)
  have payload: "read_exact (length payload) (st\<lparr>incoming := plain payload @ rest\<rparr>)
      = Inr (payload, st\<lparr>incoming := rest\<rparr>)"
    by (simp add: read_exact_def)
  show ?thesis
    unfolding receive_frame_def rcv bind_result.simps prod.case received.simps taken rest
      append_take_drop_id Let_def header_fields [OF small] payload
    using ne small by simp
qed

lemma read_exact_Inr:
  "read_exact n st = Inr (bs, st') \<Longrightarrow>
    length bs = n \<and> map fst (incoming st) = bs @ map fst (incoming st')"
  by (auto simp: read_exact_def map_append [symmetric] split: if_splits)

lemma receive_frame_steps:
  assumes "receive_frame so st = Inr ((kind, payload, fds), st')"
  obtains m st1 rest st2 where "recvmsg so st = Inr (m, st1)"
    and "(if length (rc_bytes m) < 8 then read_exact (8 - length (rc_bytes m)) st1
          else Inr ([], st1)) = Inr (rest, st2)"
    and "take 3 (drop 1 (rc_bytes m @ rest)) = [0, 0, 0]"
    and "unat (of_nat (be_value (drop 4 (rc_bytes m @ rest))) :: u32) = length payload"
    and "length payload \<le> MAX_PAYLOAD" and "kind = (rc_bytes m @ rest) ! 0"
    and "read_exact (length payload) st2 = Inr (payload, st')"
proof -
  from assms obtain m st1 rest st2 where steps: "recvmsg so st = Inr (m, st1)"
    "(if length (rc_bytes m) < 8 then read_exact (8 - length (rc_bytes m)) st1
      else Inr ([], st1)) = Inr (rest, st2)"
    "take 3 (drop 1 (rc_bytes m @ rest)) = [0, 0, 0]" "kind = (rc_bytes m @ rest) ! 0"
    "unat (of_nat (be_value (drop 4 (rc_bytes m @ rest))) :: u32) \<le> MAX_PAYLOAD"
    "read_exact (unat (of_nat (be_value (drop 4 (rc_bytes m @ rest))) :: u32)) st2
      = Inr (payload, st')"
    unfolding receive_frame_def bind_result_eq_Inr Let_def
    by (force split: if_split_asm simp: bind_result_eq_Inr)
  moreover have "unat (of_nat (be_value (drop 4 (rc_bytes m @ rest))) :: u32) = length payload"
    using read_exact_Inr [OF steps(6)] by simp
  ultimately show thesis by (intro that) simp_all
qed

lemma split_header:
  assumes "length h = 8" and "take 3 (drop 1 h) = [0, 0, 0]"
  shows "h = [h ! 0, 0, 0, 0] @ drop 4 h"
proof -
  have "h = take 1 h @ take 3 (drop 1 h) @ drop 3 (drop 1 h)"
    by (simp only: append_take_drop_id)
  moreover have "take 1 h = [h ! 0]"
    using assms(1) by (cases h) auto
  ultimately show ?thesis
    using assms(2) by simp
qed

text \<open>Whatever the kernel does, a frame that is accepted was on the wire, byte for byte.\<close>

lemma receive_frame_was_sent:
  assumes so: "socket_documented so" and rcv: "receive_frame so st = Inr ((kind, payload, fds), st')"
  shows "map fst (incoming st) = frame_header kind payload @ payload @ map fst (incoming st')
    \<and> length payload \<le> MAX_PAYLOAD"
proof -
  obtain m st1 rest st2 where m: "recvmsg so st = Inr (m, st1)"
    and r: "(if length (rc_bytes m) < 8 then read_exact (8 - length (rc_bytes m)) st1
             else Inr ([], st1)) = Inr (rest, st2)"
    and flags: "take 3 (drop 1 (rc_bytes m @ rest)) = [0, 0, 0]"
    and len: "unat (of_nat (be_value (drop 4 (rc_bytes m @ rest))) :: u32) = length payload"
    and small: "length payload \<le> MAX_PAYLOAD" and kind: "kind = (rc_bytes m @ rest) ! 0"
    and p: "read_exact (length payload) st2 = Inr (payload, st')"
    by (rule receive_frame_steps [OF rcv])
  let ?h = "rc_bytes m @ rest"
  from m so have m8: "length (rc_bytes m) \<le> 8"
    and i1: "map fst (incoming st) = rc_bytes m @ map fst (incoming st1)"
    by (auto simp: recvmsg_def socket_documented_def Let_def map_append [symmetric] split: sum.splits)
  from r have i2: "map fst (incoming st1) = rest @ map fst (incoming st2)"
    and l8: "length ?h = 8"
    using m8 by (auto dest: read_exact_Inr split: if_splits)
  from p have i3: "map fst (incoming st2) = payload @ map fst (incoming st')"
    by (auto dest: read_exact_Inr)
  define b where "b = drop 4 ?h"
  have h: "?h = [kind, 0, 0, 0] @ b" and b: "length b = 4"
    using split_header [OF l8 flags] l8 kind by (simp_all only: b_def) simp
  have "be_value b < 2 ^ 32"
    using be_value_less [of b] b by simp
  then have "be_value b = length payload"
    using len unfolding b_def [symmetric] by (simp add: unat_of_nat)
  then have "b = be_bytes 4 (length payload)"
    using be_bytes_be_value [of b] b by simp
  then show ?thesis
    using i1 i2 i3 h small by (simp add: frame_header_def)
qed

end
