(* ===== verification/Messages.thy ===== *)
theory Messages
  imports Frames
begin

text \<open>
  The messages of \<^verbatim>\<open>src/protocol.rs\<close>: the preamble that selects stop, normal or incompatible, the
  three requests, the responses and the client events, each as the code encodes and decodes it.
  The characterisations at the end say that decoding accepts exactly the canonical encodings of
  well-formed messages.
\<close>

section \<open>Preamble\<close>

definition PROTOCOL_VERSION :: u32 where
  "PROTOCOL_VERSION = 1"

definition STOP_REQUEST :: bytes where
  "STOP_REQUEST = ascii ''OPPSTOP'' @ [0]"

definition STOP_RESPONSE :: bytes where
  "STOP_RESPONSE = ascii ''OPPSTOP'' @ [1]"

definition NORMAL_MAGIC :: bytes where
  "NORMAL_MAGIC = ascii ''OPP'' @ [0]"

declare PROTOCOL_VERSION_def [literals] STOP_REQUEST_def [literals]
  STOP_RESPONSE_def [literals] NORMAL_MAGIC_def [literals]

datatype server_preamble = PreambleStop | PreambleNormal | PreambleIncompatible

definition normal_preamble :: "u32 \<Rightarrow> bytes" where
  "normal_preamble version = NORMAL_MAGIC @ be_bytes 4 (unat version)"

definition client_negotiate :: "socket \<Rightarrow> stream \<Rightarrow> stream io_result" where
  "client_negotiate so st =
     bind_result (write_all so (normal_preamble PROTOCOL_VERSION) st) (\<lambda>st1.
     bind_result (read_exact 8 st1) (\<lambda>(response, st2).
       if take 4 response \<noteq> NORMAL_MAGIC
          \<or> (of_nat (be_value (drop 4 response)) :: u32) \<noteq> PROTOCOL_VERSION
       then Inl (Simple Unsupported ''incompatible broker protocol'')
       else Inr st2))"

definition server_preamble :: "socket \<Rightarrow> stream \<Rightarrow> (server_preamble \<times> stream) io_result" where
  "server_preamble so st =
     bind_result (read_exact 8 st) (\<lambda>(request, st1).
       if request = STOP_REQUEST then Inr (PreambleStop, st1)
       else if take 4 request \<noteq> NORMAL_MAGIC then Inl (invalid ''invalid protocol preamble'')
       else
         (let version = (of_nat (be_value (drop 4 request)) :: u32)
          in bind_result (write_all so (normal_preamble PROTOCOL_VERSION) st1) (\<lambda>st2.
               if version = PROTOCOL_VERSION then Inr (PreambleNormal, st2)
               else Inr (PreambleIncompatible, st2))))"

section \<open>Message types\<close>

datatype request =
    ReqStart bool account bytes client_context
  | ReqStatus account
  | ReqExec account u64 "bytes list" client_context "fd \<times> fd \<times> fd"

datatype error_code = Operational | AuthorizationRequired | AuthorizationFailed | OpPathMismatch
  | ProcessStart | Protocol | QueueFull | Cancelled

datatype diagnostic = DiagNone | DiagTimeout | DiagInternal

datatype response =
    RespOk
  | RespNeedWarning
  | RespStatus bytes
  | RespExec i32 diagnostic
  | RespError error_code

datatype client_event = StreamsClosed | CancelEvent i32

text \<open>The discriminants (\<^verbatim>\<open>code as u8\<close>) and the conversions back.\<close>

fun error_code_byte :: "error_code \<Rightarrow> u8" where
  "error_code_byte Operational = 1"
| "error_code_byte AuthorizationRequired = 2"
| "error_code_byte AuthorizationFailed = 3"
| "error_code_byte OpPathMismatch = 4"
| "error_code_byte ProcessStart = 5"
| "error_code_byte Protocol = 6"
| "error_code_byte QueueFull = 7"
| "error_code_byte Cancelled = 8"

definition error_code_try_from :: "u8 \<Rightarrow> error_code io_result" where
  "error_code_try_from value =
     (if value = 1 then Inr Operational
      else if value = 2 then Inr AuthorizationRequired
      else if value = 3 then Inr AuthorizationFailed
      else if value = 4 then Inr OpPathMismatch
      else if value = 5 then Inr ProcessStart
      else if value = 6 then Inr Protocol
      else if value = 7 then Inr QueueFull
      else if value = 8 then Inr Cancelled
      else Inl (invalid ''unknown protocol error code''))"

fun diagnostic_byte :: "diagnostic \<Rightarrow> u8" where
  "diagnostic_byte DiagNone = 0"
| "diagnostic_byte DiagTimeout = 1"
| "diagnostic_byte DiagInternal = 2"

definition diagnostic_try_from :: "u8 \<Rightarrow> diagnostic io_result" where
  "diagnostic_try_from value =
     (if value = 0 then Inr DiagNone
      else if value = 1 then Inr DiagTimeout
      else if value = 2 then Inr DiagInternal
      else Inl (invalid ''unknown completion diagnostic''))"

text \<open>Error codes are ordered by their discriminant, as the source declares them.\<close>

lemma error_code_byte_inj: "error_code_byte c = error_code_byte d \<Longrightarrow> c = d"
  by (cases c; cases d) simp_all

instantiation error_code :: linorder
begin

definition less_eq_error_code :: "error_code \<Rightarrow> error_code \<Rightarrow> bool" where
  "less_eq_error_code c d \<longleftrightarrow> error_code_byte c \<le> error_code_byte d"

definition less_error_code :: "error_code \<Rightarrow> error_code \<Rightarrow> bool" where
  "less_error_code c d \<longleftrightarrow> error_code_byte c < error_code_byte d"

instance
  by standard (auto simp: less_eq_error_code_def less_error_code_def dest: error_code_byte_inj)

end

section \<open>Requests\<close>

definition REQUEST_START :: u8 where "REQUEST_START = 1"
definition REQUEST_STATUS :: u8 where "REQUEST_STATUS = 2"
definition REQUEST_EXEC :: u8 where "REQUEST_EXEC = 3"
definition EVENT_STREAMS_CLOSED :: u8 where "EVENT_STREAMS_CLOSED = 4"
definition EVENT_CANCEL :: u8 where "EVENT_CANCEL = 5"
definition RESPONSE_OK :: u8 where "RESPONSE_OK = 128"
definition RESPONSE_NEED_WARNING :: u8 where "RESPONSE_NEED_WARNING = 129"
definition RESPONSE_STATUS :: u8 where "RESPONSE_STATUS = 130"
definition RESPONSE_EXEC :: u8 where "RESPONSE_EXEC = 131"
definition RESPONSE_ERROR :: u8 where "RESPONSE_ERROR = 132"

lemmas kind_bytes = REQUEST_START_def REQUEST_STATUS_def REQUEST_EXEC_def
  EVENT_STREAMS_CLOSED_def EVENT_CANCEL_def RESPONSE_OK_def RESPONSE_NEED_WARNING_def
  RESPONSE_STATUS_def RESPONSE_EXEC_def RESPONSE_ERROR_def

declare kind_bytes [literals]

definition enc_boolean :: "bool \<Rightarrow> encoder \<Rightarrow> encoder" where
  "enc_boolean b e = enc_u8 (if b then 1 else 0) e"

definition enc_arguments :: "bytes list \<Rightarrow> encoder \<Rightarrow> encoder io_result" where
  "enc_arguments arguments e =
     (case u16_try_from (length arguments) of
        None \<Rightarrow> Inl (invalid ''too many arguments'')
      | Some n \<Rightarrow> enc_each enc_bytes arguments (enc_u16 n e))"

definition fd_list :: "fd \<times> fd \<times> fd \<Rightarrow> fd list" where
  "fd_list ds = (case ds of (a, b, c) \<Rightarrow> [a, b, c])"

text \<open>The kind, payload and descriptors that \<^verbatim>\<open>send_request\<close> computes before it sends.\<close>

fun encode_request :: "request \<Rightarrow> (u8 \<times> bytes \<times> fd list) io_result" where
  "encode_request (ReqStart warning_shown account op_path context) =
     bind_result (enc_account account (enc_boolean warning_shown [])) (\<lambda>e1.
     bind_result (enc_string op_path e1) (\<lambda>e2.
     bind_result (enc_context context e2) (\<lambda>e3.
     bind_result (enc_finish e3) (\<lambda>payload. Inr (REQUEST_START, payload, [])))))"
| "encode_request (ReqStatus account) =
     bind_result (enc_account account []) (\<lambda>e1.
     bind_result (enc_finish e1) (\<lambda>payload. Inr (REQUEST_STATUS, payload, [])))"
| "encode_request (ReqExec account timeout_nanos arguments context descriptors) =
     bind_result (enc_account account []) (\<lambda>e1.
     bind_result (enc_arguments arguments (enc_u64 timeout_nanos e1)) (\<lambda>e2.
     bind_result (enc_context context e2) (\<lambda>e3.
     bind_result (enc_finish e3) (\<lambda>payload.
       Inr (REQUEST_EXEC, payload, fd_list descriptors)))))"

definition send_request :: "socket \<Rightarrow> stream \<Rightarrow> request \<Rightarrow> stream io_result" where
  "send_request so st request =
     bind_result (encode_request request) (\<lambda>(kind, payload, descriptors).
       send_frame so st kind payload descriptors)"

definition MIN_TIMEOUT :: u64 where "MIN_TIMEOUT = 1000000000"
definition MAX_TIMEOUT :: u64 where "MAX_TIMEOUT = 600000000000"

declare MIN_TIMEOUT_def [literals] MAX_TIMEOUT_def [literals]

definition dec_timeout :: "decoder \<Rightarrow> (u64 \<times> decoder) io_result" where
  "dec_timeout d =
     bind_result (dec_u64 d) (\<lambda>(timeout_nanos, d').
       if \<not> (MIN_TIMEOUT \<le> timeout_nanos \<and> timeout_nanos \<le> MAX_TIMEOUT)
       then Inl (invalid ''exec timeout is out of range'')
       else Inr (timeout_nanos, d'))"

definition dec_argument :: "decoder \<Rightarrow> (bytes \<times> decoder) io_result" where
  "dec_argument d =
     bind_result (dec_bytes d) (\<lambda>(argument, d').
       if 0 \<in> set argument then Inl (invalid ''argument contains NUL'') else Inr (argument, d'))"

definition total_bytes :: "bytes list \<Rightarrow> nat" where
  "total_bytes arguments = foldl (\<lambda>total a. saturating_add_usize total (length a)) 0 arguments"

definition dec_arguments :: "decoder \<Rightarrow> (bytes list \<times> decoder) io_result" where
  "dec_arguments d =
     bind_result (dec_u16 d) (\<lambda>(count, d').
       if unat count > 256 then Inl (invalid ''too many arguments'')
       else
         bind_result (dec_each dec_argument (unat count) d') (\<lambda>(arguments, d'').
           if total_bytes arguments > 65536
           then Inl (invalid ''argument payload is too large'')
           else Inr (arguments, d'')))"

definition decode_request :: "u8 \<Rightarrow> bytes \<Rightarrow> fd list \<Rightarrow> request io_result" where
  "decode_request kind payload descriptors =
     (if kind = REQUEST_START then
        bind_result (require_no_descriptors descriptors) (\<lambda>_.
        bind_result (dec_boolean (dec_new payload)) (\<lambda>(warning_shown, d1).
        bind_result (dec_account d1) (\<lambda>(account, d2).
        bind_result (dec_string d2) (\<lambda>(op_path, d3).
        bind_result (dec_context d3) (\<lambda>(context, d4).
        bind_result (dec_end d4) (\<lambda>_.
          Inr (ReqStart warning_shown account op_path context)))))))
      else if kind = REQUEST_STATUS then
        bind_result (require_no_descriptors descriptors) (\<lambda>_.
        bind_result (dec_account (dec_new payload)) (\<lambda>(account, d1).
        bind_result (dec_end d1) (\<lambda>_. Inr (ReqStatus account))))
      else if kind = REQUEST_EXEC then
        (case descriptors of
           [a, b, c] \<Rightarrow>
             bind_result (dec_account (dec_new payload)) (\<lambda>(account, d1).
             bind_result (dec_timeout d1) (\<lambda>(timeout_nanos, d2).
             bind_result (dec_arguments d2) (\<lambda>(arguments, d3).
             bind_result (dec_context d3) (\<lambda>(context, d4).
             bind_result (dec_end d4) (\<lambda>_.
               Inr (ReqExec account timeout_nanos arguments context (a, b, c)))))))
         | _ \<Rightarrow> Inl (invalid ''exec requires exactly three descriptors''))
      else Inl (invalid ''unknown request kind''))"

definition receive_request :: "socket \<Rightarrow> stream \<Rightarrow> (request \<times> stream) io_result" where
  "receive_request so st =
     bind_result (receive_frame so st) (\<lambda>((kind, payload, descriptors), st1).
       bind_result (decode_request kind payload descriptors) (\<lambda>request. Inr (request, st1)))"

section \<open>Responses and client events\<close>

fun encode_response :: "response \<Rightarrow> u8 \<times> bytes" where
  "encode_response RespOk = (RESPONSE_OK, [])"
| "encode_response RespNeedWarning = (RESPONSE_NEED_WARNING, [])"
| "encode_response (RespStatus json) = (RESPONSE_STATUS, json)"
| "encode_response (RespExec exit_code diagnostic) =
     (RESPONSE_EXEC, be_bytes 4 (unat exit_code) @ [diagnostic_byte diagnostic])"
| "encode_response (RespError code) = (RESPONSE_ERROR, [error_code_byte code])"

definition send_response :: "socket \<Rightarrow> stream \<Rightarrow> response \<Rightarrow> stream io_result" where
  "send_response so st response =
     (case encode_response response of (kind, payload) \<Rightarrow> send_frame so st kind payload [])"

definition decode_response :: "u8 \<Rightarrow> bytes \<Rightarrow> response io_result" where
  "decode_response kind payload =
     (if kind = RESPONSE_OK \<and> payload = [] then Inr RespOk
      else if kind = RESPONSE_NEED_WARNING \<and> payload = [] then Inr RespNeedWarning
      else if kind = RESPONSE_STATUS then Inr (RespStatus payload)
      else if kind = RESPONSE_EXEC \<and> length payload = 5 then
        (let exit_code = (of_nat (be_value (take 4 payload)) :: i32)
         in if \<not> (0 \<le> sint exit_code \<and> sint exit_code \<le> 255)
            then Inl (invalid ''invalid command exit code'')
            else bind_result (diagnostic_try_from (payload ! 4)) (\<lambda>diagnostic.
                   Inr (RespExec exit_code diagnostic)))
      else if kind = RESPONSE_ERROR \<and> length payload = 1 then
        bind_result (error_code_try_from (payload ! 0)) (\<lambda>code. Inr (RespError code))
      else Inl (invalid ''invalid response frame''))"

definition receive_response :: "socket \<Rightarrow> stream \<Rightarrow> (response \<times> stream) io_result" where
  "receive_response so st =
     bind_result (receive_frame so st) (\<lambda>((kind, payload, descriptors), st1).
     bind_result (require_no_descriptors descriptors) (\<lambda>_.
     bind_result (decode_response kind payload) (\<lambda>response. Inr (response, st1))))"

definition is_caller_signal :: "i32 \<Rightarrow> bool" where
  "is_caller_signal signal \<longleftrightarrow>
     signal \<in> {signal_number SIGHUP, signal_number SIGINT, signal_number SIGQUIT,
               signal_number SIGTERM}"

definition encode_client_event :: "client_event \<Rightarrow> (u8 \<times> bytes) io_result" where
  "encode_client_event event =
     (case event of
        StreamsClosed \<Rightarrow> Inr (EVENT_STREAMS_CLOSED, [])
      | CancelEvent signal \<Rightarrow>
          if is_caller_signal signal then Inr (EVENT_CANCEL, be_bytes 4 (unat signal))
          else Inl (invalid ''invalid cancellation signal''))"

definition send_client_event :: "socket \<Rightarrow> stream \<Rightarrow> client_event \<Rightarrow> stream io_result" where
  "send_client_event so st event =
     bind_result (encode_client_event event) (\<lambda>(kind, payload). send_frame so st kind payload [])"

definition decode_client_event :: "u8 \<Rightarrow> bytes \<Rightarrow> client_event io_result" where
  "decode_client_event kind payload =
     (if kind = EVENT_STREAMS_CLOSED \<and> payload = [] then Inr StreamsClosed
      else if kind = EVENT_CANCEL \<and> length payload = 4 then
        (let signal = (of_nat (be_value payload) :: i32)
         in if \<not> is_caller_signal signal then Inl (invalid ''invalid cancellation signal'')
            else Inr (CancelEvent signal))
      else Inl (invalid ''invalid client event''))"

definition receive_client_event :: "socket \<Rightarrow> stream \<Rightarrow> (client_event \<times> stream) io_result" where
  "receive_client_event so st =
     bind_result (receive_frame so st) (\<lambda>((kind, payload, descriptors), st1).
     bind_result (require_no_descriptors descriptors) (\<lambda>_.
     bind_result (decode_client_event kind payload) (\<lambda>event. Inr (event, st1))))"

section \<open>Request fields as codecs\<close>

interpretation boolean: field_codec "\<lambda>b e. Inr (enc_boolean b e)" dec_boolean "\<lambda>_. True"
proof (unfold_locales, goal_cases)
  case (1 x e e')
  then show ?case by (auto simp: enc_boolean_def enc_u8_def)
next
  case (2 d x w)
  then have "dec_u8 d = Inr (if x then 1 else 0, skip d 1)" and "length w = 1"
    by (auto simp: enc_boolean_def enc_u8_def dec_u8_iff)
  then show ?case by (simp add: dec_boolean_def)
next
  case (3 d x d')
  then obtain v where "dec_u8 d = Inr (v, d')" and "v = (if x then 1 else 0)"
    by (auto simp: dec_boolean_def result_simps split: if_splits)
  with 3 show ?case
    by (auto simp: enc_boolean_def enc_u8_def dec_u8_iff)
qed

definition timeout_ok :: "u64 \<Rightarrow> bool" where
  "timeout_ok t \<longleftrightarrow> MIN_TIMEOUT \<le> t \<and> t \<le> MAX_TIMEOUT"

interpretation timeout: field_codec "\<lambda>v e. Inr (enc_u64 v e)" dec_timeout timeout_ok
  by unfold_locales
    (auto simp: enc_u64_def dec_timeout_def timeout_ok_def result_simps dec_u64_iff split: if_splits)

definition argument_ok :: "bytes \<Rightarrow> bool" where
  "argument_ok a \<longleftrightarrow> 0 \<notin> set a"

interpretation argument: field_codec enc_bytes dec_argument argument_ok
  by unfold_locales
    (auto simp: dec_argument_def argument_ok_def result_simps dec_bytes_iff enc_bytes_iff
      split: if_splits)

interpretation argument_list: field_codec "enc_each enc_bytes" "dec_each dec_argument n"
  "\<lambda>xs. length xs = n \<and> list_all argument_ok xs" for n
  by (rule argument.each_codec)

definition arguments_ok :: "bytes list \<Rightarrow> bool" where
  "arguments_ok xs \<longleftrightarrow> length xs \<le> 256 \<and> list_all argument_ok xs \<and> sum_list (map length xs) \<le> 65536"

lemma total_bytes_eq: "total_bytes xs = min (sum_list (map length xs)) usize_max"
proof -
  have "foldl (\<lambda>t a. saturating_add_usize t (length a)) (min k usize_max) xs =
      min (k + sum_list (map length xs)) usize_max" for k
    by (induction xs arbitrary: k)
      (simp_all add: saturating_add_usize_def min_add_distrib_left add.assoc [symmetric] min_def)
  from this [of 0] show ?thesis by (simp add: total_bytes_def)
qed

lemma total_bytes_bound: "\<not> total_bytes xs > 65536 \<longleftrightarrow> sum_list (map length xs) \<le> 65536"
  by (auto simp: total_bytes_eq usize_max_def)

lemma enc_arguments_iff:
  "enc_arguments xs e = Inr e' \<longleftrightarrow> length xs < 2 ^ 16 \<and>
    (\<exists>w. enc_each enc_bytes xs [] = Inr w \<and> e' = e @ be_bytes 2 (length xs) @ w)"
proof -
  have "be_bytes 2 (unat (of_nat n :: u16)) = be_bytes 2 n" if "n < 2 ^ 16" for n
    using that by (simp add: unat_of_nat)
  then have "enc_arguments xs e = Inr e' \<longleftrightarrow> length xs < 2 ^ 16 \<and>
      enc_each enc_bytes xs (e @ be_bytes 2 (length xs)) = Inr e'"
    by (auto simp: enc_arguments_def u16_try_from_def enc_u16_def)
  then show ?thesis
    using bytes.each_appends [of xs "e @ be_bytes 2 (length xs)" e'] by simp
qed

lemma enc_arguments_appends:
  "enc_arguments xs e = Inr e' \<longleftrightarrow> (\<exists>w. enc_arguments xs [] = Inr w \<and> e' = e @ w)"
  unfolding enc_arguments_iff by auto

lemma dec_arguments_iff:
  assumes "decoder_ok d"
  shows "dec_arguments d = Inr (xs, d') \<longleftrightarrow> arguments_ok xs \<and>
    (\<exists>w. enc_arguments xs [] = Inr w \<and> upcoming d w \<and> d' = skip d (length w))"
proof -
  have ok: "decoder_ok (skip d 2)" if "upcoming d (be_bytes 2 n)" for n
    using decoder_ok_skip [OF assms that] by simp
  have "dec_arguments d = Inr (xs, d') \<longleftrightarrow> (\<exists>n :: u16. upcoming d (be_bytes 2 (unat n)) \<and>
      unat n \<le> 256 \<and> dec_each dec_argument (unat n) (skip d 2) = Inr (xs, d') \<and>
      sum_list (map length xs) \<le> 65536)"
    by (auto simp: dec_arguments_def result_simps dec_u16_iff [OF assms] total_bytes_bound
        not_less [symmetric] split: if_splits)
  also have "\<dots> \<longleftrightarrow> (\<exists>n :: u16. upcoming d (be_bytes 2 (unat n)) \<and> unat n \<le> 256 \<and>
      length xs = unat n \<and> list_all argument_ok xs \<and> sum_list (map length xs) \<le> 65536 \<and>
      (\<exists>v. enc_each enc_bytes xs [] = Inr v \<and> upcoming (skip d 2) v \<and>
        d' = skip d (2 + length v)))"
    using argument_list.dec_iff [OF ok] by fastforce
  also have "\<dots> \<longleftrightarrow> upcoming d (be_bytes 2 (length xs)) \<and> arguments_ok xs \<and>
      (\<exists>v. enc_each enc_bytes xs [] = Inr v \<and> upcoming (skip d 2) v \<and>
        d' = skip d (2 + length v))"
  proof safe
    assume "upcoming d (be_bytes 2 (length xs))" "arguments_ok xs"
    fix v assume "enc_each enc_bytes xs [] = Inr v" "upcoming (skip d 2) v"
    then show "\<exists>n :: u16. upcoming d (be_bytes 2 (unat n)) \<and> unat n \<le> 256 \<and>
      length xs = unat n \<and> list_all argument_ok xs \<and> sum_list (map length xs) \<le> 65536 \<and>
      (\<exists>va. enc_each enc_bytes xs [] = Inr va \<and> upcoming (skip d 2) va \<and>
        skip d (2 + length v) = skip d (2 + length va))"
      using \<open>arguments_ok xs\<close> \<open>upcoming d _\<close>
      by (intro exI [of _ "of_nat (length xs)"]) (auto simp: arguments_ok_def unat_of_nat)
  qed (auto simp: arguments_ok_def)
  also have "\<dots> \<longleftrightarrow> arguments_ok xs \<and>
      (\<exists>w. enc_arguments xs [] = Inr w \<and> upcoming d w \<and> d' = skip d (length w))"
    using upcoming_append [of d "be_bytes 2 (length xs)"]
    by (auto simp: enc_arguments_iff arguments_ok_def)
  finally show ?thesis .
qed

interpretation arguments: field_codec enc_arguments dec_arguments arguments_ok
  by unfold_locales (rule enc_arguments_appends, auto simp: dec_arguments_iff)

section \<open>Payloads\<close>

text \<open>The fields of a start request and of an exec request, nested to the right.\<close>

interpretation path_context: codec_pair enc_string dec_string utf8_valid
  enc_context dec_context context_ok
  by unfold_locales

interpretation path_context_field: field_codec "enc_pair enc_string enc_context"
  "dec_pair dec_string dec_context" "\<lambda>(x, y). utf8_valid x \<and> context_ok y"
  by (rule path_context.pair_codec)

interpretation start_tail: codec_pair enc_account dec_account account_ok
  "enc_pair enc_string enc_context" "dec_pair dec_string dec_context"
  "\<lambda>(x, y). utf8_valid x \<and> context_ok y"
  by unfold_locales

interpretation start_tail_field: field_codec
  "enc_pair enc_account (enc_pair enc_string enc_context)"
  "dec_pair dec_account (dec_pair dec_string dec_context)"
  "\<lambda>(a, x, y). account_ok a \<and> utf8_valid x \<and> context_ok y"
  using start_tail.pair_codec by (simp add: case_prod_unfold)

interpretation start_body: codec_pair "\<lambda>b e. Inr (enc_boolean b e)" dec_boolean "\<lambda>_. True"
  "enc_pair enc_account (enc_pair enc_string enc_context)"
  "dec_pair dec_account (dec_pair dec_string dec_context)"
  "\<lambda>(a, x, y). account_ok a \<and> utf8_valid x \<and> context_ok y"
  by unfold_locales

interpretation start_field: field_codec
  "enc_pair (\<lambda>b e. Inr (enc_boolean b e)) (enc_pair enc_account (enc_pair enc_string enc_context))"
  "dec_pair dec_boolean (dec_pair dec_account (dec_pair dec_string dec_context))"
  "\<lambda>(b, a, x, y). account_ok a \<and> utf8_valid x \<and> context_ok y"
  using start_body.pair_codec by (simp add: case_prod_unfold)

interpretation arguments_context: codec_pair enc_arguments dec_arguments arguments_ok
  enc_context dec_context context_ok
  by unfold_locales

interpretation arguments_context_field: field_codec "enc_pair enc_arguments enc_context"
  "dec_pair dec_arguments dec_context" "\<lambda>(x, y). arguments_ok x \<and> context_ok y"
  by (rule arguments_context.pair_codec)

interpretation exec_tail: codec_pair "\<lambda>v e. Inr (enc_u64 v e)" dec_timeout timeout_ok
  "enc_pair enc_arguments enc_context" "dec_pair dec_arguments dec_context"
  "\<lambda>(x, y). arguments_ok x \<and> context_ok y"
  by unfold_locales

interpretation exec_tail_field: field_codec
  "enc_pair (\<lambda>v e. Inr (enc_u64 v e)) (enc_pair enc_arguments enc_context)"
  "dec_pair dec_timeout (dec_pair dec_arguments dec_context)"
  "\<lambda>(t, x, y). timeout_ok t \<and> arguments_ok x \<and> context_ok y"
  using exec_tail.pair_codec by (simp add: case_prod_unfold)

interpretation exec_body: codec_pair enc_account dec_account account_ok
  "enc_pair (\<lambda>v e. Inr (enc_u64 v e)) (enc_pair enc_arguments enc_context)"
  "dec_pair dec_timeout (dec_pair dec_arguments dec_context)"
  "\<lambda>(t, x, y). timeout_ok t \<and> arguments_ok x \<and> context_ok y"
  by unfold_locales

interpretation exec_field: field_codec
  "enc_pair enc_account (enc_pair (\<lambda>v e. Inr (enc_u64 v e)) (enc_pair enc_arguments enc_context))"
  "dec_pair dec_account (dec_pair dec_timeout (dec_pair dec_arguments dec_context))"
  "\<lambda>(a, t, x, y). account_ok a \<and> timeout_ok t \<and> arguments_ok x \<and> context_ok y"
  using exec_body.pair_codec by (simp add: case_prod_unfold)

definition request_ok :: "request \<Rightarrow> bool" where
  "request_ok r =
     (case r of
        ReqStart warned account op_path context \<Rightarrow>
          account_ok account \<and> utf8_valid op_path \<and> context_ok context
      | ReqStatus account \<Rightarrow> account_ok account
      | ReqExec account timeout_nanos arguments context descriptors \<Rightarrow>
          account_ok account \<and> timeout_ok timeout_nanos \<and> arguments_ok arguments \<and>
          context_ok context)"

lemma enc_finish_iff: "enc_finish e = Inr p \<longleftrightarrow> p = e \<and> length e \<le> MAX_PAYLOAD"
  by (auto simp: enc_finish_def)

lemma kinds_distinct [simp]:
  "REQUEST_STATUS \<noteq> REQUEST_START" "REQUEST_EXEC \<noteq> REQUEST_START" "REQUEST_EXEC \<noteq> REQUEST_STATUS"
  "REQUEST_START \<noteq> REQUEST_STATUS" "REQUEST_START \<noteq> REQUEST_EXEC" "REQUEST_STATUS \<noteq> REQUEST_EXEC"
  by (simp_all add: kind_bytes)

lemma small_payload: "length p \<le> MAX_PAYLOAD \<Longrightarrow> length p \<le> usize_max"
  by (simp add: MAX_PAYLOAD_def usize_max_def)

lemma encode_start_iff:
  "encode_request (ReqStart b a x c) = Inr (k, p, ds) \<longleftrightarrow>
    enc_pair (\<lambda>b e. Inr (enc_boolean b e)) (enc_pair enc_account (enc_pair enc_string enc_context))
      (b, a, x, c) [] = Inr p \<and> length p \<le> MAX_PAYLOAD \<and> k = REQUEST_START \<and> ds = []"
  by (auto simp: enc_pair_def result_simps enc_finish_iff)

lemma encode_exec_iff:
  "encode_request (ReqExec a t xs c fds) = Inr (k, p, ds) \<longleftrightarrow>
    enc_pair enc_account (enc_pair (\<lambda>v e. Inr (enc_u64 v e)) (enc_pair enc_arguments enc_context))
      (a, t, xs, c) [] = Inr p \<and> length p \<le> MAX_PAYLOAD \<and> k = REQUEST_EXEC \<and> ds = fd_list fds"
  by (auto simp: enc_pair_def result_simps enc_finish_iff)

lemma decode_start_iff:
  assumes "length p \<le> MAX_PAYLOAD"
  shows "decode_request REQUEST_START p ds = Inr r \<longleftrightarrow>
    (\<exists>b a x c. r = ReqStart b a x c \<and> request_ok r \<and>
      encode_request r = Inr (REQUEST_START, p, ds))"
proof -
  have "decode_request REQUEST_START p ds = Inr r \<longleftrightarrow> ds = [] \<and>
      bind_result (dec_pair dec_boolean (dec_pair dec_account (dec_pair dec_string dec_context))
        (dec_new p)) (\<lambda>(x, d). bind_result (dec_end d)
          (\<lambda>_. Inr (case x of (b, a, y, c) \<Rightarrow> ReqStart b a y c))) = Inr r"
    by (auto simp: decode_request_def dec_pair_def require_no_descriptors_def result_simps
        case_prod_unfold split: if_splits)
  also have "\<dots> \<longleftrightarrow> (\<exists>b a x c. r = ReqStart b a x c \<and> request_ok r \<and>
      encode_request r = Inr (REQUEST_START, p, ds))"
    using assms unfolding start_field.whole_payload [OF small_payload [OF assms]]
    by (auto simp: encode_start_iff request_ok_def simp del: encode_request.simps)
  finally show ?thesis .
qed

lemma decode_exec_iff:
  assumes "length p \<le> MAX_PAYLOAD"
  shows "decode_request REQUEST_EXEC p ds = Inr r \<longleftrightarrow>
    (\<exists>a t xs c fds. r = ReqExec a t xs c fds \<and> request_ok r \<and>
      encode_request r = Inr (REQUEST_EXEC, p, ds))"
proof -
  have "decode_request REQUEST_EXEC p ds = Inr r \<longleftrightarrow> (\<exists>fds. ds = fd_list fds \<and>
      bind_result (dec_pair dec_account (dec_pair dec_timeout (dec_pair dec_arguments dec_context))
        (dec_new p)) (\<lambda>(x, d). bind_result (dec_end d)
          (\<lambda>_. Inr (case x of (a, t, xs, c) \<Rightarrow> ReqExec a t xs c fds))) = Inr r)"
    by (auto simp: decode_request_def dec_pair_def result_simps fd_list_def
        case_prod_unfold split: list.splits)
  also have "\<dots> \<longleftrightarrow> (\<exists>a t xs c fds. r = ReqExec a t xs c fds \<and> request_ok r \<and>
      encode_request r = Inr (REQUEST_EXEC, p, ds))"
    using assms unfolding exec_field.whole_payload [OF small_payload [OF assms]]
    by (auto simp: encode_exec_iff request_ok_def simp del: encode_request.simps)
  finally show ?thesis .
qed

lemma decode_status_iff:
  assumes "length p \<le> MAX_PAYLOAD"
  shows "decode_request REQUEST_STATUS p ds = Inr r \<longleftrightarrow>
    (\<exists>a. r = ReqStatus a \<and> request_ok r \<and> encode_request r = Inr (REQUEST_STATUS, p, ds))"
  using assms account.whole_payload [OF small_payload [OF assms], of ReqStatus r]
  by (auto simp: decode_request_def require_no_descriptors_def request_ok_def result_simps
      enc_finish_iff split: if_splits)

fun request_kind :: "request \<Rightarrow> u8" where
  "request_kind (ReqStart b a x c) = REQUEST_START"
| "request_kind (ReqStatus a) = REQUEST_STATUS"
| "request_kind (ReqExec a t xs c fds) = REQUEST_EXEC"

lemma encode_request_kind: "encode_request r = Inr (k, p, ds) \<Longrightarrow> k = request_kind r"
  by (cases r) (auto simp: result_simps)

lemma request_kind_start: "request_kind r = REQUEST_START \<longleftrightarrow> (\<exists>b a x c. r = ReqStart b a x c)"
  by (cases r) auto

lemma request_kind_status: "request_kind r = REQUEST_STATUS \<longleftrightarrow> (\<exists>a. r = ReqStatus a)"
  by (cases r) auto

lemma request_kind_exec:
  "request_kind r = REQUEST_EXEC \<longleftrightarrow> (\<exists>a t xs c fds. r = ReqExec a t xs c fds)"
  by (cases r) (auto simp del: split_paired_Ex)

text \<open>Decoding accepts exactly the encodings of well-formed requests.\<close>

lemma decode_request_iff:
  assumes "length p \<le> MAX_PAYLOAD"
  shows "decode_request k p ds = Inr r \<longleftrightarrow> request_ok r \<and> encode_request r = Inr (k, p, ds)"
proof -
  consider "k = REQUEST_START" | "k = REQUEST_STATUS" | "k = REQUEST_EXEC"
    | "k \<notin> {REQUEST_START, REQUEST_STATUS, REQUEST_EXEC}"
    by blast
  then show ?thesis
  proof cases
    case 1
    then show ?thesis
      using decode_start_iff [OF assms, of ds r] encode_request_kind [of r k p ds]
        request_kind_start [of r] by auto
  next
    case 2
    then show ?thesis
      using decode_status_iff [OF assms, of ds r] encode_request_kind [of r k p ds]
        request_kind_status [of r] by auto
  next
    case 3
    then show ?thesis
      using decode_exec_iff [OF assms, of ds r] encode_request_kind [of r k p ds]
        request_kind_exec [of r] by metis
  next
    case 4
    then show ?thesis
      using encode_request_kind [of r k p ds] by (cases r) (auto simp: decode_request_def)
  qed
qed

section \<open>Responses and events\<close>

lemma error_code_roundtrip [simp]: "error_code_try_from (error_code_byte c) = Inr c"
  by (cases c) (simp_all add: error_code_try_from_def)

lemma error_code_try_from_Inr: "error_code_try_from b = Inr c \<longleftrightarrow> b = error_code_byte c"
  by (cases c) (auto simp: error_code_try_from_def split: if_splits)

lemma diagnostic_try_from_Inr: "diagnostic_try_from b = Inr c \<longleftrightarrow> b = diagnostic_byte c"
  by (cases c) (auto simp: diagnostic_try_from_def split: if_splits)

lemma i32_bytes: "(of_nat (be_value (be_bytes 4 (unat (w :: i32)))) :: i32) = w"
  using unat_u32_less [of w] by simp

lemma i32_mod [simp]: "(of_nat (unat (w :: i32) mod 4294967296) :: i32) = w"
  using unat_u32_less [of w] by simp

lemma i32_bytes_inv:
  "length bs = 4 \<Longrightarrow> be_bytes 4 (unat (of_nat (be_value bs) :: i32)) = bs"
  using be_value_less [of bs] be_bytes_be_value [of bs] by (simp add: unat_of_nat)

text \<open>A response the receiver accepts: its exit code is a byte.\<close>

definition response_ok :: "response \<Rightarrow> bool" where
  "response_ok r \<longleftrightarrow>
     (case r of RespExec code d \<Rightarrow> 0 \<le> sint code \<and> sint code \<le> 255 | _ \<Rightarrow> True)"

lemma five_bytes: "length p = 5 \<Longrightarrow> p ! 4 = d \<Longrightarrow> take 4 p @ [d] = p"
  using take_Suc_conv_app_nth [of 4 p] by simp

lemma decode_response_iff:
  "decode_response k p = Inr r \<longleftrightarrow> response_ok r \<and> encode_response r = (k, p)"
proof
  assume "decode_response k p = Inr r"
  then show "response_ok r \<and> encode_response r = (k, p)"
    by (auto simp: decode_response_def response_ok_def Let_def result_simps i32_bytes_inv
        diagnostic_try_from_Inr error_code_try_from_Inr five_bytes length_Suc_conv
        split: if_splits)
next
  assume "response_ok r \<and> encode_response r = (k, p)"
  then show "decode_response k p = Inr r"
    by (cases r)
      (auto simp: decode_response_def response_ok_def Let_def i32_bytes nth_append
        diagnostic_try_from_Inr kind_bytes bind_result_eq_Inr)
qed

lemma decode_client_event_iff:
  "decode_client_event k p = Inr ev \<longleftrightarrow> encode_client_event ev = Inr (k, p)"
proof
  assume "decode_client_event k p = Inr ev"
  then show "encode_client_event ev = Inr (k, p)"
    by (auto simp: decode_client_event_def encode_client_event_def Let_def i32_bytes_inv
        split: if_splits)
next
  assume "encode_client_event ev = Inr (k, p)"
  then show "decode_client_event k p = Inr ev"
    by (cases ev)
      (auto simp: decode_client_event_def encode_client_event_def Let_def i32_bytes kind_bytes
        split: if_splits)
qed

end
