(* ===== verification/Status.thy ===== *)
theory Status
  imports Utf8
begin

text \<open>
  \<^verbatim>\<open>src/status.rs\<close>: the status object. The serializer and parser of \<^verbatim>\<open>serde_json\<close> and the time
  formatting of \<^verbatim>\<open>time\<close> are third-party code and appear as the record \<open>formatting\<close>, an argument of
  the definitions that use them; what is modelled is which members the object has.
\<close>

text \<open>\<^verbatim>\<open>serde_json::Value\<close>; a number carries its answer to \<^verbatim>\<open>as_u64\<close>.\<close>

datatype json = JNull | JBool bool | JNumber "nat option" | JString bytes | JArray "json list"
  | JObject "(string \<times> json) list"

record formatting =
  to_vec :: "json \<Rightarrow> bytes io_result"
  from_slice :: "bytes \<Rightarrow> json option"
  rfc3339 :: "int \<Rightarrow> bytes io_result"

record status =
  schema_version :: nat
  running :: bool
  authorization :: "bytes option"
  account_selector :: "bytes option"
  status_op_path :: "bytes option"
  broker_version :: "bytes option"
  status_started_at :: "bytes option"
  status_authorized_at :: "bytes option"
  status_hard_expires_at :: "bytes option"
  status_next_probe_at :: "bytes option"

text \<open>\<^verbatim>\<open>crate::VERSION\<close> is set by the build (\<^verbatim>\<open>CARGO_PKG_VERSION\<close>): an argument.\<close>

definition status_stopped :: status where
  "status_stopped =
     \<lparr>schema_version = 1, running = False, authorization = None, account_selector = None,
      status_op_path = None, broker_version = None, status_started_at = None,
      status_authorized_at = None, status_hard_expires_at = None, status_next_probe_at = None\<rparr>"

definition status_running :: "bytes \<Rightarrow> bytes option \<Rightarrow> bytes \<Rightarrow> status" where
  "status_running version selector op_path =
     \<lparr>schema_version = 1, running = True,
      authorization = Some (ascii ''reauthorization_required''), account_selector = selector,
      status_op_path = Some op_path, broker_version = Some version, status_started_at = None,
      status_authorized_at = None, status_hard_expires_at = None, status_next_probe_at = None\<rparr>"

text \<open>The derived \<^verbatim>\<open>Serialize\<close>: fields in declaration order, absent options skipped.\<close>

definition optional_member :: "string \<Rightarrow> bytes option \<Rightarrow> (string \<times> json) list" where
  "optional_member key v = (case v of None \<Rightarrow> [] | Some x \<Rightarrow> [(key, JString x)])"

definition members :: "status \<Rightarrow> (string \<times> json) list" where
  "members st =
     [(''schema_version'', JNumber (Some (schema_version st))),
      (''running'', JBool (running st))]
     @ optional_member ''authorization'' (authorization st)
     @ optional_member ''account_selector'' (account_selector st)
     @ optional_member ''op_path'' (status_op_path st)
     @ optional_member ''broker_version'' (broker_version st)
     @ optional_member ''started_at'' (status_started_at st)
     @ optional_member ''authorized_at'' (status_authorized_at st)
     @ optional_member ''hard_expires_at'' (status_hard_expires_at st)
     @ optional_member ''next_probe_at'' (status_next_probe_at st)"

definition status_json :: "formatting \<Rightarrow> status \<Rightarrow> bytes io_result" where
  "status_json fm st = to_vec fm (JObject (members st))"

fun as_u64 :: "json \<Rightarrow> nat option" where
  "as_u64 (JNumber n) = n"
| "as_u64 _ = None"

fun is_boolean :: "json \<Rightarrow> bool" where
  "is_boolean (JBool _) = True"
| "is_boolean _ = False"

definition valid_json :: "formatting \<Rightarrow> bytes \<Rightarrow> bool" where
  "valid_json fm bs =
     (case from_slice fm bs of
        Some (JObject object) \<Rightarrow>
          Option.bind (map_of object ''schema_version'') as_u64 = Some 1
          \<and> (case map_of object ''running'' of Some v \<Rightarrow> is_boolean v | None \<Rightarrow> False)
      | _ \<Rightarrow> False)"

text \<open>What the members are, by name.\<close>

definition member :: "status \<Rightarrow> string \<Rightarrow> json option" where
  "member st key = map_of (members st) key"

lemma map_of_optional_member:
  "map_of (optional_member key v) k = (if k = key then map_option JString v else None)"
  by (auto simp: optional_member_def split: option.splits)

lemma member_eq:
  "member st ''schema_version'' = Some (JNumber (Some (schema_version st)))"
  "member st ''running'' = Some (JBool (running st))"
  "member st ''authorization'' = map_option JString (authorization st)"
  "member st ''account_selector'' = map_option JString (account_selector st)"
  "member st ''op_path'' = map_option JString (status_op_path st)"
  "member st ''broker_version'' = map_option JString (broker_version st)"
  "member st ''started_at'' = map_option JString (status_started_at st)"
  "member st ''authorized_at'' = map_option JString (status_authorized_at st)"
  "member st ''hard_expires_at'' = map_option JString (status_hard_expires_at st)"
  "member st ''next_probe_at'' = map_option JString (status_next_probe_at st)"
  by (simp_all add: member_def members_def map_add_def map_of_optional_member split: option.splits)

text \<open>The documented behaviour of the serializer: the parser reads back what it wrote.\<close>

definition json_roundtrips :: "formatting \<Rightarrow> bool" where
  "json_roundtrips fm \<longleftrightarrow> (\<forall>v bs. to_vec fm v = Inr bs \<longrightarrow> from_slice fm bs = Some v)"

lemma valid_status_json:
  assumes "json_roundtrips fm" and "status_json fm st = Inr bs" and "schema_version st = 1"
  shows "valid_json fm bs"
proof -
  have "from_slice fm bs = Some (JObject (members st))"
    using assms by (auto simp: json_roundtrips_def status_json_def)
  with member_eq(1,2) [of st] assms(3) show ?thesis by (simp add: valid_json_def member_def)
qed

end
