(* ===== verification/Broker.thy ===== *)
theory Broker
  imports Process Messages Status "HOL-Library.AList" "HOL-Library.Monad_Syntax"
begin

text \<open>
  The executor of \<^verbatim>\<open>src/broker.rs\<close>: the thread that owns the authorization records and runs every
  child. Each operation of \<^verbatim>\<open>BrokerActor\<close> is a definition over the actor and the system state; \<open>None\<close>
  is an operation that does not return because a child never ends. \<open>Authorization\<close> and \<open>Executor\<close>
  prove what these operations promise.
\<close>

section \<open>State\<close>

record broker_timings =
  explicit_timeout :: duration
  check_timeout :: duration
  maintenance_interval :: duration
  hard_limit :: duration

definition default_timings :: broker_timings where
  "default_timings =
     \<lparr>explicit_timeout = from_secs 120, check_timeout = from_secs 5,
      maintenance_interval = from_secs (5 * 60), hard_limit = from_secs (12 * 60 * 60)\<rparr>"

text \<open>A \<^verbatim>\<open>SystemTime\<close> is its offset from the epoch in nanoseconds.\<close>

record active_authorization =
  authorized_at :: int
  hard_expires_at :: int
  hard_deadline :: u64
  next_probe_at :: int
  next_probe_deadline :: u64

datatype authorization_record = Required | Active active_authorization

type_synonym records = "(account \<times> authorization_record) list"

text \<open>
  \<open>actor_replies\<close> are the responses sent so far, with the number of the request's response channel;
  \<open>actor_complete\<close> is the flag the connection handlers wait for.
\<close>

record broker_actor =
  actor_op_path :: bytes
  actor_user :: effective_user
  actor_terminal :: terminal
  actor_timings :: broker_timings
  actor_started_at :: int
  actor_records :: records
  actor_replies :: "(nat \<times> response) list"
  actor_complete :: bool

record envelope =
  env_request :: request
  env_response :: nat
  env_control :: control

datatype actor_message = RequestMessage envelope | StopMessage

datatype polled = Received actor_message | ChannelEmpty | ChannelDisconnected

text \<open>
  What the executor observes beside the kernel: the receiving end of the channel, the order in
  which the hash map yields its entries, and the formatting of the status object.
\<close>

record host =
  host_os :: os
  host_try_recv :: "nat \<Rightarrow> polled"
  host_recv_timeout :: "nat \<Rightarrow> duration \<Rightarrow> polled"
  host_iteration :: "nat \<Rightarrow> records \<Rightarrow> records"
  host_format :: formatting
  host_version :: bytes

definition new_actor :: "os \<Rightarrow> bytes \<Rightarrow> effective_user \<Rightarrow> terminal \<Rightarrow> sys \<Rightarrow> broker_actor \<times> sys" where
  "new_actor os op_path user t s =
     (let (now, s1) = wall os s
      in (\<lparr>actor_op_path = op_path, actor_user = user, actor_terminal = t,
           actor_timings = default_timings, actor_started_at = now, actor_records = [],
           actor_replies = [], actor_complete = False\<rparr>, s1))"

section \<open>The table of records\<close>

definition is_active :: "records \<Rightarrow> account \<Rightarrow> bool" where
  "is_active rs account = (case map_of rs account of Some (Active _) \<Rightarrow> True | _ \<Rightarrow> False)"

definition map_values :: "(authorization_record \<Rightarrow> authorization_record) \<Rightarrow> records \<Rightarrow> records" where
  "map_values f rs = map (\<lambda>(k, r). (k, f r)) rs"

definition expired :: "u64 \<Rightarrow> authorization_record \<Rightarrow> authorization_record" where
  "expired now r =
     (case r of Active active \<Rightarrow> if hard_deadline active \<le> now then Required else r | Required \<Rightarrow> r)"

definition expire_records :: "os \<Rightarrow> broker_actor \<Rightarrow> sys \<Rightarrow> broker_actor \<times> sys" where
  "expire_records os a s =
     (let (now, s1) = monotonic os s
      in (a\<lparr>actor_records := map_values (expired now) (actor_records a)\<rparr>, s1))"

definition invalidate_all :: "broker_actor \<Rightarrow> broker_actor" where
  "invalidate_all a = a\<lparr>actor_records := map_values (\<lambda>_. Required) (actor_records a)\<rparr>"

definition insert_record :: "account \<Rightarrow> authorization_record \<Rightarrow> broker_actor \<Rightarrow> broker_actor" where
  "insert_record account r a = a\<lparr>actor_records := AList.update account r (actor_records a)\<rparr>"

text \<open>\<^verbatim>\<open>if let Some(Active(active)) = records.get_mut(account)\<close>.\<close>

definition refresh_record :: "account \<Rightarrow> int \<Rightarrow> u64 \<Rightarrow> broker_actor \<Rightarrow> broker_actor" where
  "refresh_record account probe_at probe_deadline a =
     (case map_of (actor_records a) account of
        Some (Active active) \<Rightarrow>
          insert_record account
            (Active (active\<lparr>next_probe_at := probe_at, next_probe_deadline := probe_deadline\<rparr>)) a
      | _ \<Rightarrow> a)"

definition due_record :: "u64 \<Rightarrow> account \<times> authorization_record \<Rightarrow> bool" where
  "due_record now kr =
     (case snd kr of Active active \<Rightarrow> next_probe_deadline active \<le> now | Required \<Rightarrow> False)"

definition due_maintenance :: "host \<Rightarrow> broker_actor \<Rightarrow> sys \<Rightarrow> account option \<times> sys" where
  "due_maintenance h a s =
     (let (now, s1) = monotonic (host_os h) s;
          (entries, s2) = observe (\<lambda>n. host_iteration h n (actor_records a)) s1
      in (map_option fst (List.find (due_record now) entries), s2))"

fun wake_deadlines :: "records \<Rightarrow> u64 list" where
  "wake_deadlines [] = []"
| "wake_deadlines ((_, Active active) # rs) =
     min (next_probe_deadline active) (hard_deadline active) # wake_deadlines rs"
| "wake_deadlines ((_, Required) # rs) = wake_deadlines rs"

definition next_wait :: "os \<Rightarrow> broker_actor \<Rightarrow> sys \<Rightarrow> duration \<times> sys" where
  "next_wait os a s =
     (let (now, s1) = monotonic os s
      in (case wake_deadlines (actor_records a) of
            [] \<Rightarrow> from_millis 100
          | d # ds \<Rightarrow> remaining now (foldl min d ds), s1))"

section \<open>Checks\<close>

datatype check_result = CheckSuccess | CheckFailed | CheckCancelled | CheckShutdown

definition classify_check :: "process_outcome io_result \<Rightarrow> check_result" where
  "classify_check r =
     (case r of
        Inl _ \<Rightarrow> CheckFailed
      | Inr (OutExited code) \<Rightarrow> if code = 0 then CheckSuccess else CheckFailed
      | Inr (OutCancelled _) \<Rightarrow> CheckCancelled
      | Inr OutShutdown \<Rightarrow> CheckShutdown
      | Inr _ \<Rightarrow> CheckFailed)"

definition cancel_response :: "control \<Rightarrow> sys \<Rightarrow> response \<times> sys" where
  "cancel_response control s =
     (let (signal, s1) = control_signal control s
      in (if 0 <s signal then RespExec (128 + signal) DiagNone else RespError Cancelled, s1))"

definition WHOAMI :: "bytes list" where
  "WHOAMI = [ascii ''whoami'']"

definition VAULT_LIST :: "bytes list" where
  "VAULT_LIST = [ascii ''vault'', ascii ''list'', ascii ''--format=json'']"

definition probe ::
  "os \<Rightarrow> broker_actor \<Rightarrow> bytes list \<Rightarrow> client_context \<Rightarrow> env_vars \<Rightarrow> u64 \<Rightarrow> control \<Rightarrow> sys \<Rightarrow>
    (process_outcome io_result \<times> sys) option" where
  "probe os a arguments context vars deadline control s =
     runner_probe os (actor_op_path a) (actor_terminal a) arguments context vars deadline control s"

definition automatic_check ::
  "os \<Rightarrow> account \<Rightarrow> client_context \<Rightarrow> control \<Rightarrow> broker_actor \<Rightarrow> sys \<Rightarrow>
    (check_result \<times> broker_actor \<times> sys) option" where
  "automatic_check os account context control a s =
     (let (now, s1) = monotonic os s;
          deadline = add_duration now (check_timeout (actor_timings a));
          vars = sanitized context account
      in do {
        (whoami, s2) \<leftarrow> probe os a WHOAMI context vars deadline control s1;
        (case classify_check whoami of
           CheckSuccess \<Rightarrow> do {
             (vault, s3) \<leftarrow> probe os a VAULT_LIST context vars deadline control s2;
             Some (case classify_check vault of
                CheckSuccess \<Rightarrow>
                  (let (checked_at, s4) = wall os s3;
                       (checked_mono, s5) = monotonic os s4;
                       interval = maintenance_interval (actor_timings a)
                   in (CheckSuccess,
                       refresh_record account (checked_at + int interval)
                         (add_duration checked_mono interval) a, s5))
              | result \<Rightarrow> (result, a, s3)) }
         | result \<Rightarrow> Some (result, a, s2)) })"

section \<open>Requests\<close>

definition start ::
  "os \<Rightarrow> bool \<Rightarrow> account \<Rightarrow> bytes \<Rightarrow> client_context \<Rightarrow> control \<Rightarrow> broker_actor \<Rightarrow> sys \<Rightarrow>
    (response option \<times> broker_actor \<times> sys) option" where
  "start os warning_shown account op_path context control a s =
     (let (a1, s1) = expire_records os a s in
      if op_path \<noteq> actor_op_path a1 then Some (Some (RespError OpPathMismatch), a1, s1)
      else if is_active (actor_records a1) account then Some (Some RespOk, a1, s1)
      else if \<not> warning_shown then Some (Some RespNeedWarning, a1, s1)
      else
        (let a2 = insert_record account Required a1;
             (started_wall, s2) = wall os s1;
             (started_mono, s3) = monotonic os s2;
             timings = actor_timings a2;
             deadline = add_duration started_mono (explicit_timeout timings);
             vars = sanitized context account
         in do {
           (outcome, s4) \<leftarrow> probe os a2 VAULT_LIST context vars deadline control s3;
           Some (case outcome of
              Inr (OutExited code) \<Rightarrow>
                if code = 0 then
                  (let (checked_at, s5) = wall os s4;
                       (checked_mono, s6) = monotonic os s5;
                       active =
                         \<lparr>authorized_at = started_wall,
                          hard_expires_at = started_wall + int (hard_limit timings),
                          hard_deadline = add_duration started_mono (hard_limit timings),
                          next_probe_at = checked_at + int (maintenance_interval timings),
                          next_probe_deadline =
                            add_duration checked_mono (maintenance_interval timings)\<rparr>
                   in (Some RespOk, insert_record account (Active active) a2, s6))
                else (Some (RespError AuthorizationFailed), a2, s4)
            | Inr (OutCancelled _) \<Rightarrow>
                (let (response, s5) = cancel_response control s4 in (Some response, a2, s5))
            | Inr OutShutdown \<Rightarrow> (None, a2, s4)
            | _ \<Rightarrow> (Some (RespError AuthorizationFailed), a2, s4)) }))"

text \<open>\<^verbatim>\<open>format_time(value).ok()\<close>.\<close>

definition formatted :: "formatting \<Rightarrow> int \<Rightarrow> bytes option" where
  "formatted fm value = ok_option (rfc3339 fm value)"

definition status_of :: "host \<Rightarrow> account \<Rightarrow> broker_actor \<Rightarrow> status" where
  "status_of h account a =
     (let fm = host_format h;
          base = (status_running (host_version h) (explicit account) (actor_op_path a))
            \<lparr>status_started_at := formatted fm (actor_started_at a)\<rparr>
      in (case map_of (actor_records a) account of
            Some (Active active) \<Rightarrow>
              base\<lparr>authorization := Some (ascii ''active''),
                   status_authorized_at := formatted fm (authorized_at active),
                   status_hard_expires_at := formatted fm (hard_expires_at active),
                   status_next_probe_at := formatted fm (next_probe_at active)\<rparr>
          | _ \<Rightarrow> base))"

definition status_request ::
  "host \<Rightarrow> account \<Rightarrow> broker_actor \<Rightarrow> sys \<Rightarrow> response option \<times> broker_actor \<times> sys" where
  "status_request h account a s =
     (let (a1, s1) = expire_records (host_os h) a s
      in (case status_json (host_format h) (status_of h account a1) of
            Inr json \<Rightarrow> Some (RespStatus json)
          | Inl _ \<Rightarrow> Some (RespError Operational), a1, s1))"

text \<open>What \<^verbatim>\<open>execute\<close> answers for the result of the command.\<close>

definition execute_response :: "process_outcome io_result \<Rightarrow> response option" where
  "execute_response r =
     (case r of
        Inr (OutExited code) \<Rightarrow> Some (RespExec code DiagNone)
      | Inr (OutSignaled signal) \<Rightarrow> Some (RespExec (128 + signal) DiagNone)
      | Inr OutTimedOut \<Rightarrow> Some (RespExec 124 DiagTimeout)
      | Inr (OutCancelled signal) \<Rightarrow>
          if 0 <s signal then Some (RespExec (128 + signal) DiagNone)
          else Some (RespError Cancelled)
      | Inr OutShutdown \<Rightarrow> None
      | Inl _ \<Rightarrow> Some (RespError ProcessStart))"

definition execute ::
  "os \<Rightarrow> account \<Rightarrow> u64 \<Rightarrow> bytes list \<Rightarrow> client_context \<Rightarrow> fd \<times> fd \<times> fd \<Rightarrow> control \<Rightarrow>
    broker_actor \<Rightarrow> sys \<Rightarrow> (response option \<times> broker_actor \<times> sys) option" where
  "execute os account timeout_nanos arguments context descriptors control a s =
     (let (a1, s1) = expire_records os a s in
      if \<not> is_active (actor_records a1) account
      then Some (Some (RespError AuthorizationRequired), a1, s1)
      else do {
        (check, a2, s2) \<leftarrow> automatic_check os account context control a1 s1;
        (case check of
           CheckCancelled \<Rightarrow>
             Some (let (response, s3) = cancel_response control s2 in (Some response, a2, s3))
         | CheckShutdown \<Rightarrow> Some (None, a2, s2)
         | CheckFailed \<Rightarrow> Some (Some (RespError AuthorizationRequired), invalidate_all a2, s2)
         | CheckSuccess \<Rightarrow>
             (let (a3, s3) = expire_records os a2 s2 in
              if \<not> is_active (actor_records a3) account
              then Some (Some (RespError AuthorizationRequired), a3, s3)
              else
                (let vars = sanitized context account;
                     (now, s4) = monotonic os s3;
                     deadline = add_duration now (unat timeout_nanos)
                 in do {
                   (result, s5) \<leftarrow> runner_run os (actor_op_path a3) (actor_terminal a3) arguments
                     context vars descriptors (Some deadline) control s4;
                   (let (a4, s6) = expire_records os a3 s5
                    in Some (execute_response result, a4, s6)) }))) })"

definition maintain ::
  "host \<Rightarrow> account \<Rightarrow> broker_actor \<Rightarrow> sys \<Rightarrow> (broker_actor \<times> sys) option" where
  "maintain h account a s =
     (if \<not> is_active (actor_records a) account then Some (a, s)
      else
        (let (context, s1) = maintenance (host_os h) (actor_user a) account s in
         do {
           (check, a2, s2) \<leftarrow>
             automatic_check (host_os h) account context (\<lambda>_. control_default) a s1;
           Some (case check of
              CheckSuccess \<Rightarrow> (a2, s2)
            | CheckShutdown \<Rightarrow> (a2, shutdown_store s2)
            | CheckCancelled \<Rightarrow> (invalidate_all a2, s2)
            | CheckFailed \<Rightarrow> (invalidate_all a2, s2)) }))"

section \<open>The executor's loop\<close>

definition reply :: "nat \<Rightarrow> response \<Rightarrow> broker_actor \<Rightarrow> broker_actor" where
  "reply channel response a = a\<lparr>actor_replies := actor_replies a @ [(channel, response)]\<rparr>"

definition is_exec :: "request \<Rightarrow> bool" where
  "is_exec r = (case r of ReqExec _ _ _ _ _ \<Rightarrow> True | _ \<Rightarrow> False)"

definition serve ::
  "host \<Rightarrow> request \<Rightarrow> control \<Rightarrow> broker_actor \<Rightarrow> sys \<Rightarrow>
    (response option \<times> broker_actor \<times> sys) option" where
  "serve h r control a s =
     (case r of
        ReqStart warning_shown account op_path context \<Rightarrow>
          start (host_os h) warning_shown account op_path context control a s
      | ReqStatus account \<Rightarrow> Some (status_request h account a s)
      | ReqExec account timeout_nanos arguments context descriptors \<Rightarrow>
          execute (host_os h) account timeout_nanos arguments context descriptors control a s)"

definition handle :: "host \<Rightarrow> envelope \<Rightarrow> broker_actor \<Rightarrow> sys \<Rightarrow> (broker_actor \<times> sys) option" where
  "handle h env a s =
     (let (gone, s1) = is_cancelled (env_control env) s in
      if gone then
        (if is_exec (env_request env) then
           (let (response, s2) = cancel_response (env_control env) s1
            in Some (reply (env_response env) response a, s2))
         else Some (reply (env_response env) (RespError Cancelled) a, s1))
      else do {
        (response, a', s') \<leftarrow> serve h (env_request env) (env_control env) a s1;
        Some (case response of
           Some r \<Rightarrow> (reply (env_response env) r a', s')
         | None \<Rightarrow> (a', s')) })"

text \<open>One turn of \<^verbatim>\<open>while !shutdown\<close>: \<open>False\<close> when the loop is left.\<close>

definition run_step :: "host \<Rightarrow> broker_actor \<Rightarrow> sys \<Rightarrow> (bool \<times> broker_actor \<times> sys) option" where
  "run_step h a s =
     (let (down, s1) = shutdown_load (host_os h) s in
      if down then Some (False, a, s1)
      else
        (let (a1, s2) = expire_records (host_os h) a s1;
             (message, s3) = observe (host_try_recv h) s2
         in (case message of
               Received (RequestMessage env) \<Rightarrow> do {
                 (a', s') \<leftarrow> handle h env a1 s3; Some (True, a', s') }
             | Received StopMessage \<Rightarrow> Some (False, a1, s3)
             | ChannelDisconnected \<Rightarrow> Some (False, a1, s3)
             | ChannelEmpty \<Rightarrow>
                 (let (due, s4) = due_maintenance h a1 s3 in
                  (case due of
                     Some account \<Rightarrow> do { (a', s') \<leftarrow> maintain h account a1 s4; Some (True, a', s') }
                   | None \<Rightarrow>
                       (let (pause, s5) = next_wait (host_os h) a1 s4;
                            (late, s6) =
                              observe (\<lambda>n. host_recv_timeout h n (min pause (from_millis 100))) s5
                        in (case late of
                              Received (RequestMessage env) \<Rightarrow> do {
                                (a', s') \<leftarrow> handle h env a1 s6; Some (True, a', s') }
                            | Received StopMessage \<Rightarrow> Some (False, a1, s6)
                            | ChannelDisconnected \<Rightarrow> Some (False, a1, s6)
                            | ChannelEmpty \<Rightarrow> Some (True, a1, s6))))))))"

partial_function (option) run_loop ::
  "host \<Rightarrow> broker_actor \<Rightarrow> sys \<Rightarrow> (broker_actor \<times> sys) option" where
  "run_loop h a s =
     Option.bind (run_step h a s) (\<lambda>(more, a', s').
       if more then run_loop h a' s' else Some (a', s'))"

text \<open>\<^verbatim>\<open>while let Ok(message) = receiver.try_recv()\<close>: every queued request is refused.\<close>

partial_function (option) drain :: "host \<Rightarrow> broker_actor \<Rightarrow> sys \<Rightarrow> (broker_actor \<times> sys) option" where
  "drain h a s =
     (case observe (host_try_recv h) s of (message, s') \<Rightarrow>
       (case message of
          Received m \<Rightarrow>
            (case m of
               RequestMessage env \<Rightarrow> drain h (reply (env_response env) (RespError Operational) a) s'
             | StopMessage \<Rightarrow> drain h a s')
        | ChannelEmpty \<Rightarrow> Some (a, s')
        | ChannelDisconnected \<Rightarrow> Some (a, s')))"

definition close_actor :: "broker_actor \<Rightarrow> sys \<Rightarrow> broker_actor \<times> sys" where
  "close_actor a s =
     (let (t, s1) = terminal_shutdown (actor_terminal a) s
      in (a\<lparr>actor_records := [], actor_terminal := t, actor_complete := True\<rparr>, s1))"

definition actor_run :: "host \<Rightarrow> broker_actor \<Rightarrow> sys \<Rightarrow> (broker_actor \<times> sys) option" where
  "actor_run h a s = do {
     (a1, s1) \<leftarrow> run_loop h a s;
     (a2, s2) \<leftarrow> drain h a1 (shutdown_store s1);
     Some (close_actor a2 s2) }"

end
