(* ===== verification/Worlds.thy ===== *)
theory Worlds
  imports Process
begin

text \<open>
  Concrete worlds for the examples: \<open>calm\<close>, in which every call succeeds, time passes by one second
  per observation (until the 64 bits of nanoseconds are used up) and every child has exited with code 0, and variations of it.
\<close>

definition calm :: os where
  "calm =
     \<lparr>os_clock_gettime = (\<lambda>n. Inr (min (int n) 100000000000, 0)), os_wall = (\<lambda>n. int n * 1000000000),
      os_shutdown = (\<lambda>n. False), os_pipe = (\<lambda>n. Inr (2 * n, 2 * n + 1)),
      os_thread_spawn = (\<lambda>n. None), os_spawn_setup = (\<lambda>n. None),
      os_posix_spawn = (\<lambda>n call. Inr 100), os_kill_zero = (\<lambda>n p. Some ESRCH),
      os_waitpid = (\<lambda>n p. Inr (Exited p 0)), os_probe_closed = (\<lambda>n. True),
      os_lstat = (\<lambda>n path. Inl ENOENT), os_fstat = (\<lambda>n path. Inl ENOENT),
      os_confstr_length = (\<lambda>n name. 0), os_confstr_fill = (\<lambda>n name k. (0, [])),
      os_openpty = (\<lambda>n. Inr (5, 6)), os_getpgrp = (\<lambda>n. 50), os_peer_uid = (\<lambda>n. Inr 501),
      os_call = (\<lambda>n e. None)\<rparr>"

definition boot :: sys where
  "boot = \<lparr>observed = 0, effects = [], shutdown_stored = False\<rparr>"

text \<open>A child that ignores SIGTERM and is gone from the \<open>k\<close>-th observation on.\<close>

definition stubborn :: "nat \<Rightarrow> os" where
  "stubborn k = calm
     \<lparr>os_waitpid := (\<lambda>n p. if n < k then Inr StillAlive else Inr (Exited p 0)),
      os_kill_zero := (\<lambda>n p. if n < k then None else Some ESRCH)\<rparr>"

definition at_ease :: control where
  "at_ease n = control_default\<lparr>streams_closed := True\<rparr>"

definition example_terminal :: terminal where
  "example_terminal = \<lparr>slave = 6, broker_group = 50, drain_master = Some 5\<rparr>"

lemma calm_simps [simp]:
  "os_clock_gettime calm n = Inr (min (int n) 100000000000, 0)" "os_wall calm n = int n * 1000000000"
  "os_shutdown calm n = False" "os_pipe calm n = Inr (2 * n, 2 * n + 1)"
  "os_thread_spawn calm n = None" "os_spawn_setup calm n = None"
  "os_posix_spawn calm n call = Inr 100" "os_kill_zero calm n p = Some ESRCH"
  "os_waitpid calm n p = Inr (Exited p 0)" "os_probe_closed calm n" "os_call calm n e = None"
  "os_confstr_length calm n name = 0" "os_openpty calm n = Inr (5, 6)" "os_getpgrp calm n = 50"
  "os_peer_uid calm n = Inr 501" "os_lstat calm n path = Inl ENOENT"
  by (simp_all add: calm_def)

lemma boot_simps [simp]: "observed boot = 0" "effects boot = []" "\<not> shutdown_stored boot"
  by (simp_all add: boot_def)

lemma at_ease_simps [simp]:
  "\<not> cancelled (at_ease n)" "streams_closed (at_ease n)" "cancel_signal (at_ease n) = 0"
  by (simp_all add: at_ease_def control_default_def)

lemma unat_clock_at_calm: "unat (clock_at calm n) = min (min n 100000000000 * 1000000000) (2 ^ 64 - 1)"
proof -
  have "(of_int (min (int n) 100000000000) :: u64) = of_nat (min n 100000000000)"
    by (metis of_int_of_nat_eq of_nat_min of_nat_numeral)
  moreover have "unat (of_nat (min n 100000000000) :: u64) = min n 100000000000"
    by (simp add: unat_of_nat)
  ultimately show ?thesis
    by (auto simp: clock_at_def monotonic_now_def Let_def u64_from_int_or_def unat_saturating_add_u64
        unat_saturating_mul_u64)
qed

lemma clock_at_calm: "n \<le> 1000000000 \<Longrightarrow> clock_at calm n = of_nat (n * 1000000000)"
  using unat_clock_at_calm [of n] by (intro word_unat_eq_iff [THEN iffD2]) (simp add: unat_of_nat min_def del: of_nat_mult)

lemma clock_monotone_calm: "clock_monotone calm"
  by (auto simp: clock_monotone_def word_le_nat_alt unat_clock_at_calm)

lemma calm_clock_passes: "\<forall>v. \<exists>N. \<forall>n\<ge>N. v \<le> clock_at calm n"
proof
  fix v :: u64
  have "v \<le> clock_at calm n" if "100000000000 \<le> n" for n
    using that unat_u64_less [of v] by (simp add: word_le_nat_alt unat_clock_at_calm)
  then show "\<exists>N. \<forall>n\<ge>N. v \<le> clock_at calm n" by blast
qed

lemma clock_at_cong: "os_clock_gettime os = os_clock_gettime os' \<Longrightarrow> clock_at os = clock_at os'"
  by (simp add: clock_at_def monotonic_now_def fun_eq_iff)

lemma clock_at_stubborn [simp]: "clock_at (stubborn k) = clock_at calm"
  by (rule clock_at_cong) (simp add: stubborn_def)

end
