(* ===== verification/Supervision.thy ===== *)
theory Supervision
  imports Worlds
begin

text \<open>
  The polling loop of \<^verbatim>\<open>src/process.rs\<close> and what \<^verbatim>\<open>run\<close> and \<^verbatim>\<open>probe\<close> do with one child: which signals
  the loop sends and why, what its result means, when it returns, and which effects the run of
  one child has.
\<close>

section \<open>Stages of one round\<close>

fun group_signals :: "(nat \<times> effect) list \<Rightarrow> (nat \<times> pid \<times> signal) list" where
  "group_signals [] = []"
| "group_signals ((n, KillGroup p sig) # es) = (n, p, sig) # group_signals es"
| "group_signals (_ # es) = group_signals es"

lemma group_signals_append [simp]: "group_signals (xs @ ys) = group_signals xs @ group_signals ys"
  by (induction xs rule: group_signals.induct) auto

text \<open>What the loop itself may do to the world.\<close>

definition loop_effect :: "pid \<Rightarrow> effect \<Rightarrow> bool" where
  "loop_effect p e \<longleftrightarrow> (\<exists>sig. e = KillGroup p sig) \<or> (\<exists>d. e = Sleep d)"

lemma terminate_group_eq:
  "terminate_group os p sig s = (r, s') \<Longrightarrow>
    s' = tick (emit (KillGroup p sig) s) \<and>
    (r = Inr () \<longleftrightarrow> os_call os (observed s) (KillGroup p sig) \<in> {None, Some ESRCH})"
  by (auto simp: terminate_group_def call_os_def raw_unit_def split: option.splits errno.splits)

lemma within_terminate_group [within]: "acts_within (loop_effect p) (terminate_group os p sig)"
  unfolding acts_within_def
  by (auto dest!: terminate_group_eq simp: loop_effect_def)

lemma silent_poll_status [within]: "silent (poll_status os p status)"
  by (auto simp: poll_status_def intro!: within)

lemma shutdown_load_eq [simp]:
  "shutdown_load os s = (os_shutdown os (observed s) \<or> shutdown_stored s, tick s)"
  by (simp add: shutdown_load_def)

lemma is_cancelled_eq [simp]: "is_cancelled control s = (cancelled (control (observed s)), tick s)"
  by (simp add: is_cancelled_def observe_def)

lemma control_signal_eq [simp]:
  "control_signal control s = (cancel_signal (control (observed s)), tick s)"
  by (simp add: control_signal_def observe_def)

lemma poll_status_known: "poll_status os p (Some w) s = (Inr (Some w), s)"
  by (simp add: poll_status_def pure_act_def)

lemma poll_status_unknown:
  assumes "poll_status os p None s = (r, s')"
  shows "s' = tick s \<and> (case r of
      Inl e \<Rightarrow> True
    | Inr None \<Rightarrow> os_waitpid os (observed s) p = Inr StillAlive
    | Inr (Some w) \<Rightarrow> os_waitpid os (observed s) p = Inr w \<and> w \<noteq> StillAlive)"
  using assms
  by (cases "os_waitpid os (observed s) p")
    (auto simp: poll_status_def and_then_def query_def observe_def raw_os_def pure_act_def)

text \<open>
  The observations that justify a termination: made no earlier than \<open>a\<close>, and before \<open>b\<close>.
\<close>

definition reason_seen ::
  "os \<Rightarrow> u64 option \<Rightarrow> control \<Rightarrow> bool \<Rightarrow> nat \<Rightarrow> nat \<Rightarrow> process_outcome \<Rightarrow> bool" where
  "reason_seen os deadline control stored a b outcome \<longleftrightarrow>
     (\<exists>k. a \<le> k \<and> k < b \<and>
       (case outcome of
          OutShutdown \<Rightarrow> os_shutdown os k \<or> stored
        | OutCancelled sig \<Rightarrow> Suc k < b \<and> cancelled (control k) \<and> sig = cancel_signal (control (Suc k))
        | OutTimedOut \<Rightarrow> (\<exists>value. deadline = Some value \<and> value \<le> clock_at os k)
        | OutExited c \<Rightarrow> False
        | OutSignaled c \<Rightarrow> False))"

lemma termination_reason_cases:
  assumes "termination_reason os deadline control s = (reason, s')"
  shows "advances s s' \<and> effects s' = effects s \<and> shutdown_stored s' = shutdown_stored s \<and> observed s < observed s' \<and>
    (\<forall>outcome. reason = Some outcome \<longrightarrow>
       reason_seen os deadline control (shutdown_stored s) (observed s) (observed s') outcome)"
proof -
  let ?n = "observed s"
  have adv: "advances s (tick s)" "advances s (tick (tick s))" "advances s (tick (tick (tick s)))"
    by (simp_all add: advances_def)
  consider (down) "os_shutdown os ?n \<or> shutdown_stored s"
    | (gone) "\<not> (os_shutdown os ?n \<or> shutdown_stored s)" "cancelled (control (Suc ?n))"
    | (none) "\<not> (os_shutdown os ?n \<or> shutdown_stored s)" "\<not> cancelled (control (Suc ?n))"
        "deadline = None"
    | (time) v where "\<not> (os_shutdown os ?n \<or> shutdown_stored s)"
        "\<not> cancelled (control (Suc ?n))" "deadline = Some v"
    by (cases deadline) blast+
  then show ?thesis
  proof cases
    case down
    with assms adv show ?thesis
      by (auto simp: termination_reason_def Let_def reason_seen_def)
  next
    case gone
    with assms adv show ?thesis
      by (auto simp: termination_reason_def Let_def reason_seen_def intro!: exI [of _ "Suc ?n"])
  next
    case none
    with assms adv show ?thesis
      by (auto simp: termination_reason_def Let_def reason_seen_def)
  next
    case time
    with assms adv show ?thesis
      by (auto simp: termination_reason_def Let_def reason_seen_def split: if_splits
          intro!: exI [of _ "Suc (Suc ?n)"])
  qed
qed

text \<open>What one round of the escalation can do.\<close>

lemma escalate_cases:
  assumes run: "escalate os p deadline control ls s = (r, s')"
  obtains (idle) "r = Inr ls" and "advances s s'" and "effects s' = effects s"
      and "shutdown_stored s' = shutdown_stored s"
  | (warned) n reason where "ls_termination ls = None" and "observed s < n" and "n < observed s'"
      and "reason_seen os deadline control (shutdown_stored s) (observed s) n reason"
      and "effects s' = effects s @ [(n, KillGroup p SIGTERM)]"
      and "shutdown_stored s' = shutdown_stored s"
      and "is_ok r \<Longrightarrow> r = Inr (ls\<lparr>ls_termination := Some reason,
             ls_kill_deadline := Some (add_duration (clock_at os (Suc n)) TERMINATION_GRACE)\<rparr>)"
      and "is_ok r \<Longrightarrow> observed s' = Suc (Suc n)"
  | (killed) n v where "ls_termination ls \<noteq> None" and "ls_kill_deadline ls = Some v"
      and "n = Suc (observed s)" and "observed s' = Suc n" and "v \<le> clock_at os (observed s)"
      and "effects s' = effects s @ [(n, KillGroup p SIGKILL)]"
      and "shutdown_stored s' = shutdown_stored s"
      and "is_ok r \<Longrightarrow> r = Inr (ls\<lparr>ls_kill_deadline := None\<rparr>)"
proof (cases "ls_termination ls")
  case None
  obtain reason s1 where tr: "termination_reason os deadline control s = (reason, s1)" by fastforce
  note t = termination_reason_cases [OF tr]
  show thesis
  proof (cases reason)
    case None
    with run tr \<open>ls_termination ls = None\<close> t show ?thesis
      by (intro idle) (auto simp: escalate_def)
  next
    case (Some o')
    obtain r2 s2 where tg: "terminate_group os p SIGTERM s1 = (r2, s2)" by fastforce
    note g = terminate_group_eq [OF tg]
    have "r = (case r2 of Inl e \<Rightarrow> Inl e | Inr _ \<Rightarrow> Inr (ls\<lparr>ls_termination := Some o',
             ls_kill_deadline := Some (add_duration (clock_at os (observed s2)) TERMINATION_GRACE)\<rparr>))"
      and "s' = (if is_ok r2 then tick s2 else s2)"
      using run tr None Some tg
      by (auto simp: escalate_def and_then_def Let_def split: sum.splits)
    with t g None Some show ?thesis
      by (intro warned [of "observed s1" o']) (auto split: sum.splits)
  qed
next
  case (Some o')
  show thesis
  proof (cases "ls_kill_deadline ls")
    case None
    with run Some show ?thesis by (intro idle) (auto simp: escalate_def)
  next
    case (Some v)
    show ?thesis
    proof (cases "v \<le> clock_at os (observed s)")
      case False
      with run Some \<open>ls_termination ls = Some o'\<close> show ?thesis
        by (intro idle) (auto simp: escalate_def)
    next
      case True
      obtain r2 s2 where tg: "terminate_group os p SIGKILL (tick s) = (r2, s2)" by fastforce
      note g = terminate_group_eq [OF tg]
      have "r = (case r2 of Inl e \<Rightarrow> Inl e | Inr _ \<Rightarrow> Inr (ls\<lparr>ls_kill_deadline := None\<rparr>))"
        and "s' = s2"
        using run True Some \<open>ls_termination ls = Some o'\<close> tg
        by (auto simp: escalate_def and_then_def pure_act_def Let_def split: sum.splits)
      with g True Some \<open>ls_termination ls = Some o'\<close> show ?thesis
        by (intro killed [of v "Suc (observed s)"]) (auto split: sum.splits)
    qed
  qed
qed

text \<open>When a round finds the child done.\<close>

lemma completion_cases:
  assumes run: "completion os p closed ls s = (r, s')"
  shows "advances s s' \<and> effects s' = effects s \<and> shutdown_stored s' = shutdown_stored s \<and>
    (\<forall>outcome. r = Inr (Some outcome) \<longrightarrow>
      (\<exists>status. ls_status ls = Some status \<and>
        (case ls_termination ls of
           None \<Rightarrow> outcome = map_wait_status status
         | Some o' \<Rightarrow> outcome = o' \<and> (\<exists>n. observed s \<le> n \<and> os_kill_zero os n p = Some ESRCH))) \<and>
      (\<exists>n\<ge>observed s. closed n \<or> os_shutdown os n \<or> shutdown_stored s))"
proof -
  have adv: "advances s (tick s)" "advances s (tick (tick s))" "advances s (tick (tick (tick s)))"
    by (simp_all add: advances_def)
  let ?n = "observed s"
  show ?thesis
  proof (cases "ls_status ls")
    case None
    with run show ?thesis by (auto simp: completion_def)
  next
    case (Some w)
    define s2 where "s2 = (if closed ?n then tick s else tick (tick s))"
    have s2: "advances s s2" "effects s2 = effects s" "shutdown_stored s2 = shutdown_stored s"
      "?n < observed s2"
      using adv by (auto simp: s2_def)
    have ended: "\<exists>n\<ge>?n. closed n \<or> os_shutdown os n \<or> shutdown_stored s"
      if "closed ?n \<or> os_shutdown os (Suc ?n) \<or> shutdown_stored s"
      using that by (metis le_SucI order_refl)
    show ?thesis
    proof (cases "closed ?n \<or> os_shutdown os (Suc ?n) \<or> shutdown_stored s")
      case False
      with run Some s2 show ?thesis
        by (auto simp: completion_def observe_def s2_def split: if_splits)
    next
      case True
      show ?thesis
      proof (cases "ls_termination ls")
        case None
        with run Some True s2 ended [OF True] show ?thesis
          by (auto simp: completion_def observe_def s2_def split: if_splits)
      next
        case (Some o')
        have "r = (case os_kill_zero os (observed s2) p of None \<Rightarrow> Inr None
              | Some ESRCH \<Rightarrow> Inr (Some o') | Some EPERM \<Rightarrow> Inr None | Some e \<Rightarrow> Inl (RawOs e))
            \<and> s' = tick s2"
          using run Some \<open>ls_status ls = Some w\<close> True
          by (auto simp: completion_def observe_def s2_def and_then_def process_group_exists_def
              pure_act_def split: if_splits option.splits errno.splits)
        with s2 Some \<open>ls_status ls = Some w\<close> ended [OF True] show ?thesis
          by (auto split: option.splits errno.splits intro: advances_trans
              intro!: exI [of _ "observed s2"])
      qed
    qed
  qed
qed


section \<open>The loop\<close>

lemma poll_status_cases:
  assumes "poll_status os p st s = (r, s')"
  shows "advances s s' \<and> effects s' = effects s \<and> shutdown_stored s' = shutdown_stored s \<and>
    (st \<noteq> None \<longrightarrow> r = Inr st \<and> s' = s) \<and>
    (\<forall>w. st = None \<longrightarrow> r = Inr (Some w) \<longrightarrow>
      w \<noteq> StillAlive \<and> os_waitpid os (observed s) p = Inr w \<and> observed s < observed s')"
proof (cases st)
  case None
  with poll_status_unknown [of os p s r s'] assms show ?thesis
    by (auto split: sum.splits option.splits)
next
  case (Some w)
  with assms show ?thesis by (auto simp: poll_status_known)
qed

text \<open>
  What the loop has done since \<open>s0\<close>: it has sent no signal yet, or SIGTERM for a reason it had
  seen and is waiting for the grace period, or SIGTERM and, once that period was over, SIGKILL.
\<close>

fun escalation ::
  "os \<Rightarrow> pid \<Rightarrow> u64 option \<Rightarrow> control \<Rightarrow> sys \<Rightarrow> process_outcome option \<Rightarrow> u64 option \<Rightarrow>
    (nat \<times> pid \<times> signal) list \<Rightarrow> bool" where
  "escalation os p deadline control s0 None until signals \<longleftrightarrow> until = None \<and> signals = []"
| "escalation os p deadline control s0 (Some outcome) until signals \<longleftrightarrow>
    (\<exists>n. reason_seen os deadline control (shutdown_stored s0) (observed s0) n outcome \<and>
      (let patience = add_duration (clock_at os (Suc n)) TERMINATION_GRACE in
       (case until of
          Some v \<Rightarrow> v = patience \<and> signals = [(n, p, SIGTERM)]
        | None \<Rightarrow> (\<exists>m. n < m \<and> patience \<le> clock_at os m \<and>
            signals = [(n, p, SIGTERM), (Suc m, p, SIGKILL)]))))"

definition loop_invariant ::
  "os \<Rightarrow> pid \<Rightarrow> u64 option \<Rightarrow> control \<Rightarrow> sys \<Rightarrow> loop_state \<Rightarrow> sys \<Rightarrow> bool" where
  "loop_invariant os p deadline control s0 ls s \<longleftrightarrow>
     advances s0 s \<and> shutdown_stored s = shutdown_stored s0 \<and>
     (\<forall>(n, e)\<in>set (new_effects s0 s). loop_effect p e) \<and>
     (\<forall>w. ls_status ls = Some w \<longrightarrow> w \<noteq> StillAlive \<and>
        (\<exists>k. observed s0 \<le> k \<and> k < observed s \<and> os_waitpid os k p = Inr w)) \<and>
     (\<forall>(n, q, sig)\<in>set (group_signals (new_effects s0 s)). n < observed s) \<and>
     escalation os p deadline control s0 (ls_termination ls) (ls_kill_deadline ls)
       (group_signals (new_effects s0 s))"

lemma loop_invariant_start: "loop_invariant os p deadline control s loop_start s"
  by (simp add: loop_invariant_def loop_start_def)

lemma reason_seen_mono:
  assumes "reason_seen os deadline control st a b outcome" and "a' \<le> a" and "b \<le> b'"
  shows "reason_seen os deadline control st a' b' outcome"
proof -
  obtain k where "a \<le> k" "k < b" and k: "case outcome of
          OutShutdown \<Rightarrow> os_shutdown os k \<or> st
        | OutCancelled sig \<Rightarrow> Suc k < b \<and> cancelled (control k) \<and> sig = cancel_signal (control (Suc k))
        | OutTimedOut \<Rightarrow> (\<exists>v. deadline = Some v \<and> v \<le> clock_at os k)
        | OutExited c \<Rightarrow> False
        | OutSignaled c \<Rightarrow> False"
    using assms(1) unfolding reason_seen_def by blast
  have "a' \<le> k" "k < b'" using assms \<open>a \<le> k\<close> \<open>k < b\<close> by auto
  with k assms(3) show ?thesis
    unfolding reason_seen_def by (intro exI [of _ k] conjI; cases outcome) auto
qed

lemma new_effects_same: "effects s' = effects s \<Longrightarrow> new_effects s0 s' = new_effects s0 s"
  by (simp add: new_effects_def)

lemma new_effects_one:
  "advances s0 s \<Longrightarrow> effects s' = effects s @ [x] \<Longrightarrow> new_effects s0 s' = new_effects s0 s @ [x]"
  by (auto simp: new_effects_def advances_def)

lemma advances_by:
  assumes "observed s \<le> observed s'" and "shutdown_stored s' = shutdown_stored s"
    and "effects s' = effects s @ es" and "\<And>n e. (n, e) \<in> set es \<Longrightarrow> observed s \<le> n \<and> n \<le> observed s'"
  shows "advances s s'"
  using assms unfolding advances_def by auto

lemma advancesD: "advances s s' \<Longrightarrow> observed s \<le> observed s'"
  by (simp add: advances_def)

lemma loop_invariant_frame:
  assumes inv: "loop_invariant os p deadline control s0 ls s"
    and same: "advances s s'" "effects s' = effects s" "shutdown_stored s' = shutdown_stored s"
    and st: "ls_termination ls' = ls_termination ls" "ls_kill_deadline ls' = ls_kill_deadline ls"
    and w: "\<And>w. ls_status ls' = Some w \<Longrightarrow> ls_status ls = Some w \<or> w \<noteq> StillAlive \<and>
        os_waitpid os (observed s) p = Inr w \<and> observed s < observed s'"
  shows "loop_invariant os p deadline control s0 ls' s'"
proof -
  note i = inv [unfolded loop_invariant_def]
  have "advances s0 s'" using i same(1) by (blast intro: advances_trans)
  moreover have "w \<noteq> StillAlive \<and> (\<exists>k. observed s0 \<le> k \<and> k < observed s' \<and> os_waitpid os k p = Inr w)"
    if s: "ls_status ls' = Some w" for w
    using w [OF s]
  proof
    assume "ls_status ls = Some w"
    with i have "w \<noteq> StillAlive" "\<exists>k. observed s0 \<le> k \<and> k < observed s \<and> os_waitpid os k p = Inr w"
      by blast+
    with advancesD [OF same(1)] show ?thesis by (meson less_le_trans)
  next
    assume "w \<noteq> StillAlive \<and> os_waitpid os (observed s) p = Inr w \<and> observed s < observed s'"
    with i show ?thesis by (auto dest: advancesD)
  qed
  moreover have "\<forall>(n, q, sig)\<in>set (group_signals (new_effects s0 s')). n < observed s'"
    using i advancesD [OF same(1)] new_effects_same [OF same(2)] by fastforce
  ultimately show ?thesis
    using i same st unfolding loop_invariant_def by (simp add: new_effects_same [OF same(2)])
qed

lemma loop_invariant_signal:
  assumes inv: "loop_invariant os p deadline control s0 ls s"
    and later: "observed s \<le> n" "n < observed s'" "shutdown_stored s' = shutdown_stored s"
    and eff: "effects s' = effects s @ [(n, KillGroup p sig)]"
    and st: "ls_status ls' = ls_status ls"
    and esc: "escalation os p deadline control s0 (ls_termination ls') (ls_kill_deadline ls')
        (group_signals (new_effects s0 s) @ [(n, p, sig)])"
  shows "loop_invariant os p deadline control s0 ls' s'"
proof -
  note i = inv [unfolded loop_invariant_def]
  have a: "advances s s'"
    by (rule advances_by [OF _ _ eff]) (use later in auto)
  have e: "new_effects s0 s' = new_effects s0 s @ [(n, KillGroup p sig)]"
    using new_effects_one [OF _ eff] i by blast
  have "advances s0 s'" using i a by (blast intro: advances_trans)
  moreover have "w \<noteq> StillAlive \<and> (\<exists>k. observed s0 \<le> k \<and> k < observed s' \<and> os_waitpid os k p = Inr w)"
    if "ls_status ls' = Some w" for w
    using that i st advancesD [OF a] by (metis less_le_trans)
  moreover have "\<forall>(n, q, sig)\<in>set (group_signals (new_effects s0 s')). n < observed s'"
    using i advancesD [OF a] later e by fastforce
  moreover have "\<forall>(n, e)\<in>set (new_effects s0 s'). loop_effect p e"
    using i e by (auto simp: loop_effect_def)
  ultimately show ?thesis
    using i later esc e unfolding loop_invariant_def by simp
qed

lemma loop_invariant_escalate:
  assumes inv: "loop_invariant os p deadline control s0 ls s"
    and run: "escalate os p deadline control ls s = (r, s')"
  obtains ls' where "loop_invariant os p deadline control s0 ls' s'"
    and "is_ok r \<Longrightarrow> r = Inr ls'" and "ls_status ls' = ls_status ls"
  using run
proof (cases rule: escalate_cases)
  case idle
  then show thesis using loop_invariant_frame [OF inv] that by simp
next
  case (warned n reason)
  note i = inv [unfolded loop_invariant_def]
  have r: "reason_seen os deadline control (shutdown_stored s0) (observed s0) n reason"
    using reason_seen_mono [OF warned(4), of "observed s0" n] i by (auto dest: advancesD)
  have "group_signals (new_effects s0 s) = []" using i warned(1) by simp
  with r warned show thesis
    by (intro that [OF loop_invariant_signal [OF inv _ _ _ warned(5)], of "ls\<lparr>ls_termination := Some reason,
        ls_kill_deadline := Some (add_duration (clock_at os (Suc n)) TERMINATION_GRACE)\<rparr>"])
      (auto simp: Let_def)
next
  case (killed n v)
  note i = inv [unfolded loop_invariant_def]
  obtain o' where o': "ls_termination ls = Some o'" using killed by auto
  obtain m where m: "reason_seen os deadline control (shutdown_stored s0) (observed s0) m o'"
    "v = add_duration (clock_at os (Suc m)) TERMINATION_GRACE"
    "group_signals (new_effects s0 s) = [(m, p, SIGTERM)]"
    using i o' killed(2) by (auto simp: Let_def)
  then have "m < observed s" using i by simp
  with m o' killed show thesis
    by (intro that [OF loop_invariant_signal [OF inv _ _ _ killed(6)], of "ls\<lparr>ls_kill_deadline := None\<rparr>"])
      (auto simp: Let_def)
qed

lemma loop_sleep_eq:
  "loop_sleep os deadline s = s' \<Longrightarrow> advances s s' \<and> observed s < observed s' \<and>
    shutdown_stored s' = shutdown_stored s \<and>
    (\<exists>n d. n < observed s' \<and> observed s \<le> n \<and> effects s' = effects s @ [(n, Sleep d)])"
  by (auto simp: loop_sleep_def Let_def split: if_splits intro: advances_by)

text \<open>A round either goes on, or ends with a result for these reasons.\<close>

definition loop_result ::
  "os \<Rightarrow> pid \<Rightarrow> u64 option \<Rightarrow> control \<Rightarrow> (nat \<Rightarrow> bool) \<Rightarrow> sys \<Rightarrow> process_outcome \<Rightarrow> sys \<Rightarrow> bool" where
  "loop_result os p deadline control closed s0 outcome s \<longleftrightarrow>
     (\<exists>ls w. loop_invariant os p deadline control s0 ls s \<and> ls_status ls = Some w \<and>
        (case ls_termination ls of
           None \<Rightarrow> outcome = map_wait_status w
         | Some o' \<Rightarrow> outcome = o' \<and> (\<exists>n\<ge>observed s0. os_kill_zero os n p = Some ESRCH)) \<and>
        (\<exists>n\<ge>observed s0. closed n \<or> os_shutdown os n \<or> shutdown_stored s0))"

lemma loop_invariant_sleep:
  assumes inv: "loop_invariant os p deadline control s0 ls s"
  shows "loop_invariant os p deadline control s0 ls (loop_sleep os deadline s)"
    and "observed s < observed (loop_sleep os deadline s)"
proof -
  obtain s' where s': "loop_sleep os deadline s = s'" by simp
  obtain n d where n: "n < observed s'" "observed s \<le> n" "effects s' = effects s @ [(n, Sleep d)]"
    using loop_sleep_eq [OF s'] by blast
  note i = inv [unfolded loop_invariant_def]
  have e: "new_effects s0 s' = new_effects s0 s @ [(n, Sleep d)]"
    using new_effects_one [OF _ n(3)] i by blast
  have "group_signals (new_effects s0 s') = group_signals (new_effects s0 s)" by (simp add: e)
  moreover have "w \<noteq> StillAlive \<and> (\<exists>k. observed s0 \<le> k \<and> k < observed s' \<and> os_waitpid os k p = Inr w)"
    if "ls_status ls = Some w" for w
    using that i n by (metis le_less_trans less_trans)
  moreover have "\<forall>(n, q, sig)\<in>set (group_signals (new_effects s0 s)). n < observed s'"
    using i n by fastforce
  ultimately show "loop_invariant os p deadline control s0 ls (loop_sleep os deadline s)"
    "observed s < observed (loop_sleep os deadline s)"
    using i e loop_sleep_eq [OF s'] s' unfolding loop_invariant_def
    by (auto simp: loop_effect_def intro: advances_trans)
qed

lemma wait_step_cases:
  assumes inv: "loop_invariant os p deadline control s0 ls s"
    and run: "wait_step os p deadline control closed ls s = (r, s')"
  shows "(case r of
      Inl e \<Rightarrow> \<exists>ls'. loop_invariant os p deadline control s0 ls' s'
    | Inr (Inl ls') \<Rightarrow> loop_invariant os p deadline control s0 ls' s' \<and> observed s < observed s'
    | Inr (Inr outcome) \<Rightarrow> loop_result os p deadline control closed s0 outcome s')"
proof -
  obtain r1 s1 where poll: "poll_status os p (ls_status ls) s = (r1, s1)" by fastforce
  note pc = poll_status_cases [OF poll]
  have a1: "observed s \<le> observed s1" using pc by (auto dest: advancesD)
  show ?thesis
  proof (cases r1)
    case (Inl e)
    with pc have "loop_invariant os p deadline control s0 ls s1"
      by (intro loop_invariant_frame [OF inv]) auto
    with run poll Inl show ?thesis by (auto simp: wait_step_def and_then_def)
  next
    case (Inr st)
    let ?ls = "ls\<lparr>ls_status := st\<rparr>"
    have inv1: "loop_invariant os p deadline control s0 ?ls s1"
      using pc Inr by (intro loop_invariant_frame [OF inv]) auto
    obtain r2 s2 where esc: "escalate os p deadline control ?ls s1 = (r2, s2)" by fastforce
    obtain ls2 where inv2: "loop_invariant os p deadline control s0 ls2 s2"
      and ls2: "is_ok r2 \<Longrightarrow> r2 = Inr ls2" "ls_status ls2 = st"
      by (rule loop_invariant_escalate [OF inv1 esc]) auto
    have a2: "observed s1 \<le> observed s2"
      using esc by (cases rule: escalate_cases) (auto dest: advancesD)
    show ?thesis
    proof (cases r2)
      case (Inl e)
      with run poll esc Inr inv2 show ?thesis by (auto simp: wait_step_def and_then_def)
    next
      case r2: (Inr x)
      with ls2 have x: "x = ls2" by simp
      obtain r3 s3 where compl: "completion os p closed ls2 s2 = (r3, s3)" by fastforce
      note cc = completion_cases [OF compl]
      have inv3: "loop_invariant os p deadline control s0 ls2 s3"
        using cc by (intro loop_invariant_frame [OF inv2]) auto
      have start: "observed s0 \<le> observed s2" "shutdown_stored s2 = shutdown_stored s0"
        using inv2 unfolding loop_invariant_def by (auto dest: advancesD)
      have step: "wait_step os p deadline control closed ls s =
          (case r3 of Inl e \<Rightarrow> (Inl e, s3) | Inr None \<Rightarrow> (Inr (Inl ls2), loop_sleep os deadline s3)
           | Inr (Some outcome) \<Rightarrow> (Inr (Inr outcome), s3))"
        using poll esc Inr r2 x compl
        by (auto simp: wait_step_def and_then_def pure_act_def split: sum.splits option.splits)
      consider (err) e where "r3 = Inl e" | (more) "r3 = Inr None"
        | (finished) outcome where "r3 = Inr (Some outcome)"
        by (cases r3) auto
      then show ?thesis
      proof cases
        case err
        with step run inv3 show ?thesis by auto
      next
        case more
        with step run loop_invariant_sleep [OF inv3] a1 a2 advancesD [of s2 s3] cc show ?thesis by auto
      next
        case finished
        with cc obtain w where w: "ls_status ls2 = Some w"
          "case ls_termination ls2 of None \<Rightarrow> outcome = map_wait_status w
             | Some o' \<Rightarrow> outcome = o' \<and> (\<exists>n\<ge>observed s2. os_kill_zero os n p = Some ESRCH)"
          and e: "\<exists>n\<ge>observed s2. closed n \<or> os_shutdown os n \<or> shutdown_stored s2"
          by blast
        have "loop_result os p deadline control closed s0 outcome s3"
          unfolding loop_result_def
        proof (rule exI [of _ ls2], rule exI [of _ w], intro conjI)
          show "case ls_termination ls2 of None \<Rightarrow> outcome = map_wait_status w
             | Some o' \<Rightarrow> outcome = o' \<and> (\<exists>n\<ge>observed s0. os_kill_zero os n p = Some ESRCH)"
            using w(2) start by (auto split: option.splits intro: le_trans)
          show "loop_invariant os p deadline control s0 ls2 s3" "ls_status ls2 = Some w"
            by (fact inv3, fact w(1))
          obtain n where "observed s2 \<le> n" "closed n \<or> os_shutdown os n \<or> shutdown_stored s2"
            using e by blast
          with start have "observed s0 \<le> n \<and> (closed n \<or> os_shutdown os n \<or> shutdown_stored s0)"
            by auto
          then show "\<exists>n\<ge>observed s0. closed n \<or> os_shutdown os n \<or> shutdown_stored s0" by blast
        qed
        with step run finished show ?thesis by auto
      qed
    qed
  qed
qed

text \<open>The rule of the loop: whatever it returns satisfies this.\<close>

lemma wait_inner_raw:
  assumes returns: "wait_inner os p deadline control closed ls s = Some x"
    and inv: "loop_invariant os p deadline control s0 ls s"
  shows "case fst x of
      Inl e \<Rightarrow> \<exists>ls'. loop_invariant os p deadline control s0 ls' (snd x)
    | Inr outcome \<Rightarrow> loop_result os p deadline control closed s0 outcome (snd x)"
proof -
  have "loop_invariant os p deadline control s0 ls s \<longrightarrow> (case fst x of
      Inl e \<Rightarrow> \<exists>ls'. loop_invariant os p deadline control s0 ls' (snd x)
    | Inr outcome \<Rightarrow> loop_result os p deadline control closed s0 outcome (snd x))"
  proof (rule wait_inner.raw_induct [OF _ returns, where P = "\<lambda>os p deadline control closed ls s x.
      loop_invariant os p deadline control s0 ls s \<longrightarrow> (case fst x of
        Inl e \<Rightarrow> \<exists>ls'. loop_invariant os p deadline control s0 ls' (snd x)
      | Inr outcome \<Rightarrow> loop_result os p deadline control closed s0 outcome (snd x))"])
    fix rec os p deadline control closed ls s x
    assume IH: "\<And>os p deadline control closed ls s x. rec os p deadline control closed ls s = Some x \<Longrightarrow>
        loop_invariant os p deadline control s0 ls s \<longrightarrow> (case fst x of
          Inl e \<Rightarrow> \<exists>ls'. loop_invariant os p deadline control s0 ls' (snd x)
        | Inr outcome \<Rightarrow> loop_result os p deadline control closed s0 outcome (snd x))"
      and body: "(case wait_step os p deadline control closed ls s of
        (r, s') \<Rightarrow>
          (case r of
             Inl e \<Rightarrow> Some (Inl e, s')
           | Inr next \<Rightarrow>
               (case next of
                  Inr outcome \<Rightarrow> Some (Inr outcome, s')
                | Inl ls' \<Rightarrow> rec os p deadline control closed ls' s'))) = Some x"
    show "loop_invariant os p deadline control s0 ls s \<longrightarrow> (case fst x of
        Inl e \<Rightarrow> \<exists>ls'. loop_invariant os p deadline control s0 ls' (snd x)
      | Inr outcome \<Rightarrow> loop_result os p deadline control closed s0 outcome (snd x))"
    proof
      assume i: "loop_invariant os p deadline control s0 ls s"
      obtain r s' where step: "wait_step os p deadline control closed ls s = (r, s')" by fastforce
      note c = wait_step_cases [OF i step]
      consider e where "r = Inl e" | ls' where "r = Inr (Inl ls')" | outcome where "r = Inr (Inr outcome)"
        by (cases r) (auto, metis sum.exhaust)
      then show "case fst x of Inl e \<Rightarrow> \<exists>ls'. loop_invariant os p deadline control s0 ls' (snd x)
        | Inr outcome \<Rightarrow> loop_result os p deadline control closed s0 outcome (snd x)"
      proof cases
        case 2
        with body step have "rec os p deadline control closed ls' s' = Some x" by simp
        from IH [OF this] c 2 show ?thesis by simp
      qed (use body step c in auto)
    qed
  qed
  with inv show ?thesis by blast
qed

lemma wait_inner_within:
  assumes "wait_inner os p deadline control closed loop_start s = Some (r, s')"
  shows "advances s s'" and "\<And>n e. (n, e) \<in> set (new_effects s s') \<Longrightarrow> loop_effect p e"
    and "shutdown_stored s' = shutdown_stored s"
  using wait_inner_raw [OF assms loop_invariant_start]
  by (auto simp: loop_invariant_def loop_result_def split: sum.splits)
section \<open>The loop ends\<close>

text \<open>The first \<open>k\<close> rounds of the loop.\<close>

fun wait_rounds ::
  "os \<Rightarrow> pid \<Rightarrow> u64 option \<Rightarrow> control \<Rightarrow> (nat \<Rightarrow> bool) \<Rightarrow> nat \<Rightarrow> loop_state \<Rightarrow>
    (loop_state + process_outcome) act" where
  "wait_rounds os p deadline control closed 0 ls = pure_act (Inr (Inl ls))"
| "wait_rounds os p deadline control closed (Suc k) ls =
     and_then (wait_rounds os p deadline control closed k ls) (\<lambda>done.
       (case done of
          Inl ls' \<Rightarrow> wait_step os p deadline control closed ls'
        | Inr outcome \<Rightarrow> pure_act (Inr (Inr outcome))))"

text \<open>The child is gone from observation \<open>N\<close> on: reaped, its group empty, its streams closed.\<close>

definition gone_from :: "os \<Rightarrow> pid \<Rightarrow> (nat \<Rightarrow> bool) \<Rightarrow> nat \<Rightarrow> bool" where
  "gone_from os p closed N \<longleftrightarrow> (\<forall>n\<ge>N. (\<exists>w. os_waitpid os n p = Inr w \<and> w \<noteq> StillAlive) \<and>
     os_kill_zero os n p = Some ESRCH \<and> closed n)"

lemma wait_inner_step:
  "wait_step os p deadline control closed ls s = (Inl e, s') \<Longrightarrow>
    wait_inner os p deadline control closed ls s = Some (Inl e, s')"
  "wait_step os p deadline control closed ls s = (Inr (Inr outcome), s') \<Longrightarrow>
    wait_inner os p deadline control closed ls s = Some (Inr outcome, s')"
  "wait_step os p deadline control closed ls s = (Inr (Inl ls'), s') \<Longrightarrow>
    wait_inner os p deadline control closed ls s = wait_inner os p deadline control closed ls' s'"
  by (subst wait_inner.simps, simp)+

lemma completion_gone:
  assumes "gone_from os p closed N" and "N \<le> observed s" and "ls_status ls = Some w"
  shows "completion os p closed ls s \<noteq> (Inr None, s')"
proof -
  have n: "closed (observed s)" "os_kill_zero os (Suc (observed s)) p = Some ESRCH"
    using assms unfolding gone_from_def by auto
  with assms(3) show ?thesis
    by (auto simp: completion_def observe_def and_then_def process_group_exists_def pure_act_def
        split: option.splits)
qed

lemma wait_step_gone:
  assumes gone: "gone_from os p closed N" and late: "N \<le> observed s"
  shows "wait_step os p deadline control closed ls s \<noteq> (Inr (Inl ls'), s')"
proof
  assume run: "wait_step os p deadline control closed ls s = (Inr (Inl ls'), s')"
  obtain st s1 where poll: "poll_status os p (ls_status ls) s = (Inr st, s1)"
    using run by (auto simp: wait_step_def result_simps)
  obtain w0 where "os_waitpid os (observed s) p = Inr w0" "w0 \<noteq> StillAlive"
    using gone late unfolding gone_from_def by blast
  then have "\<exists>w. st = Some w"
    using poll poll_status_cases [OF poll] by (cases "ls_status ls = None")
      (auto simp: poll_status_def and_then_def query_def observe_def raw_os_def pure_act_def)
  then obtain w where w: "st = Some w" by blast
  obtain ls2 s2 where esc: "escalate os p deadline control (ls\<lparr>ls_status := st\<rparr>) s1 = (Inr ls2, s2)"
    and compl: "\<exists>s3. completion os p closed ls2 s2 = (Inr None, s3)"
    using run poll by (auto simp: wait_step_def and_then_def pure_act_def
        split: prod.splits sum.splits option.splits)
  have "ls_status ls2 = Some w" "observed s1 \<le> observed s2"
    using esc w by (cases rule: escalate_cases; auto dest: advancesD)+
  moreover have "observed s \<le> observed s1" using poll_status_cases [OF poll] by (auto dest: advancesD)
  ultimately show False using completion_gone [OF gone, of s2 ls2 w] compl late by auto
qed

lemma wait_step_advances:
  assumes "wait_step os p deadline control closed ls s = (Inr (Inl ls'), s')"
    and "loop_invariant os p deadline control s0 ls s"
  shows "observed s < observed s'" and "loop_invariant os p deadline control s0 ls' s'"
  using wait_step_cases [OF assms(2,1)] by auto

lemma wait_inner_gone:
  assumes gone: "gone_from os p closed N" and inv: "loop_invariant os p deadline control s0 ls s"
  shows "\<exists>x. wait_inner os p deadline control closed ls s = Some x"
  using inv
proof (induction "N - observed s" arbitrary: ls s rule: less_induct)
  case less
  obtain r s' where step: "wait_step os p deadline control closed ls s = (r, s')" by fastforce
  consider e where "r = Inl e" | ls' where "r = Inr (Inl ls')" | outcome where "r = Inr (Inr outcome)"
    by (cases r) (auto, metis sum.exhaust)
  then show ?case
  proof cases
    case 2
    with step have step: "wait_step os p deadline control closed ls s = (Inr (Inl ls'), s')" by simp
    have "\<not> N \<le> observed s" using wait_step_gone [OF gone] step by blast
    moreover note wait_step_advances [OF step less(2)]
    ultimately show ?thesis
      using less(1) [of s' ls'] wait_inner_step(3) [OF step] by auto
  qed (use wait_inner_step [where ls = ls and s = s] step in auto)
qed

text \<open>While the loop has not returned, its rounds go on.\<close>

lemma rounds_before_return:
  assumes "wait_inner os p deadline control closed ls s = None"
    and "loop_invariant os p deadline control s0 ls s"
  shows "\<exists>ls' s'. wait_rounds os p deadline control closed k ls s = (Inr (Inl ls'), s') \<and>
    loop_invariant os p deadline control s0 ls' s' \<and> observed s + k \<le> observed s' \<and>
    wait_inner os p deadline control closed ls' s' = None"
proof (induction k)
  case 0
  with assms show ?case by (auto simp: pure_act_def)
next
  case (Suc k)
  then obtain ls1 s1 where k: "wait_rounds os p deadline control closed k ls s = (Inr (Inl ls1), s1)"
    "loop_invariant os p deadline control s0 ls1 s1" "observed s + k \<le> observed s1"
    "wait_inner os p deadline control closed ls1 s1 = None" by blast
  obtain r s' where step: "wait_step os p deadline control closed ls1 s1 = (r, s')" by fastforce
  obtain ls' where r: "r = Inr (Inl ls')"
    using k(4) step wait_inner_step(1,2) [where ls = ls1 and s = s1]
    by (cases r) (auto, metis option.simps(3) sum.exhaust)
  from wait_step_advances [OF step [unfolded r] k(2)] wait_inner_step(3) [OF step [unfolded r]] k
  show ?case by (auto simp: and_then_def step r)
qed

text \<open>A round that starts after the deadline leaves the child warned; one that starts after the
  grace period leaves it killed.\<close>

lemma termination_reason_due:
  assumes "deadline = Some d" and "\<And>n. observed s \<le> n \<Longrightarrow> d \<le> clock_at os n"
  shows "\<exists>o' s'. termination_reason os deadline control s = (Some o', s')"
  using assms by (auto simp: termination_reason_def Let_def)

lemma escalate_due:
  assumes run: "escalate os p deadline control ls s = (Inr ls', s')"
    and due: "deadline = Some d" "\<And>n. observed s \<le> n \<Longrightarrow> d \<le> clock_at os n"
  shows "ls_termination ls' \<noteq> None"
proof (cases "ls_termination ls")
  case None
  obtain o' s1 where "termination_reason os deadline control s = (Some o', s1)"
    using termination_reason_due [OF due] by blast
  with run None show ?thesis by (auto simp: escalate_def and_then_def split: prod.splits sum.splits)
next
  case (Some o')
  from run show ?thesis by (cases rule: escalate_cases) (use Some in auto)
qed

lemma escalate_patience:
  assumes run: "escalate os p deadline control ls s = (Inr ls', s')"
    and "ls_termination ls \<noteq> None"
    and "\<And>v. ls_kill_deadline ls = Some v \<Longrightarrow> v \<le> clock_at os (observed s)"
  shows "ls_kill_deadline ls' = None"
  using assms by (cases "ls_kill_deadline ls")
    (auto simp: escalate_def and_then_def pure_act_def Let_def split: prod.splits sum.splits)

lemma escalate_keeps:
  assumes "escalate os p deadline control ls s = (Inr ls', s')" and "ls_termination ls \<noteq> None"
  shows "ls_termination ls' = ls_termination ls"
    and "ls_kill_deadline ls' \<in> {ls_kill_deadline ls, None}"
  using assms by (cases rule: escalate_cases; auto)+

text \<open>What one unfinished round does to the termination and its deadline.\<close>

lemma wait_step_escalates:
  assumes run: "wait_step os p deadline control closed ls s = (Inr (Inl ls'), s')"
  obtains s1 s2 st where "observed s \<le> observed s1"
    and "escalate os p deadline control (ls\<lparr>ls_status := st\<rparr>) s1 = (Inr ls', s2)"
proof -
  obtain st s1 where poll: "poll_status os p (ls_status ls) s = (Inr st, s1)"
    using run by (auto simp: wait_step_def result_simps)
  moreover obtain ls2 s2 where esc: "escalate os p deadline control (ls\<lparr>ls_status := st\<rparr>) s1 = (Inr ls2, s2)"
    and "ls2 = ls'"
    using run poll by (auto simp: wait_step_def and_then_def pure_act_def
        split: prod.splits sum.splits option.splits)
  moreover have "observed s \<le> observed s1" using poll_status_cases [OF poll] by (auto dest: advancesD)
  ultimately show thesis using that by blast
qed

definition killed_in :: "pid \<Rightarrow> sys \<Rightarrow> sys \<Rightarrow> bool" where
  "killed_in p s s' \<longleftrightarrow> (\<exists>n. (n, p, SIGKILL) \<in> set (group_signals (new_effects s s')))"

lemma invariant_killed:
  assumes "loop_invariant os p deadline control s0 ls s" and "ls_termination ls \<noteq> None"
    and "ls_kill_deadline ls = None"
  shows "killed_in p s0 s"
  using assms by (auto simp: loop_invariant_def killed_in_def Let_def)

lemma rounds_warn:
  assumes never: "wait_inner os p (Some d) control closed loop_start s = None"
    and clock: "\<forall>n\<ge>N. d \<le> clock_at os n"
  shows "\<exists>k ls' s'. wait_rounds os p (Some d) control closed k loop_start s = (Inr (Inl ls'), s') \<and>
    ls_termination ls' \<noteq> None"
proof -
  obtain ls1 s1 where k: "wait_rounds os p (Some d) control closed N loop_start s = (Inr (Inl ls1), s1)"
    "N \<le> observed s1"
    using rounds_before_return [OF never loop_invariant_start, of N] by fastforce
  obtain ls2 s2 where step: "wait_step os p (Some d) control closed ls1 s1 = (Inr (Inl ls2), s2)"
    using rounds_before_return [OF never loop_invariant_start, of "Suc N"] k
    by (auto simp: and_then_def)
  obtain s3 s4 st where "observed s1 \<le> observed s3"
    and esc: "escalate os p (Some d) control (ls1\<lparr>ls_status := st\<rparr>) s3 = (Inr ls2, s4)"
    using wait_step_escalates [OF step] by blast
  with k(2) clock have "ls_termination ls2 \<noteq> None"
    by (intro escalate_due [OF esc refl]) auto
  with k(1) step show ?thesis by (intro exI [of _ "Suc N"]) (simp add: and_then_def)
qed

lemma rounds_kill:
  assumes never: "wait_inner os p (Some d) control closed loop_start s = None"
    and clock: "\<forall>v. \<exists>N. \<forall>n\<ge>N. v \<le> clock_at os n"
  shows "\<exists>k ls' s'. wait_rounds os p (Some d) control closed k loop_start s = (Inr (Inl ls'), s') \<and>
    killed_in p s s'"
proof -
  let ?W = "\<lambda>k. wait_rounds os p (Some d) control closed k loop_start s"
  obtain k ls1 s1 where k: "?W k = (Inr (Inl ls1), s1)" "ls_termination ls1 \<noteq> None"
    using rounds_warn [OF never] clock by blast
  note go = rounds_before_return [OF never loop_invariant_start]
  define v where "v = (case ls_kill_deadline ls1 of Some v \<Rightarrow> v | None \<Rightarrow> 0)"
  have keep: "\<exists>ls' s'. ?W (k + j) = (Inr (Inl ls'), s') \<and> ls_termination ls' \<noteq> None \<and>
      ls_kill_deadline ls' \<in> {None, Some v}" for j
  proof (induction j)
    case 0
    with k show ?case by (auto simp: v_def split: option.splits)
  next
    case (Suc j)
    then obtain ls2 s2 where j: "?W (k + j) = (Inr (Inl ls2), s2)" "ls_termination ls2 \<noteq> None"
      "ls_kill_deadline ls2 \<in> {None, Some v}" by blast
    obtain ls3 s3 where "?W (k + Suc j) = (Inr (Inl ls3), s3)" using go [of "k + Suc j"] by auto
    with j have step: "wait_step os p (Some d) control closed ls2 s2 = (Inr (Inl ls3), s3)"
      by (auto simp: and_then_def)
    obtain s4 s5 st where esc: "escalate os p (Some d) control (ls2\<lparr>ls_status := st\<rparr>) s4 = (Inr ls3, s5)"
      using wait_step_escalates [OF step] by blast
    from escalate_keeps [OF esc] j \<open>?W (k + Suc j) = _\<close> show ?case by auto
  qed
  obtain N where N: "\<forall>n\<ge>N. v \<le> clock_at os n" using clock by blast
  obtain ls2 s2 where j: "?W (k + N) = (Inr (Inl ls2), s2)" "ls_termination ls2 \<noteq> None"
    "ls_kill_deadline ls2 \<in> {None, Some v}" "N \<le> observed s2"
    using keep [of N] go [of "k + N"] by auto
  obtain ls3 s3 where w: "?W (Suc (k + N)) = (Inr (Inl ls3), s3)"
    "loop_invariant os p (Some d) control s ls3 s3" using go [of "Suc (k + N)"] by blast
  with j have step: "wait_step os p (Some d) control closed ls2 s2 = (Inr (Inl ls3), s3)"
    by (auto simp: and_then_def)
  obtain s4 s5 st where late: "observed s2 \<le> observed s4"
    and esc: "escalate os p (Some d) control (ls2\<lparr>ls_status := st\<rparr>) s4 = (Inr ls3, s5)"
    using wait_step_escalates [OF step] by blast
  have "ls_kill_deadline ls3 = None"
    using j late N by (intro escalate_patience [OF esc]) auto
  moreover have "ls_termination ls3 \<noteq> None" using escalate_keeps(1) [OF esc] j by simp
  ultimately show ?thesis using w invariant_killed by blast
qed

lemma wait_inner_ends:
  assumes clock: "\<forall>v. \<exists>N. \<forall>n\<ge>N. v \<le> clock_at os n"
    and kill: "\<And>k ls' s'. wait_rounds os p (Some d) control closed k loop_start s = (Inr (Inl ls'), s') \<Longrightarrow>
      killed_in p s s' \<Longrightarrow> \<exists>N. gone_from os p closed N"
  shows "\<exists>x. wait_inner os p (Some d) control closed loop_start s = Some x"
proof (rule ccontr)
  assume "\<nexists>x. wait_inner os p (Some d) control closed loop_start s = Some x"
  then have never: "wait_inner os p (Some d) control closed loop_start s = None"
    by (simp only: not_ex not_Some_eq)
  obtain N where "gone_from os p closed N" using rounds_kill [OF never clock] kill by blast
  from wait_inner_gone [OF this loop_invariant_start, of "Some d" control s] never show False by simp
qed

section \<open>Running a child: effects\<close>

text \<open>
  What the steps after the start may do to the world: hand the terminal over and back, let the
  child run, signal its group, reap it and sleep. None of them starts anything.
\<close>

fun after_spawn :: "effect \<Rightarrow> bool" where
  "after_spawn (SetForeground f p) = True"
| "after_spawn (Kill p sig) = (sig = SIGCONT)"
| "after_spawn (KillGroup p sig) = True"
| "after_spawn (Reap p) = True"
| "after_spawn (Sleep d) = True"
| "after_spawn _ = False"

lemma spawned_none: "\<forall>(n, e)\<in>set es. after_spawn e \<Longrightarrow> spawned es = []"
  by (induction es rule: spawned.induct) auto

text \<open>Moves of the state: an advance whose effects satisfy \<open>P\<close> and that keeps the flag.\<close>

definition moves :: "(effect \<Rightarrow> bool) \<Rightarrow> sys \<Rightarrow> sys \<Rightarrow> bool" where
  "moves P s s' \<longleftrightarrow> advances s s' \<and> (\<forall>(n, e)\<in>set (new_effects s s'). P e)"

lemma moves_refl [simp, intro]: "moves P s s"
  by (simp add: moves_def)

lemma moves_trans [trans]: "moves P s t \<Longrightarrow> moves P t u \<Longrightarrow> moves P s u"
  unfolding moves_def using new_effects_trans [of s t u] advances_trans by auto

lemma moves_mono: "moves P s t \<Longrightarrow> (\<And>e. P e \<Longrightarrow> Q e) \<Longrightarrow> moves Q s t"
  unfolding moves_def by auto

lemma moves_within: "acts_within P m \<Longrightarrow> m s = (r, s') \<Longrightarrow> moves P s s'"
  unfolding moves_def acts_within_def by blast

lemma moves_call: "P e \<Longrightarrow> moves P s (snd (call_os os e s))"
  by (auto simp: moves_def call_os_def)

lemma moves_foreground: "foreground os t p s = (r, s') \<Longrightarrow> moves after_spawn s s'"
  by (rule moves_within [of _ "foreground os t p"])
    (auto simp: foreground_def intro!: within)

lemma moves_restore_foreground: "restore_foreground os t s = (r, s') \<Longrightarrow> moves after_spawn s s'"
  unfolding restore_foreground_def by (rule moves_foreground)

lemma moves_kill_and_reap: "moves after_spawn s (kill_and_reap os p s)"
  unfolding kill_and_reap_def Let_def
  by (rule moves_trans; rule moves_call) auto

lemma moves_wait_inner:
  "wait_inner os p deadline control closed loop_start s = Some (r, s') \<Longrightarrow> moves after_spawn s s'"
  using wait_inner_within [of os p deadline control closed s r s']
  unfolding moves_def by (fastforce simp: loop_effect_def)

lemma moves_supervise:
  assumes run: "supervise os t p (wait_inner os p deadline control closed loop_start) s = Some (r, s')"
  shows "moves after_spawn s s'"
proof -
  obtain r1 s1 where fg: "foreground os t p s = (r1, s1)" by fastforce
  note m1 = moves_foreground [OF fg]
  show ?thesis
  proof (cases r1)
    case (Inl e)
    with run fg m1 show ?thesis
      by (auto simp: supervise_def intro: moves_trans [OF _ moves_kill_and_reap])
  next
    case (Inr u)
    then have ok1: "r1 = Inr ()" by simp
    obtain r2 s2 where cont: "call_os os (Kill p SIGCONT) s1 = (r2, s2)" by fastforce
    have m2: "moves after_spawn s s2"
      using moves_trans [OF m1 moves_call [of after_spawn "Kill p SIGCONT" s1 os]] cont
      by simp
    show ?thesis
    proof (cases r2)
      case (Inl e)
      obtain r3 s3 where rf: "restore_foreground os t (kill_and_reap os p s2) = (r3, s3)" by fastforce
      have "s' = s3" using run by (simp add: supervise_def fg cont Inl ok1 rf)
      with moves_trans [OF m2 moves_trans [OF moves_kill_and_reap moves_restore_foreground [OF rf]]]
      show ?thesis by simp
    next
      case (Inr u2)
      then have ok2: "r2 = Inr ()" by simp
      obtain outcome s3 where w: "wait_inner os p deadline control closed loop_start s2 = Some (outcome, s3)"
        using run by (auto simp: supervise_def fg cont ok1 ok2 split: option.splits)
      define s4 where "s4 = (if is_ok outcome then s3 else kill_and_reap os p s3)"
      obtain r5 s5 where rf: "restore_foreground os t s4 = (r5, s5)" by fastforce
      have "s' = s5"
        using run rf
        by (cases outcome; cases r5) (auto simp: supervise_def s4_def Let_def fg cont ok1 ok2 w)
      have "moves after_spawn s s3" using m2 moves_wait_inner [OF w] by (rule moves_trans)
      then have "moves after_spawn s s4"
        using moves_trans [OF _ moves_kill_and_reap] by (auto simp: s4_def)
      from moves_trans [OF this moves_restore_foreground [OF rf]] \<open>s' = s5\<close> show ?thesis by simp
    qed
  qed
qed

text \<open>
  The contract of running one child described by \<open>call\<close>: at most that child is started, exactly
  it when an outcome is reported, and everything else only supervises it.
\<close>

definition runs_child :: "spawn_call \<Rightarrow> 'a io_result \<Rightarrow> sys \<Rightarrow> sys \<Rightarrow> bool" where
  "runs_child call r s s' \<longleftrightarrow>
     moves (\<lambda>e. e = PosixSpawn call \<or> after_spawn e) s s' \<and>
     (spawned (new_effects s s') = [call] \<or> \<not> is_ok r \<and> spawned (new_effects s s') = [])"

lemma moves_silent: "advances s s' \<Longrightarrow> new_effects s s' = [] \<Longrightarrow> moves P s s'"
  by (simp add: moves_def)

lemma moves_spawned: "moves after_spawn s s' \<Longrightarrow> spawned (new_effects s s') = []"
  unfolding moves_def by (blast intro: spawned_none)

lemma moves_new_effects:
  "moves P s t \<Longrightarrow> moves Q t u \<Longrightarrow> new_effects s u = new_effects s t @ new_effects t u"
  unfolding moves_def by (blast intro: new_effects_trans)

lemma runs_child_spawn:
  fixes cont :: "pid \<Rightarrow> sys \<Rightarrow> ('a io_result \<times> sys) option"
  assumes run: "(case spawn_suspended os input s of
        (Inl e, s1) \<Rightarrow> Some (Inl e, s1)
      | (Inr p, s1) \<Rightarrow> cont p s1) = Some (r, s')"
    and cont: "\<And>p s1. cont p s1 = Some (r, s') \<Longrightarrow> moves after_spawn s1 s'"
  shows "runs_child (spawn_of input) r s s'"
proof -
  obtain r1 s1 where sp: "spawn_suspended os input s = (r1, s1)" by fastforce
  from sp show ?thesis
  proof (cases rule: spawn_suspended_cases)
    case refused
    with run sp show ?thesis by (auto simp: runs_child_def moves_silent)
  next
    case (called s0)
    have n1: "new_effects s s1 = [(observed s0, PosixSpawn (spawn_of input))]"
      using called by simp
    have m1: "moves (\<lambda>e. e = PosixSpawn (spawn_of input) \<or> after_spawn e) s s1"
      using called n1 by (auto simp: moves_def intro: advances_trans)
    show ?thesis
    proof (cases r1)
      case (Inl e)
      with run sp n1 m1 show ?thesis by (auto simp: runs_child_def)
    next
      case (Inr p)
      with run sp have m2: "moves after_spawn s1 s'" by (auto intro: cont)
      then have "moves (\<lambda>e. e = PosixSpawn (spawn_of input) \<or> after_spawn e) s1 s'"
        by (rule moves_mono) simp
      with moves_trans [OF m1 this] moves_new_effects [OF m1 m2] moves_spawned [OF m2] n1
      show ?thesis by (simp add: runs_child_def)
    qed
  qed
qed

lemma runs_child_prefix:
  assumes "moves (\<lambda>_. False) s s1" and "runs_child call r s1 s'"
  shows "runs_child call r s s'"
proof -
  have "new_effects s s1 = []" "advances s s1"
    using assms(1) by (cases "new_effects s s1"; auto simp: moves_def)+
  with assms(2) moves_trans [of _ s s1 s'] new_effects_trans [of s s1 s'] show ?thesis
    by (auto simp: runs_child_def moves_silent) (auto simp: moves_def)
qed

definition child_input ::
  "bytes \<Rightarrow> bytes list \<Rightarrow> client_context \<Rightarrow> env_vars \<Rightarrow> fd \<times> fd \<times> fd \<Rightarrow> spawn_input" where
  "child_input executable arguments context vars descriptors =
     \<lparr>si_executable = executable, si_arguments = arguments, si_environment = vars,
      si_cwd = cwd context, si_stdio = descriptors\<rparr>"

lemma run_runs_child:
  assumes "runner_run os executable t arguments context vars descriptors deadline control s = Some (r, s')"
  shows "runs_child (spawn_of (child_input executable arguments context vars descriptors)) r s s'"
  using assms unfolding runner_run_def child_input_def
  by (rule runs_child_spawn) (rule moves_supervise)

lemma silent_probe_pipes: "silent (probe_pipes os)"
  unfolding probe_pipes_def
  by (auto intro!: within split: prod.splits) (auto simp: acts_within_def observe_def)

lemma probe_runs_child:
  assumes "runner_probe os executable t arguments context vars deadline control s = Some (r, s')"
  shows "(\<not> is_ok r \<and> moves (\<lambda>_. False) s s') \<or>
    (\<exists>descriptors. runs_child (spawn_of (child_input executable arguments context vars descriptors)) r s s')"
proof -
  obtain r1 s1 where pipes: "probe_pipes os s = (r1, s1)" by fastforce
  have m: "moves (\<lambda>_. False) s s1" by (rule moves_within [OF silent_probe_pipes pipes])
  show ?thesis
  proof (cases r1)
    case (Inl e)
    with assms pipes m show ?thesis by (auto simp: runner_probe_def)
  next
    case (Inr descriptors)
    have "runs_child (spawn_of (child_input executable arguments context vars descriptors)) r s1 s'"
      using assms pipes Inr unfolding runner_probe_def child_input_def
      by simp (erule runs_child_spawn, rule moves_supervise)
    with runs_child_prefix [OF m] show ?thesis by blast
  qed
qed

lemma supervise_parts:
  assumes "supervise os t p wait s = Some (Inr outcome, s')"
  obtains s2 s3 where "wait s2 = Some (Inr outcome, s3)" and "moves after_spawn s s2"
    and "moves after_spawn s3 s'"
proof -
  obtain r1 s1 where fg: "foreground os t p s = (r1, s1)" by fastforce
  obtain r2 s2 where cont: "call_os os (Kill p SIGCONT) s1 = (r2, s2)" by fastforce
  have "is_ok r1" using assms by (cases r1) (simp_all add: supervise_def fg)
  then have ok1: "r1 = Inr ()" by (cases r1) simp_all
  have "is_ok r2" using assms by (cases r2) (simp_all add: supervise_def fg cont ok1)
  then have ok2: "r2 = Inr ()" by (cases r2) simp_all
  have before: "moves after_spawn s s2"
    using moves_trans [OF moves_foreground [OF fg] moves_call [of after_spawn "Kill p SIGCONT" s1 os]] cont
    by simp
  obtain r3 s3 where w: "wait s2 = Some (r3, s3)"
    using assms by (cases "wait s2") (auto simp: supervise_def fg cont ok1 ok2)
  obtain r4 s4 where rf: "restore_foreground os t s3 = (r4, s4)" by fastforce
  have r3: "is_ok r3"
    using assms by (cases r3) (auto simp: supervise_def fg cont ok1 ok2 w Let_def split: prod.splits)
  then have "r3 = Inr outcome" "s' = s4"
    using assms rf by (cases r3; cases r4; simp add: supervise_def fg cont ok1 ok2 w)+
  with w that [OF _ before, of s3] moves_restore_foreground [OF rf] show thesis by simp
qed

text \<open>
  \<open>child_exited os call code s s'\<close>: between \<open>s\<close> and \<open>s'\<close> the child described by \<open>call\<close> was started,
  and the child of that start was later reaped with exit code \<open>code\<close>.
\<close>

definition child_exited :: "os \<Rightarrow> spawn_call \<Rightarrow> i32 \<Rightarrow> sys \<Rightarrow> sys \<Rightarrow> bool" where
  "child_exited os call code s s' \<longleftrightarrow>
     (\<exists>n k p q. (n, PosixSpawn call) \<in> set (new_effects s s') \<and> os_posix_spawn os n call = Inr p \<and>
        observed s \<le> n \<and> n < k \<and> k < observed s' \<and> os_waitpid os k p = Inr (Exited q code))"

lemma child_exited_mono:
  assumes "child_exited os call code s t" and "moves P r s" and "moves Q t u"
  shows "child_exited os call code r u"
proof -
  have a: "advances r s" "advances t u" using assms by (auto simp: moves_def)
  obtain n k p q where n: "(n, PosixSpawn call) \<in> set (new_effects s t)"
    "os_posix_spawn os n call = Inr p" "observed s \<le> n" "n < k" "k < observed t"
    "os_waitpid os k p = Inr (Exited q code)" using assms(1) by (auto simp: child_exited_def)
  obtain es fs where e: "effects u = effects t @ es" "effects s = effects r @ fs"
    using a by (auto simp: advances_def)
  have "set (drop (length (effects r) + length fs) (effects t)) \<subseteq> set (drop (length (effects r)) (effects t))"
    by (rule set_drop_subset_set_drop) simp
  with e have "set (new_effects s t) \<subseteq> set (new_effects r u)" by (auto simp: new_effects_def)
  with n a show ?thesis unfolding child_exited_def
    by (intro exI [of _ n] exI [of _ k] exI [of _ p] exI [of _ q]) (auto dest!: advancesD)
qed

lemma map_wait_status_exited: "map_wait_status w = OutExited c \<longleftrightarrow> (\<exists>q. w = Exited q c)"
  by (cases w) auto

lemma wait_inner_exited:
  assumes "wait_inner os p deadline control closed loop_start s = Some (Inr (OutExited c), s')"
  shows "\<exists>k q. observed s \<le> k \<and> k < observed s' \<and> os_waitpid os k p = Inr (Exited q c) \<and>
    group_signals (new_effects s s') = []"
proof -
  obtain ls w where inv: "loop_invariant os p deadline control s ls s'" and w: "ls_status ls = Some w"
    and o': "case ls_termination ls of None \<Rightarrow> OutExited c = map_wait_status w
         | Some o' \<Rightarrow> OutExited c = o' \<and> (\<exists>n\<ge>observed s. os_kill_zero os n p = Some ESRCH)"
    using wait_inner_raw [OF assms loop_invariant_start] by (auto simp: loop_result_def)
  note i = inv [unfolded loop_invariant_def]
  have none: "ls_termination ls = None"
  proof (rule ccontr)
    assume "ls_termination ls \<noteq> None"
    with o' have "ls_termination ls = Some (OutExited c)" by (auto split: option.splits)
    with i show False by (auto simp: reason_seen_def)
  qed
  with o' have "map_wait_status w = OutExited c" by simp
  then obtain q where "w = Exited q c" by (auto simp: map_wait_status_exited)
  with i none w show ?thesis by auto
qed

lemma run_spawn_exited:
  assumes run: "(case spawn_suspended os input s of
        (Inl e, s1) \<Rightarrow> Some (Inl e, s1)
      | (Inr p, s1) \<Rightarrow>
          supervise os t p (wait_inner os p deadline control closed loop_start) s1)
      = Some (Inr (OutExited c), s')"
  shows "child_exited os (spawn_of input) c s s'"
proof -
  obtain r1 s1 where sp: "spawn_suspended os input s = (r1, s1)" by fastforce
  with run obtain p where p: "r1 = Inr p" by (cases r1) auto
  from sp obtain s0 where s0: "advances s s0" "new_effects s s0 = []"
    "os_posix_spawn os (observed s0) (spawn_of input) = Inr p"
    "s1 = tick (emit (PosixSpawn (spawn_of input)) s0)"
  proof (cases rule: spawn_suspended_cases)
    case (called s0)
    with p have "raw_os (os_posix_spawn os (observed s0) (spawn_of input)) = Inr p" by simp
    with called show thesis by (intro that [of s0]) (simp_all add: result_simps)
  qed (simp add: p)
  have sup: "supervise os t p (wait_inner os p deadline control closed loop_start) s1
      = Some (Inr (OutExited c), s')" using run sp p by simp
  obtain s2 s3 where w: "wait_inner os p deadline control closed loop_start s2 = Some (Inr (OutExited c), s3)"
    and m: "moves after_spawn s1 s2" "moves after_spawn s3 s'"
    by (rule supervise_parts [OF sup])
  obtain k q where k: "observed s2 \<le> k" "k < observed s3" "os_waitpid os k p = Inr (Exited q c)"
    using wait_inner_exited [OF w] by blast
  have a: "advances s1 s'"
    using moves_supervise [OF sup] by (simp add: moves_def)
  have o': "observed s0 < observed s1" "observed s1 \<le> observed s2" "observed s3 \<le> observed s'"
    using s0(4) m by (auto simp: moves_def dest: advancesD)
  have "new_effects s s' = (observed s0, PosixSpawn (spawn_of input)) # new_effects s1 s'"
    using new_effects_trans [of s s1 s'] a s0 by (auto intro: advances_trans)
  then show ?thesis
    unfolding child_exited_def using s0 k o' 
    by (intro exI [of _ "observed s0"] exI [of _ k] exI [of _ p] exI [of _ q]) (auto dest: advancesD)
qed

lemma run_exited:
  assumes "runner_run os executable t arguments context vars descriptors deadline control s
    = Some (Inr (OutExited c), s')"
  shows "child_exited os (spawn_of (child_input executable arguments context vars descriptors)) c s s'"
  using assms unfolding runner_run_def child_input_def by (rule run_spawn_exited)

text \<open>A probe, whole: no child at all, or the one child of a triple of pipes.\<close>

lemma probe_cases:
  assumes run: "runner_probe os executable t arguments context vars deadline control s = Some (r, s')"
  obtains (unstarted) "\<not> is_ok r" and "moves (\<lambda>_. False) s s'"
  | (child) descriptors where
      "runs_child (spawn_of (child_input executable arguments context vars descriptors)) r s s'"
      and "\<And>c. r = Inr (OutExited c) \<Longrightarrow>
        child_exited os (spawn_of (child_input executable arguments context vars descriptors)) c s s'"
proof -
  obtain r1 s1 where pipes: "probe_pipes os s = (r1, s1)" by fastforce
  have m: "moves (\<lambda>_. False) s s1" by (rule moves_within [OF silent_probe_pipes pipes])
  show thesis
  proof (cases r1)
    case (Inl e)
    with run pipes have "r = Inl e" "s' = s1" by (simp_all add: runner_probe_def)
    with m unstarted show thesis by simp
  next
    case (Inr descriptors)
    let ?input = "child_input executable arguments context vars descriptors"
    have sp: "(case spawn_suspended os ?input s1 of
        (Inl e, s1) \<Rightarrow> Some (Inl e, s1)
      | (Inr p, s2) \<Rightarrow> supervise os t p
            (wait_inner os p (Some deadline) control (os_probe_closed os) loop_start) s2) = Some (r, s')"
      using run pipes Inr by (simp add: runner_probe_def child_input_def)
    have "runs_child (spawn_of ?input) r s1 s'"
      using sp by (rule runs_child_spawn) (rule moves_supervise)
    then have "runs_child (spawn_of ?input) r s s'" by (rule runs_child_prefix [OF m])
    moreover have "child_exited os (spawn_of ?input) c s s'" if "r = Inr (OutExited c)" for c
      using child_exited_mono [OF run_spawn_exited [OF sp [unfolded that]] m moves_refl] .
    ultimately show thesis by (rule child)
  qed
qed
section \<open>Properties\<close>

text \<open>How the examples below are evaluated.\<close>

lemmas wait_eval = wait_inner.simps wait_step_def poll_status_def escalate_def termination_reason_def
  terminate_group_def process_group_exists_def completion_def loop_sleep_def sleep_interval_def
  and_then_def pure_act_def query_def observe_def raw_os_def raw_unit_def call_os_def loop_start_def
  clock_at_calm unat_add_duration word_le_nat_alt TERMINATION_GRACE_def from_secs_def new_effects_def

lemma stubborn_simps [simp]:
  "os_shutdown (stubborn k) n = False" "os_call (stubborn k) n e = None"
  "os_waitpid (stubborn k) n p = (if n < k then Inr StillAlive else Inr (Exited p 0))"
  "os_kill_zero (stubborn k) n p = (if n < k then None else Some ESRCH)"
  by (simp_all add: stubborn_def calm_def)

lemma stubborn_run:
  "\<exists>s'. wait_inner (stubborn 12) 100 (Some 1) at_ease (\<lambda>n. True) loop_start boot = Some (Inr OutTimedOut, s') \<and>
     group_signals (new_effects boot s') = [(4, 100, SIGTERM), (10, 100, SIGKILL)]"
  by (simp add: wait_eval)

lemma invariant_signals:
  assumes "loop_invariant os p deadline control s0 ls s"
  defines "signals \<equiv> group_signals (new_effects s0 s)"
  shows "signals = [] \<or>
    (\<exists>n reason. reason_seen os deadline control (shutdown_stored s0) (observed s0) n reason \<and>
      (signals = [(n, p, SIGTERM)] \<or>
       (\<exists>m>n. add_duration (clock_at os (Suc n)) TERMINATION_GRACE \<le> clock_at os m \<and>
         signals = [(n, p, SIGTERM), (Suc m, p, SIGKILL)])))"
proof (cases "ls_termination ls")
  case None
  with assms show ?thesis by (simp add: loop_invariant_def)
next
  case (Some reason)
  with assms obtain n where n: "reason_seen os deadline control (shutdown_stored s0) (observed s0) n reason"
    "case ls_kill_deadline ls of
       Some v \<Rightarrow> signals = [(n, p, SIGTERM)]
     | None \<Rightarrow> (\<exists>m. n < m \<and> add_duration (clock_at os (Suc n)) TERMINATION_GRACE \<le> clock_at os m \<and>
         signals = [(n, p, SIGTERM), (Suc m, p, SIGKILL)])"
    by (auto simp: loop_invariant_def Let_def split: option.splits)
  then show ?thesis by (cases "ls_kill_deadline ls") auto
qed

text \<open>
  C14: Escalation. Whatever the polling loop returns, the signals it has sent to the child's process
  group are: none; or one SIGTERM, sent after the loop had seen a reason (shutdown, cancellation,
  or the deadline passed); or that SIGTERM followed by one SIGKILL, sent only after a clock reading
  at or past the grace period counted from the clock reading right after the SIGTERM.
\<close>

theorem wait_escalation:
  assumes "wait_inner os p deadline control closed loop_start s = Some (r, s')"
  shows "group_signals (new_effects s s') = [] \<or>
    (\<exists>n reason. reason_seen os deadline control (shutdown_stored s) (observed s) n reason \<and>
      (group_signals (new_effects s s') = [(n, p, SIGTERM)] \<or>
       (\<exists>m>n. add_duration (clock_at os (Suc n)) TERMINATION_GRACE \<le> clock_at os m \<and>
         group_signals (new_effects s s') = [(n, p, SIGTERM), (Suc m, p, SIGKILL)])))"
proof -
  from wait_inner_raw [OF assms loop_invariant_start]
  obtain ls where "loop_invariant os p deadline control s ls s'"
    by (cases r) (auto simp: loop_result_def)
  then show ?thesis by (rule invariant_signals)
qed

theorem wait_escalation_witness:
  "\<exists>s' n m. group_signals (new_effects boot s') = [(n, 100, SIGTERM), (Suc m, 100, SIGKILL)] \<and>
     add_duration (clock_at (stubborn 12) (Suc n)) TERMINATION_GRACE \<le> clock_at (stubborn 12) m"
  using stubborn_run wait_escalation [of "stubborn 12" 100 "Some 1" at_ease "\<lambda>n. True" boot] by fastforce

text \<open>The end of a child by itself.\<close>

fun natural :: "process_outcome \<Rightarrow> bool" where
  "natural (OutExited c) = True"
| "natural (OutSignaled c) = True"
| "natural _ = False"

lemma natural_map_wait_status [simp]: "natural (map_wait_status w)"
  by (cases w) auto

lemma reason_seen_not_natural: "reason_seen os deadline control st a b outcome \<Longrightarrow> \<not> natural outcome"
  by (cases outcome) (auto simp: reason_seen_def)

lemma loop_result_outcome:
  assumes "loop_result os p deadline control closed s outcome s'"
  defines "signals \<equiv> group_signals (new_effects s s')"
  shows "(natural outcome \<longleftrightarrow> signals = []) \<and>
    (\<exists>k w. observed s \<le> k \<and> k < observed s' \<and> os_waitpid os k p = Inr w \<and> w \<noteq> StillAlive \<and>
      (if natural outcome then outcome = map_wait_status w
       else (\<exists>n. (n, p, SIGTERM) \<in> set signals \<and>
           reason_seen os deadline control (shutdown_stored s) (observed s) n outcome) \<and>
         (\<exists>n\<ge>observed s. os_kill_zero os n p = Some ESRCH)))"
proof -
  obtain ls w where inv: "loop_invariant os p deadline control s ls s'" and w: "ls_status ls = Some w"
    and o': "case ls_termination ls of None \<Rightarrow> outcome = map_wait_status w
         | Some o' \<Rightarrow> outcome = o' \<and> (\<exists>n\<ge>observed s. os_kill_zero os n p = Some ESRCH)"
    using assms(1) by (auto simp: loop_result_def)
  note i = inv [unfolded loop_invariant_def, folded signals_def]
  from i w obtain k where k: "observed s \<le> k" "k < observed s'" "os_waitpid os k p = Inr w" "w \<noteq> StillAlive"
    by blast
  show ?thesis
  proof (cases "ls_termination ls")
    case None
    with o' i k show ?thesis by auto
  next
    case (Some reason)
    with i obtain n where n: "reason_seen os deadline control (shutdown_stored s) (observed s) n reason"
      "(n, p, SIGTERM) \<in> set signals"
      by (auto simp: Let_def split: option.splits)
    with Some o' k reason_seen_not_natural [OF n(1)] show ?thesis by auto
  qed
qed

text \<open>
  C15: Meaning of the outcome. The loop reports how the child ended by itself exactly when it has
  sent no signal, and then the child was reaped with that status. Every other outcome is a reason
  the loop saw before the SIGTERM it sent; then the child was reaped as well and its process group
  was found empty.
\<close>

theorem wait_outcome:
  assumes "wait_inner os p deadline control closed loop_start s = Some (Inr outcome, s')"
  shows "(natural outcome \<longleftrightarrow> group_signals (new_effects s s') = []) \<and>
    (\<exists>k w. observed s \<le> k \<and> k < observed s' \<and> os_waitpid os k p = Inr w \<and> w \<noteq> StillAlive \<and>
      (if natural outcome then outcome = map_wait_status w
       else (\<exists>n. (n, p, SIGTERM) \<in> set (group_signals (new_effects s s')) \<and>
           reason_seen os deadline control (shutdown_stored s) (observed s) n outcome) \<and>
         (\<exists>n\<ge>observed s. os_kill_zero os n p = Some ESRCH)))"
  using wait_inner_raw [OF assms loop_invariant_start] by (intro loop_result_outcome) simp

theorem wait_outcome_witness:
  "\<exists>s' k w. os_waitpid (stubborn 12) k 100 = Inr w \<and> w \<noteq> StillAlive \<and>
     (4, 100, SIGTERM) \<in> set (group_signals (new_effects boot s')) \<and>
     (\<exists>n\<ge>observed boot. os_kill_zero (stubborn 12) n 100 = Some ESRCH)"
proof -
  obtain s' where s': "wait_inner (stubborn 12) 100 (Some 1) at_ease (\<lambda>n. True) loop_start boot
      = Some (Inr OutTimedOut, s')"
    "group_signals (new_effects boot s') = [(4, 100, SIGTERM), (10, 100, SIGKILL)]"
    using stubborn_run by blast
  from wait_outcome [OF s'(1)] obtain k w where kw: "os_waitpid (stubborn 12) k 100 = Inr w"
    "w \<noteq> StillAlive" "\<exists>n\<ge>observed boot. os_kill_zero (stubborn 12) n 100 = Some ESRCH" by auto
  have "(4, 100, SIGTERM) \<in> set (group_signals (new_effects boot s'))" using s'(2) by simp
  with kw show ?thesis by blast
qed





text \<open>
  A natural exit can be reported although the output pipes are still open: when the broker begins to
  shut down between the two loads of the flag within one round.
\<close>

theorem natural_exit_open_pipes:
  "\<exists>os control s'. wait_inner os 100 None control (\<lambda>n. False) loop_start boot = Some (Inr (OutExited 0), s')"
proof -
  define os where "os = calm\<lparr>os_shutdown := (\<lambda>n. 3 < n)\<rparr>"
  have "\<exists>s'. wait_inner os 100 None at_ease (\<lambda>n. False) loop_start boot = Some (Inr (OutExited 0), s')"
    by (simp add: os_def wait_eval)
  then show ?thesis by blast
qed
end
