(* ===== verification/Authorization.thy ===== *)
theory Authorization
  imports Broker Supervision "HOL-Library.Sublist"
begin

text \<open>
  The authorization records of the broker: the laws of the record table, what each operation of the
  executor does to the records, and the refinement of the table to an abstract ledger of grants.
\<close>

section \<open>The record table\<close>

text \<open>What the executor relies on: a keyed table whose values can be rewritten in place.\<close>

locale record_table =
  fixes find :: "'t \<Rightarrow> 'k \<Rightarrow> 'r option"
    and put :: "'k \<Rightarrow> 'r \<Rightarrow> 't \<Rightarrow> 't"
    and rewrite :: "('r \<Rightarrow> 'r) \<Rightarrow> 't \<Rightarrow> 't"
    and well_formed :: "'t \<Rightarrow> bool"
  assumes find_put: "find (put k r t) k' = (if k' = k then Some r else find t k')"
    and find_rewrite: "find (rewrite f t) k = map_option f (find t k)"
    and well_formed_put: "well_formed t \<Longrightarrow> well_formed (put k r t)"
    and well_formed_rewrite: "well_formed t \<Longrightarrow> well_formed (rewrite f t)"
begin

definition all_records :: "('k \<Rightarrow> 'r \<Rightarrow> bool) \<Rightarrow> 't \<Rightarrow> bool" where
  "all_records P t \<longleftrightarrow> (\<forall>k r. find t k = Some r \<longrightarrow> P k r)"

lemma all_records_put: "all_records P t \<Longrightarrow> P k r \<Longrightarrow> all_records P (put k r t)"
  by (auto simp: all_records_def find_put)

lemma all_records_rewrite:
  assumes "all_records P t" and "\<And>k r. P k r \<Longrightarrow> P k (f r)"
  shows "all_records P (rewrite f t)"
  using assms by (auto simp: all_records_def find_rewrite)

lemma all_records_mono: "all_records P t \<Longrightarrow> (\<And>k r. P k r \<Longrightarrow> Q k r) \<Longrightarrow> all_records Q t"
  by (auto simp: all_records_def)

lemma rewrite_all: "(\<And>r. P (f r)) \<Longrightarrow> all_records (\<lambda>_ r. P r) (rewrite f t)"
  by (auto simp: all_records_def find_rewrite)

lemma put_find_same: "find t k = Some r \<Longrightarrow> find (put k r t) = find t"
  by (auto simp: find_put fun_eq_iff)

end

lemma map_of_map_values: "map_of (map_values f rs) k = map_option f (map_of rs k)"
  by (induction rs) (auto simp: map_values_def)

lemma map_fst_map_values: "map fst (map_values f rs) = map fst rs"
  by (induction rs) (auto simp: map_values_def)

interpretation table: record_table map_of AList.update map_values "\<lambda>rs. distinct (map fst rs)"
proof
  fix k k' r and t :: records
  show "map_of (AList.update k r t) k' = (if k' = k then Some r else map_of t k')"
    by (simp add: update_conv')
qed (simp_all add: map_of_map_values map_fst_map_values distinct_update)

section \<open>The ledger\<close>

text \<open>
  The abstract specification: at most one grant for each account, its times and its hard deadline.
  What can happen to the ledger is an event.
\<close>

record grant =
  granted_at :: int
  granted_until :: int
  granted_deadline :: u64

type_synonym ledger = "account \<Rightarrow> grant option"

datatype ledger_event = Expire u64 | Revoke | Grant account grant

fun apply_event :: "ledger_event \<Rightarrow> ledger \<Rightarrow> ledger" where
  "apply_event (Expire now) g =
     (\<lambda>k. case g k of Some x \<Rightarrow> if granted_deadline x \<le> now then None else Some x | None \<Rightarrow> None)"
| "apply_event Revoke g = (\<lambda>k. None)"
| "apply_event (Grant account x) g = g(account \<mapsto> x)"

abbreviation apply_events :: "ledger_event list \<Rightarrow> ledger \<Rightarrow> ledger" where
  "apply_events es g \<equiv> fold apply_event es g"

fun grant_of :: "authorization_record \<Rightarrow> grant option" where
  "grant_of Required = None"
| "grant_of (Active active) =
     Some \<lparr>granted_at = authorized_at active, granted_until = hard_expires_at active,
           granted_deadline = hard_deadline active\<rparr>"

definition ledger_of :: "records \<Rightarrow> ledger" where
  "ledger_of rs = (\<lambda>k. Option.bind (map_of rs k) grant_of)"

abbreviation actor_ledger :: "broker_actor \<Rightarrow> ledger" where
  "actor_ledger a \<equiv> ledger_of (actor_records a)"

lemma is_active_ledger: "is_active rs k \<longleftrightarrow> ledger_of rs k \<noteq> None"
  by (auto simp: is_active_def ledger_of_def split: option.splits authorization_record.splits)

lemma ledger_expired: "ledger_of (map_values (expired now) rs) = apply_event (Expire now) (ledger_of rs)"
proof
  fix k
  show "ledger_of (map_values (expired now) rs) k = apply_event (Expire now) (ledger_of rs) k"
    by (cases "map_of rs k")
      (auto simp: ledger_of_def table.find_rewrite expired_def split: authorization_record.splits)
qed

lemma ledger_invalidated: "ledger_of (map_values (\<lambda>_. Required) rs) = apply_event Revoke (ledger_of rs)"
proof
  fix k
  show "ledger_of (map_values (\<lambda>_. Required) rs) k = apply_event Revoke (ledger_of rs) k"
    by (cases "map_of rs k") (auto simp: ledger_of_def table.find_rewrite)
qed

lemma ledger_insert_active:
  "ledger_of (AList.update k (Active active) rs) = (ledger_of rs)(k := grant_of (Active active))"
  by (auto simp: ledger_of_def table.find_put fun_eq_iff)

lemma ledger_insert_required:
  "\<not> is_active rs k \<Longrightarrow> ledger_of (AList.update k Required rs) = ledger_of rs"
  by (auto simp: ledger_of_def table.find_put fun_eq_iff is_active_def
      split: option.splits authorization_record.splits)

lemma ledger_refresh: "actor_ledger (refresh_record k next_at due a) = actor_ledger a"
proof (cases "map_of (actor_records a) k")
  case (Some r)
  then show ?thesis
    by (cases r) (auto simp: refresh_record_def insert_record_def ledger_of_def table.find_put fun_eq_iff)
qed (simp add: refresh_record_def)

section \<open>Operations as changes of the ledger\<close>

lemma expire_records_eq:
  "expire_records os a s = (a\<lparr>actor_records := map_values (expired (clock_at os (observed s))) (actor_records a)\<rparr>, tick s)"
  by (simp add: expire_records_def)

lemma actor_ledger_expire:
  "expire_records os a s = (a', s') \<Longrightarrow>
    actor_ledger a' = apply_event (Expire (clock_at os (observed s))) (actor_ledger a)"
  by (auto simp: expire_records_eq ledger_expired)

lemma actor_ledger_invalidate [simp]: "actor_ledger (invalidate_all a) = (\<lambda>k. None)"
  by (simp add: invalidate_all_def ledger_invalidated)

text \<open>The three ways a check can end.\<close>

lemma automatic_check_cases:
  assumes run: "automatic_check os account context control a s = Some (r, a', s')"
  defines "vars \<equiv> sanitized context account"
    and "limit \<equiv> add_duration (clock_at os (observed s)) (check_timeout (actor_timings a))"
  obtains (guarded) whoami where "probe os a WHOAMI context vars limit control (tick s) = Some (whoami, s')"
      and "classify_check whoami = r" and "r \<noteq> CheckSuccess" and "a' = a"
  | (refused) whoami vault s1 where "probe os a WHOAMI context vars limit control (tick s) = Some (whoami, s1)"
      and "classify_check whoami = CheckSuccess"
      and "probe os a VAULT_LIST context vars limit control s1 = Some (vault, s')"
      and "classify_check vault = r" and "r \<noteq> CheckSuccess" and "a' = a"
  | (passed) whoami vault s1 s2 where "probe os a WHOAMI context vars limit control (tick s) = Some (whoami, s1)"
      and "classify_check whoami = CheckSuccess"
      and "probe os a VAULT_LIST context vars limit control s1 = Some (vault, s2)"
      and "classify_check vault = CheckSuccess" and "r = CheckSuccess" and "s' = tick (tick s2)"
      and "a' = refresh_record account
             (os_wall os (observed s2) + int (maintenance_interval (actor_timings a)))
             (add_duration (clock_at os (Suc (observed s2))) (maintenance_interval (actor_timings a))) a"
proof -
  obtain whoami s1 where w: "probe os a WHOAMI context vars limit control (tick s) = Some (whoami, s1)"
    using run by (auto simp: automatic_check_def Let_def bind_eq_Some_conv vars_def limit_def)
  show thesis
  proof (cases "classify_check whoami = CheckSuccess")
    case False
    with run w show ?thesis
      by (intro guarded [of whoami]; cases "classify_check whoami")
        (auto simp: automatic_check_def Let_def vars_def limit_def)
  next
    case True
    obtain vault s2 where v: "probe os a VAULT_LIST context vars limit control s1 = Some (vault, s2)"
      using run w True by (auto simp: automatic_check_def Let_def bind_eq_Some_conv vars_def limit_def)
    show ?thesis
    proof (cases "classify_check vault = CheckSuccess")
      case False
      with run w v True show ?thesis
        by (intro refused [of whoami s1 vault]; cases "classify_check vault")
          (auto simp: automatic_check_def Let_def vars_def limit_def)
    next
      case v': True
      with run w v True show ?thesis
        by (intro passed [of whoami s1 vault s2])
          (auto simp: automatic_check_def Let_def vars_def limit_def)
    qed
  qed
qed

lemma automatic_check_ledger:
  assumes "automatic_check os account context control a s = Some (r, a', s')"
  shows "actor_ledger a' = actor_ledger a"
  using assms by (cases rule: automatic_check_cases) (simp_all add: ledger_refresh)

section \<open>The children an operation starts\<close>

fun supervised :: "effect \<Rightarrow> bool" where
  "supervised (PosixSpawn c) = True"
| "supervised e = after_spawn e"

text \<open>\<open>runs_children calls s s'\<close>: exactly these children were started, in this order, and every other
  effect supervises a child.\<close>

definition runs_children :: "spawn_call list \<Rightarrow> sys \<Rightarrow> sys \<Rightarrow> bool" where
  "runs_children calls s s' \<longleftrightarrow> moves supervised s s' \<and> spawned (new_effects s s') = calls"

lemma runs_children_refl [simp, intro]: "runs_children [] s s"
  by (simp add: runs_children_def)

lemma runs_children_trans:
  "runs_children xs s t \<Longrightarrow> runs_children ys t u \<Longrightarrow> runs_children (xs @ ys) s u"
  unfolding runs_children_def
  by (metis moves_trans moves_new_effects spawned_append)

lemma runs_children_silent: "moves (\<lambda>_. False) s s' \<Longrightarrow> runs_children [] s s'"
  unfolding runs_children_def moves_def by (cases "new_effects s s'") auto

lemma runs_children_tick [simp, intro]: "runs_children [] s (tick s)"
  by (intro runs_children_silent) (simp add: moves_def)

lemma runs_children_moves: "runs_children calls s s' \<Longrightarrow> moves supervised s s'"
  by (simp add: runs_children_def)

lemma after_spawn_supervised: "after_spawn e \<Longrightarrow> supervised e"
  by (cases e) auto

lemma runs_child_children:
  assumes "runs_child call r s s'"
  shows "runs_children [call] s s' \<or> \<not> is_ok r \<and> runs_children [] s s'"
proof -
  have "moves supervised s s'"
    using assms unfolding runs_child_def by (auto elim!: moves_mono intro: after_spawn_supervised)
  with assms show ?thesis by (auto simp: runs_child_def runs_children_def)
qed

text \<open>The start of \<^verbatim>\<open>op\<close> with these arguments for an account in a client's context.\<close>

definition op_call ::
  "broker_actor \<Rightarrow> client_context \<Rightarrow> account \<Rightarrow> bytes list \<Rightarrow> fd \<times> fd \<times> fd \<Rightarrow> spawn_call" where
  "op_call a context account arguments descriptors =
     spawn_of (child_input (actor_op_path a) arguments context (sanitized context account) descriptors)"

lemma probe_children:
  assumes "probe os a arguments context (sanitized context account) limit control s = Some (r, s')"
  obtains (unstarted) "\<not> is_ok r" and "runs_children [] s s'"
  | (started) d where "runs_children [op_call a context account arguments d] s s'"
      and "\<And>c. r = Inr (OutExited c) \<Longrightarrow>
        child_exited os (op_call a context account arguments d) c s s'"
  using assms unfolding probe_def
proof (cases rule: probe_cases)
  case unstarted
  then show thesis by (intro that(1)) (auto intro: runs_children_silent)
next
  case (child d)
  from runs_child_children [OF child(1)] child(2) show thesis
    by (auto intro: that simp: op_call_def)
qed

lemma classify_success: "classify_check r = CheckSuccess \<longleftrightarrow> r = Inr (OutExited 0)"
  by (auto simp: classify_check_def split: sum.splits process_outcome.splits if_splits)

lemma automatic_check_children:
  assumes run: "automatic_check os account context control a s = Some (r, a', s')"
  obtains (failed) calls d1 d2 where "r \<noteq> CheckSuccess" and "runs_children calls s s'"
      and "prefix calls [op_call a context account WHOAMI d1, op_call a context account VAULT_LIST d2]"
  | (passed) d1 d2 where "r = CheckSuccess"
      and "runs_children [op_call a context account WHOAMI d1, op_call a context account VAULT_LIST d2] s s'"
      and "child_exited os (op_call a context account WHOAMI d1) 0 s s'"
      and "child_exited os (op_call a context account VAULT_LIST d2) 0 s s'"
  using run
proof (cases rule: automatic_check_cases)
  case (guarded whoami)
  from guarded(1) show thesis
  proof (cases rule: probe_children)
    case unstarted
    with guarded runs_children_trans [OF runs_children_tick unstarted(2)] show thesis
      by (intro failed [of "[]"]) auto
  next
    case (started d)
    with guarded runs_children_trans [OF runs_children_tick started(1)] show thesis
      by (intro failed [of _ d]) auto
  qed
next
  case (refused whoami vault s1)
  from refused(1) obtain d1 where w: "runs_children [op_call a context account WHOAMI d1] (tick s) s1"
    using refused(2) by (cases rule: probe_children) (auto simp: classify_success)
  note w' = runs_children_trans [OF runs_children_tick w]
  from refused(3) show thesis
  proof (cases rule: probe_children)
    case unstarted
    with refused runs_children_trans [OF w' unstarted(2)] show thesis
      by (intro failed [of _ d1]) auto
  next
    case (started d)
    with refused runs_children_trans [OF w' started(1)] show thesis
      by (intro failed [of _ d1 d]) auto
  qed
next
  case (passed whoami vault s1 s2)
  from passed(1) obtain d1 where w: "runs_children [op_call a context account WHOAMI d1] (tick s) s1"
    "child_exited os (op_call a context account WHOAMI d1) 0 (tick s) s1"
    using passed(2) by (cases rule: probe_children) (auto simp: classify_success)
  from passed(3) obtain d2 where v: "runs_children [op_call a context account VAULT_LIST d2] s1 s2"
    "child_exited os (op_call a context account VAULT_LIST d2) 0 s1 s2"
    using passed(4) by (cases rule: probe_children) (auto simp: classify_success)
  have t: "runs_children [] s2 s'"
    using runs_children_trans [OF runs_children_tick [of s2] runs_children_tick] passed(6) by simp
  note wv = runs_children_trans [OF runs_children_tick w(1)]
  have "child_exited os (op_call a context account WHOAMI d1) 0 s s'"
    using child_exited_mono [OF w(2) runs_children_moves [OF runs_children_tick]
        runs_children_moves [OF runs_children_trans [OF v(1) t]]] .
  moreover have "child_exited os (op_call a context account VAULT_LIST d2) 0 s s'"
    using child_exited_mono [OF v(2) runs_children_moves [OF wv] runs_children_moves [OF t]] .
  moreover have "runs_children [op_call a context account WHOAMI d1, op_call a context account VAULT_LIST d2] s s'"
    using runs_children_trans [OF wv runs_children_trans [OF v(1) t]] by simp
  ultimately show thesis using passed(5) that(2) by blast
qed

text \<open>What no operation changes: everything but the records.\<close>

definition same_actor :: "broker_actor \<Rightarrow> broker_actor \<Rightarrow> bool" where
  "same_actor a a' \<longleftrightarrow> a' = a\<lparr>actor_records := actor_records a'\<rparr>"

lemma same_actor_refl [simp, intro]: "same_actor a a"
  by (simp add: same_actor_def)

lemma same_actor_trans: "same_actor a b \<Longrightarrow> same_actor b c \<Longrightarrow> same_actor a c"
proof -
  assume "same_actor a b" "same_actor b c"
  then obtain rs rs' where "b = a\<lparr>actor_records := rs\<rparr>" "c = b\<lparr>actor_records := rs'\<rparr>"
    unfolding same_actor_def by blast
  then show "same_actor a c" by (simp add: same_actor_def)
qed

lemma same_actor_simps:
  assumes "same_actor a a'"
  shows "actor_op_path a' = actor_op_path a" "actor_user a' = actor_user a"
    "actor_terminal a' = actor_terminal a" "actor_timings a' = actor_timings a"
    "actor_started_at a' = actor_started_at a" "actor_replies a' = actor_replies a"
    "actor_complete a' = actor_complete a"
proof -
  obtain rs where "a' = a\<lparr>actor_records := rs\<rparr>" using assms unfolding same_actor_def by blast
  then show "actor_op_path a' = actor_op_path a" "actor_user a' = actor_user a"
    "actor_terminal a' = actor_terminal a" "actor_timings a' = actor_timings a"
    "actor_started_at a' = actor_started_at a" "actor_replies a' = actor_replies a"
    "actor_complete a' = actor_complete a" by simp_all
qed

lemma same_actor_updates [simp]:
  "same_actor a (a\<lparr>actor_records := rs\<rparr>)" "same_actor a (invalidate_all a)"
  "same_actor a (insert_record k r a)" "same_actor a (refresh_record k at' due a)"
  "same_actor a (fst (expire_records os a s))"
  by (auto simp: same_actor_def invalidate_all_def insert_record_def refresh_record_def
      expire_records_eq split: option.splits authorization_record.splits)

lemma automatic_check_same:
  "automatic_check os account context control a s = Some (r, a', s') \<Longrightarrow> same_actor a a'"
  by (erule automatic_check_cases) simp_all

lemma op_call_same: "same_actor a a' \<Longrightarrow> op_call a' = op_call a"
  by (simp add: op_call_def fun_eq_iff same_actor_simps)

end
