(* ===== verification/Executor.thy ===== *)
theory Executor
  imports Authorization
begin

text \<open>
  What each request does: the ways \<open>start\<close>, \<open>execute\<close> and \<open>maintain\<close> can go, the children they start,
  and how they change the ledger of grants.
\<close>

section \<open>Requests by cases\<close>

abbreviation expired_actor :: "os \<Rightarrow> broker_actor \<Rightarrow> sys \<Rightarrow> broker_actor" where
  "expired_actor os a s \<equiv> fst (expire_records os a s)"

lemma expire_split: "expire_records os a s = (expired_actor os a s, tick s)"
  by (simp add: expire_records_eq)

lemma expired_actor_ledger [simp]:
  "actor_ledger (expired_actor os a s) = apply_event (Expire (clock_at os (observed s))) (actor_ledger a)"
  by (simp add: expire_records_eq ledger_expired)

definition new_grant :: "os \<Rightarrow> broker_timings \<Rightarrow> nat \<Rightarrow> grant" where
  "new_grant os timings n =
     \<lparr>granted_at = os_wall os n, granted_until = os_wall os n + int (hard_limit timings),
      granted_deadline = add_duration (clock_at os (Suc n)) (hard_limit timings)\<rparr>"

lemma start_cases:
  assumes run: "start os warning_shown account op_path context control a s = Some (resp, a', s')"
  defines "a1 \<equiv> expired_actor os a s"
  obtains (mismatch) "op_path \<noteq> actor_op_path a" and "resp = Some (RespError OpPathMismatch)"
      and "a' = a1" and "s' = tick s"
  | (active) "is_active (actor_records a1) account" and "resp = Some RespOk" and "a' = a1" and "s' = tick s"
      and "op_path = actor_op_path a"
  | (unwarned) "\<not> is_active (actor_records a1) account" and "\<not> warning_shown"
      and "resp = Some RespNeedWarning" and "a' = a1" and "s' = tick s"
  | (refused) outcome s1 where "\<not> is_active (actor_records a1) account" and "warning_shown"
      and "op_path = actor_op_path a"
      and "probe os (insert_record account Required a1) VAULT_LIST context (sanitized context account)
             (add_duration (clock_at os (Suc (Suc (observed s)))) (explicit_timeout (actor_timings a)))
             control (tick (tick (tick s))) = Some (outcome, s1)"
      and "outcome \<noteq> Inr (OutExited 0)" and "resp \<noteq> Some RespOk"
      and "a' = insert_record account Required a1" and "s' \<in> {s1, tick s1}"
  | (granted) s1 next_at due where "\<not> is_active (actor_records a1) account" and "warning_shown"
      and "op_path = actor_op_path a"
      and "probe os (insert_record account Required a1) VAULT_LIST context (sanitized context account)
             (add_duration (clock_at os (Suc (Suc (observed s)))) (explicit_timeout (actor_timings a)))
             control (tick (tick (tick s))) = Some (Inr (OutExited 0), s1)"
      and "resp = Some RespOk" and "s' = tick (tick s1)"
      and "a' = insert_record account (Active
             \<lparr>authorized_at = os_wall os (Suc (observed s)),
              hard_expires_at = os_wall os (Suc (observed s)) + int (hard_limit (actor_timings a)),
              hard_deadline = add_duration (clock_at os (Suc (Suc (observed s)))) (hard_limit (actor_timings a)),
              next_probe_at = next_at, next_probe_deadline = due\<rparr>) (insert_record account Required a1)"
proof -
  have ex: "expire_records os a s = (a1, tick s)" by (simp add: a1_def expire_records_eq)
  have a1: "actor_op_path a1 = actor_op_path a" "actor_timings a1 = actor_timings a"
    by (simp_all add: a1_def expire_records_eq)
  consider "op_path \<noteq> actor_op_path a" | "op_path = actor_op_path a" "is_active (actor_records a1) account"
    | "op_path = actor_op_path a" "\<not> is_active (actor_records a1) account" "\<not> warning_shown"
    | "op_path = actor_op_path a" "\<not> is_active (actor_records a1) account" "warning_shown"
    by blast
  then show thesis
  proof cases
    case 4
    obtain outcome s1 where p: "probe os (insert_record account Required a1) VAULT_LIST context (sanitized context account)
             (add_duration (clock_at os (Suc (Suc (observed s)))) (explicit_timeout (actor_timings a)))
             control (tick (tick (tick s))) = Some (outcome, s1)"
      using run 4 by (auto simp: start_def ex a1 Let_def bind_eq_Some_conv insert_record_def)
    show ?thesis
    proof (cases "outcome = Inr (OutExited 0)")
      case True
      with run p 4 show ?thesis
        by (intro granted) (auto simp: start_def ex a1 Let_def insert_record_def)
    next
      case False
      with run p 4 show ?thesis
        by (intro refused [of outcome s1])
          (auto simp: start_def ex a1 Let_def cancel_response_def insert_record_def
            split: sum.splits process_outcome.splits if_splits)
    qed
  qed (use run in \<open>auto simp: start_def ex a1 intro: mismatch active unwarned\<close>)
qed

lemma execute_cases:
  assumes run: "execute os account timeout_nanos arguments context descriptors control a s = Some (resp, a', s')"
  defines "a1 \<equiv> expired_actor os a s"
  obtains (inactive) "\<not> is_active (actor_records a1) account"
      and "resp = Some (RespError AuthorizationRequired)" and "a' = a1" and "s' = tick s"
  | (stopped) check a2 s2 where "is_active (actor_records a1) account"
      and "automatic_check os account context control a1 (tick s) = Some (check, a2, s2)"
      and "check \<noteq> CheckSuccess" and "s' \<in> {s2, tick s2}"
      and "a' = (if check = CheckFailed then invalidate_all a2 else a2)"
      and "resp = (case check of CheckFailed \<Rightarrow> Some (RespError AuthorizationRequired)
             | CheckCancelled \<Rightarrow> Some (fst (cancel_response control s2)) | _ \<Rightarrow> None)"
  | (lapsed) a2 s2 where "is_active (actor_records a1) account"
      and "automatic_check os account context control a1 (tick s) = Some (CheckSuccess, a2, s2)"
      and "\<not> is_active (actor_records (expired_actor os a2 s2)) account"
      and "resp = Some (RespError AuthorizationRequired)" and "a' = expired_actor os a2 s2" and "s' = tick s2"
  | (ran) a2 s2 a3 result s3 where "is_active (actor_records a1) account"
      and "automatic_check os account context control a1 (tick s) = Some (CheckSuccess, a2, s2)"
      and "a3 = expired_actor os a2 s2" and "is_active (actor_records a3) account"
      and "runner_run os (actor_op_path a3) (actor_terminal a3) arguments context
             (sanitized context account) descriptors
             (Some (add_duration (clock_at os (Suc (observed s2))) (unat timeout_nanos))) control
             (tick (tick s2)) = Some (result, s3)"
      and "resp = execute_response result" and "a' = expired_actor os a3 s3" and "s' = tick s3"
proof -
  have ex: "expire_records os a s = (a1, tick s)" by (simp add: a1_def expire_records_eq)
  show thesis
  proof (cases "is_active (actor_records a1) account")
    case False
    with run show ?thesis by (intro inactive) (auto simp: execute_def ex)
  next
    case True
    obtain check a2 s2 where c: "automatic_check os account context control a1 (tick s) = Some (check, a2, s2)"
      using run True by (auto simp: execute_def ex bind_eq_Some_conv)
    define a3 where "a3 = expired_actor os a2 s2"
    have ex3: "expire_records os a2 s2 = (a3, tick s2)" by (simp add: a3_def expire_records_eq)
    show ?thesis
    proof (cases "check = CheckSuccess")
      case False
      with run True c show ?thesis
        by (intro stopped [of check a2 s2]; cases check)
          (auto simp: execute_def ex cancel_response_def)
    next
      case success: True
      show ?thesis
      proof (cases "is_active (actor_records a3) account")
        case False
        with run True c success show ?thesis
          by (intro lapsed [of a2 s2]) (auto simp: execute_def ex ex3 a3_def [symmetric])
      next
        case act: True
        obtain result s3 where r: "runner_run os (actor_op_path a3)
            (actor_terminal a3) arguments context (sanitized context account) descriptors
            (Some (add_duration (clock_at os (Suc (observed s2))) (unat timeout_nanos))) control
            (tick (tick s2)) = Some (result, s3)"
          using run True c success act
          by (auto simp: execute_def ex ex3 a3_def [symmetric] bind_eq_Some_conv Let_def)
        obtain a4 where e4: "expire_records os a3 s3 = (a4, tick s3)" by (simp add: expire_records_eq)
        then have "a4 = expired_actor os a3 s3" by simp
        moreover have "resp = execute_response result" "a' = a4" "s' = tick s3"
          using run True c success act r by (auto simp: execute_def ex ex3 Let_def e4)
        ultimately show ?thesis using True c success act r a3_def by (intro ran [of a2 s2 a3 result s3]) simp_all
      qed
    qed
  qed
qed

lemma maintain_cases:
  assumes run: "maintain h account a s = Some (a', s')"
  obtains (inactive) "\<not> is_active (actor_records a) account" and "a' = a" and "s' = s"
  | (checked) ctx s1 check a2 s2 where "is_active (actor_records a) account"
      and "maintenance (host_os h) (actor_user a) account s = (ctx, s1)"
      and "automatic_check (host_os h) account ctx (\<lambda>_. control_default) a s1 = Some (check, a2, s2)"
      and "a' = (if check \<in> {CheckSuccess, CheckShutdown} then a2 else invalidate_all a2)"
      and "s' = (if check = CheckShutdown then shutdown_store s2 else s2)"
proof (cases "is_active (actor_records a) account")
  case False
  with run show ?thesis by (intro inactive) (auto simp: maintain_def)
next
  case True
  obtain ctx s1 where m: "maintenance (host_os h) (actor_user a) account s = (ctx, s1)" by fastforce
  obtain check a2 s2 where c: "automatic_check (host_os h) account ctx (\<lambda>_. control_default) a s1
      = Some (check, a2, s2)"
    using run True m by (auto simp: maintain_def bind_eq_Some_conv)
  with run True m show ?thesis
    by (intro checked [of ctx s1 check a2 s2]; cases check) (auto simp: maintain_def)
qed

section \<open>The ledger, operation by operation\<close>

text \<open>
  Which ledger events may happen between observations \<open>n\<close> and \<open>n'\<close>: expiry by a clock reading made
  there, revocation, and a grant that starts at readings of both clocks made there.
\<close>

definition event_dated :: "os \<Rightarrow> broker_timings \<Rightarrow> nat \<Rightarrow> nat \<Rightarrow> ledger_event \<Rightarrow> bool" where
  "event_dated os timings n n' e \<longleftrightarrow>
     (case e of
        Expire t \<Rightarrow> \<exists>k\<ge>n. k < n' \<and> t = clock_at os k
      | Revoke \<Rightarrow> True
      | Grant account g \<Rightarrow> \<exists>k\<ge>n. Suc k < n' \<and> g = new_grant os timings k)"

definition refines ::
  "(ledger_event \<Rightarrow> bool) \<Rightarrow> os \<Rightarrow> broker_actor \<Rightarrow> sys \<Rightarrow> broker_actor \<Rightarrow> sys \<Rightarrow> bool" where
  "refines P os a s a' s' \<longleftrightarrow>
     observed s \<le> observed s' \<and> actor_timings a' = actor_timings a \<and>
     (\<exists>evs. actor_ledger a' = apply_events evs (actor_ledger a) \<and>
        (\<forall>e\<in>set evs. P e \<and> event_dated os (actor_timings a) (observed s) (observed s') e))"

lemma event_dated_mono:
  "event_dated os timings n n' e \<Longrightarrow> m \<le> n \<Longrightarrow> n' \<le> m' \<Longrightarrow> event_dated os timings m m' e"
  unfolding event_dated_def by (cases e) (auto intro: le_trans less_le_trans)

lemma refines_refl [simp, intro]: "refines P os a s a s"
  unfolding refines_def by (auto intro!: exI [of _ "[]"])

lemma refines_trans:
  assumes "refines P os a s b t" and "refines P os b t c u"
  shows "refines P os a s c u"
proof -
  obtain es fs where l: "actor_ledger b = apply_events es (actor_ledger a)"
    "actor_ledger c = apply_events fs (actor_ledger b)"
    and es: "\<forall>e\<in>set es. P e \<and> event_dated os (actor_timings a) (observed s) (observed t) e"
    and fs: "\<forall>e\<in>set fs. P e \<and> event_dated os (actor_timings a) (observed t) (observed u) e"
    and o': "observed s \<le> observed t" "observed t \<le> observed u"
    and c: "actor_timings c = actor_timings a"
    using assms unfolding refines_def by metis
  have "P e \<and> event_dated os (actor_timings a) (observed s) (observed u) e"
    if "e \<in> set (es @ fs)" for e
    using that es fs o' event_dated_mono by (metis Un_iff order_refl set_append)
  moreover have "actor_ledger c = apply_events (es @ fs) (actor_ledger a)" using l by simp
  ultimately show ?thesis
    unfolding refines_def using o' c by (meson le_trans)
qed

lemma refines_mono: "refines P os a s a' s' \<Longrightarrow> (\<And>e. P e \<Longrightarrow> Q e) \<Longrightarrow> refines Q os a s a' s'"
  unfolding refines_def by blast

lemma refines_same:
  "observed s \<le> observed s' \<Longrightarrow> actor_timings a' = actor_timings a \<Longrightarrow> actor_ledger a' = actor_ledger a \<Longrightarrow>
    refines P os a s a' s'"
  unfolding refines_def by (auto intro!: exI [of _ "[]"])

text \<open>The events that only take away.\<close>

fun shrinks :: "ledger_event \<Rightarrow> bool" where
  "shrinks (Grant account g) = False"
| "shrinks _ = True"

fun expires :: "ledger_event \<Rightarrow> bool" where
  "expires (Expire t) = True"
| "expires _ = False"

lemma refines_expire: "refines expires os a s (expired_actor os a s) (tick s)"
  unfolding refines_def
  by (auto simp: event_dated_def expire_records_eq ledger_expired
      intro!: exI [of _ "[Expire (clock_at os (observed s))]"])

lemma refines_invalidate: "observed s \<le> observed s' \<Longrightarrow> refines shrinks os a s (invalidate_all a) s'"
  unfolding refines_def
  by (auto simp: event_dated_def invalidate_all_def ledger_invalidated intro!: exI [of _ "[Revoke]"])

lemma refines_check:
  assumes run: "automatic_check os account context control a s = Some (r, a', s')"
  shows "refines P os a s a' s'"
proof (rule refines_same)
  show "actor_ledger a' = actor_ledger a" by (rule automatic_check_ledger [OF run])
  show "actor_timings a' = actor_timings a"
    using automatic_check_same [OF run] by (simp add: same_actor_simps)
  have "moves supervised s s'"
    by (rule automatic_check_children [OF run]) (auto intro: runs_children_moves)
  then show "observed s \<le> observed s'" by (auto simp: moves_def dest: advancesD)
qed

lemma refines_later: "refines P os a s a' s' \<Longrightarrow> observed s' \<le> observed t \<Longrightarrow> refines P os a s a' t"
  by (rule refines_trans [OF _ refines_same]) auto

lemma moves_observed: "moves P s s' \<Longrightarrow> observed s \<le> observed s'"
  by (auto simp: moves_def dest: advancesD)

lemma run_observed: "runner_run os exe t args ctx vars fds limit control s = Some (r, s') \<Longrightarrow> observed s \<le> observed s'"
  by (drule run_runs_child) (auto simp: runs_child_def dest: moves_observed)

lemma probe_observed:
  "probe os a args ctx vars limit control s = Some (r, s') \<Longrightarrow> observed s \<le> observed s'"
  unfolding probe_def by (erule probe_cases) (auto simp: runs_child_def dest: moves_observed)

lemma refines_execute:
  assumes run: "execute os account timeout_nanos arguments context descriptors control a s = Some (resp, a', s')"
  shows "refines shrinks os a s a' s'"
proof -
  have weak: "expires e \<Longrightarrow> shrinks e" for e by (cases e) auto
  note ex = refines_mono [OF refines_expire weak]
  from run show ?thesis
  proof (cases rule: execute_cases)
    case inactive
    with ex show ?thesis by simp
  next
    case (stopped check a2 s2)
    have "refines shrinks os a s a2 s2"
      by (rule refines_trans [OF ex refines_check [OF stopped(2)]])
    moreover have "refines shrinks os a2 s2 a' s'"
      using stopped refines_invalidate [of s2 s' os a2] by (auto intro: refines_same)
    ultimately show ?thesis by (rule refines_trans)
  next
    case (lapsed a2 s2)
    from refines_trans [OF refines_trans [OF ex refines_check [OF lapsed(2)]] ex] lapsed show ?thesis by simp
  next
    case (ran a2 s2 a3 result s3)
    have "refines shrinks os a s a3 (tick s2)"
      using refines_trans [OF refines_trans [OF ex refines_check [OF ran(2)]] ex] ran(3) by simp
    then have "refines shrinks os a s a3 s3"
      using run_observed [OF ran(5)] by (elim refines_later) simp
    from refines_trans [OF this ex] ran show ?thesis by simp
  qed
qed

text \<open>The ledger events of a start request: expiry and, for the account asked for, a grant.\<close>

definition start_event :: "account \<Rightarrow> ledger_event \<Rightarrow> bool" where
  "start_event account e \<longleftrightarrow> expires e \<or> (\<exists>g. e = Grant account g)"

lemma insert_required_ledger:
  "\<not> is_active (actor_records a) k \<Longrightarrow> actor_ledger (insert_record k Required a) = actor_ledger a"
  by (simp add: insert_record_def ledger_insert_required)

lemma refines_start:
  assumes run: "start os warning_shown account op_path context control a s = Some (resp, a', s')"
  shows "refines (\<lambda>e. expires e \<or> (\<exists>g. e = Grant account g) \<and> warning_shown \<and>
      op_path = actor_op_path a \<and> resp = Some RespOk) os a s a' s'"
    (is "refines ?P os a s a' s'")
proof -
  have ex: "refines ?P os a s (expired_actor os a s) (tick s)"
    by (rule refines_mono [OF refines_expire]) simp
  from run show ?thesis
  proof (cases rule: start_cases)
    case (refused outcome s1)
    have "observed s \<le> observed s1" using probe_observed [OF refused(4)] by simp
    moreover have "observed (tick s) \<le> observed s'"
      using probe_observed [OF refused(4)] refused(8) by auto
    ultimately show ?thesis
      using refused by (intro refines_trans [OF ex refines_same])
        (auto simp: insert_required_ledger, auto simp: insert_record_def expire_records_eq)
  next
    case (granted s1 next_at due)
    let ?n = "Suc (observed s)"
    have n: "Suc (Suc ?n) \<le> observed s'"
      using probe_observed [OF granted(4)] granted(6) by simp
    have "actor_ledger a' = apply_event (Grant account (new_grant os (actor_timings a) ?n))
        (actor_ledger (expired_actor os a s))"
      using granted(1,7) insert_required_ledger [OF granted(1)]
      by (simp add: insert_record_def ledger_insert_active new_grant_def)
    moreover have "event_dated os (actor_timings a) ?n (observed s')
        (Grant account (new_grant os (actor_timings a) ?n))"
      using n by (auto simp: event_dated_def)
    moreover have "actor_timings a' = actor_timings a"
      using granted(7) by (simp add: insert_record_def expire_records_eq)
    ultimately have "refines ?P os (expired_actor os a s) (tick s) a' s'"
      using granted(2,3,5) n unfolding refines_def
      by (intro conjI exI [of _ "[Grant account (new_grant os (actor_timings a) ?n)]"])
        (auto simp: expire_records_eq)
    from refines_trans [OF ex this] show ?thesis .
  qed (use ex in auto)
qed

lemma refines_maintain:
  assumes run: "maintain h account a s = Some (a', s')"
  shows "refines shrinks (host_os h) a s a' s'"
  using run
proof (cases rule: maintain_cases)
  case (checked ctx s1 check a2 s2)
  have "observed s \<le> observed s1" using maintenance_advances [OF checked(2)] by (rule advancesD)
  then have "refines shrinks (host_os h) a s a2 s2"
    by (rule refines_trans [OF refines_same refines_check [OF checked(3)]]) auto
  moreover have "refines shrinks (host_os h) a2 s2 a' s'"
    using checked(4,5) refines_invalidate [of s2 s' "host_os h" a2] by (auto intro: refines_same)
  ultimately show ?thesis by (rule refines_trans)
qed simp

end
