(* ===== verification/Safety.thy ===== *)
theory Safety
  imports Executor
begin

text \<open>
  The executor as a whole: the children each operation starts, the turns of its loop as a reachability
  relation, the invariant of every reachable state, and the properties of requests.
\<close>

section \<open>Children of a request\<close>

text \<open>A reported signal is one the child died of, or the one the client cancelled with.\<close>

definition signal_seen :: "os \<Rightarrow> control \<Rightarrow> i32 \<Rightarrow> bool" where
  "signal_seen os control sig \<longleftrightarrow>
     (\<exists>n. cancelled (control n) \<and> sig = cancel_signal (control (Suc n))) \<or>
     (\<exists>k p w. os_waitpid os k p = Inr w \<and> w \<noteq> StillAlive \<and> map_wait_status w = OutSignaled sig)"

lemma run_signal_seen:
  assumes run: "runner_run os exe t args ctx vars fds limit control s = Some (Inr outcome, s')"
    and sig: "outcome \<in> {OutSignaled sig, OutCancelled sig}"
  shows "signal_seen os control sig"
proof -
  obtain r1 s1 where sp: "spawn_suspended os (child_input exe args ctx vars fds) s = (r1, s1)" by fastforce
  obtain p where p: "r1 = Inr p" using run sp by (cases r1) (auto simp: runner_run_def child_input_def)
  have "supervise os t p (wait_inner os p limit control (\<lambda>n. streams_closed (control n)) loop_start) s1
      = Some (Inr outcome, s')"
    using run sp p by (simp add: runner_run_def child_input_def)
  then obtain s2 s3 where w: "wait_inner os p limit control (\<lambda>n. streams_closed (control n)) loop_start s2
      = Some (Inr outcome, s3)" by (rule supervise_parts)
  have "loop_result os p limit control (\<lambda>n. streams_closed (control n)) s2 outcome s3"
    using wait_inner_raw [OF w loop_invariant_start] by simp
  from loop_result_outcome [OF this] sig show ?thesis
    unfolding signal_seen_def
    by (cases "natural outcome") (auto simp: reason_seen_def)
qed

lemma execute_children:
  assumes run: "execute os account timeout_nanos arguments context descriptors control a s = Some (resp, a', s')"
  defines "w \<equiv> op_call a context account WHOAMI" and "v \<equiv> op_call a context account VAULT_LIST"
    and "c \<equiv> op_call a context account arguments descriptors"
  obtains (not_run) calls d1 d2 where "runs_children calls s s'" and "prefix calls [w d1, v d2]"
      and "\<And>code diag. resp = Some (RespExec code diag) \<Longrightarrow>
        \<exists>sig n. code = 128 + sig \<and> 0 <s sig \<and> sig = cancel_signal (control n) \<and> diag = DiagNone"
  | (command) d1 d2 t g result where "runs_children [w d1, v d2] s t"
      and "child_exited os (w d1) 0 s t" and "child_exited os (v d2) 0 s t"
      and "actor_ledger a account = Some g" and "clock_at os (observed t) < granted_deadline g"
      and "runs_children [c] t s' \<or> \<not> is_ok result \<and> runs_children [] t s'"
      and "resp = execute_response result" and "\<And>k. result = Inr (OutExited k) \<Longrightarrow> child_exited os c k t s'"
      and "\<And>sig. result \<in> {Inr (OutSignaled sig), Inr (OutCancelled sig)} \<Longrightarrow> signal_seen os control sig"
      and "observed t < observed s'"
proof -
  let ?a1 = "expired_actor os a s"
  have same1: "same_actor a ?a1" by simp
  note calls = op_call_same [OF same1]
  show thesis
    using run
  proof (cases rule: execute_cases)
    case inactive
    then show ?thesis by (intro not_run [of "[]"]) auto
  next
    case (stopped check a2 s2)
    have last: "runs_children [] s2 s'" using stopped(4) by auto
    have resp: "\<exists>sig n. code = 128 + sig \<and> 0 <s sig \<and> sig = cancel_signal (control n) \<and> diag = DiagNone"
      if "resp = Some (RespExec code diag)" for code diag
      using stopped(6) that by (cases check) (auto simp: cancel_response_def split: if_splits)
    from stopped(2) show ?thesis
    proof (cases rule: automatic_check_children)
      case (failed cs d1 d2)
      from runs_children_trans [OF runs_children_trans [OF runs_children_tick failed(2)] last] failed(3) resp
      show ?thesis by (intro not_run [of cs d1 d2]) (simp_all add: w_def v_def calls)
    qed (use stopped in simp)
  next
    case (lapsed a2 s2)
    from lapsed(2) show ?thesis
    proof (cases rule: automatic_check_children)
      case (passed d1 d2)
      from runs_children_trans [OF runs_children_trans [OF runs_children_tick passed(2)] runs_children_tick]
      show ?thesis using lapsed by (intro not_run [of _ d1 d2]) (auto simp: w_def v_def calls)
    qed simp
  next
    case (ran a2 s2 a3 result s3)
    from ran(2) show ?thesis
    proof (cases rule: automatic_check_children)
      case (passed d1 d2)
      have same3: "same_actor a a3"
        using same_actor_trans [OF same1 automatic_check_same [OF ran(2)]]
          same_actor_trans [OF _ same_actor_updates(5)] ran(3) by blast
      have child: "spawn_of (child_input (actor_op_path a3) arguments context (sanitized context account)
          descriptors) = c"
        by (simp add: c_def op_call_def same_actor_simps [OF same3])
      have tt: "runs_children [] s2 (tick (tick s2))"
        using runs_children_trans [OF runs_children_tick [of s2] runs_children_tick] by simp
      have run3: "runs_children [c] (tick (tick s2)) s3 \<or> \<not> is_ok result \<and> runs_children [] (tick (tick s2)) s3"
        using runs_child_children [OF run_runs_child [OF ran(5)]] child by simp
      have run': "runs_children [c] s2 s' \<or> \<not> is_ok result \<and> runs_children [] s2 s'"
        using run3 runs_children_trans [OF runs_children_trans [OF tt] runs_children_tick [of s3]] ran(8)
        by fastforce
      have ex: "child_exited os c k s2 s'" if "result = Inr (OutExited k)" for k
      proof -
        have "child_exited os c k (tick (tick s2)) s3"
          using run_exited [OF ran(5) [unfolded that]] child by simp
        then show ?thesis
          using child_exited_mono runs_children_moves [OF tt] runs_children_moves [OF runs_children_tick [of s3]]
            ran(8) by blast
      qed
      have l2: "actor_ledger a2 = actor_ledger ?a1" by (rule automatic_check_ledger [OF ran(2)])
      obtain g where g: "actor_ledger a3 account = Some g"
        using ran(4) by (auto simp: is_active_ledger)
      with ran(3) l2 have "actor_ledger a account = Some g \<and> clock_at os (observed s2) < granted_deadline g"
        by (auto split: option.splits if_splits)
      moreover have "runs_children [w d1, v d2] s s2"
        using runs_children_trans [OF runs_children_tick passed(2)] by (simp add: w_def v_def calls)
      moreover have "child_exited os (w d1) 0 s s2" "child_exited os (v d2) 0 s s2"
        using child_exited_mono [OF passed(3)] child_exited_mono [OF passed(4)]
          runs_children_moves [OF runs_children_tick [of s]] moves_refl
        by (auto simp: w_def v_def calls)
      moreover have "observed s2 < observed s'" using run_observed [OF ran(5)] ran(8) by simp
      moreover have "signal_seen os control sig"
        if "result \<in> {Inr (OutSignaled sig), Inr (OutCancelled sig)}" for sig
        using that ran(5) run_signal_seen by blast
      ultimately show ?thesis using run' ex ran(6) by (intro command) auto
    qed simp
  qed
qed

lemma start_children:
  assumes run: "start os warning_shown account op_path context control a s = Some (resp, a', s')"
  obtains (quiet) "runs_children [] s s'" and "resp = Some RespOk \<Longrightarrow> actor_ledger a' account \<noteq> None"
  | (asked) d where "warning_shown" and "op_path = actor_op_path a"
      and "actor_ledger (expired_actor os a s) account = None"
      and "runs_children [op_call a context account VAULT_LIST d] s s'"
      and "resp = Some RespOk \<longleftrightarrow> actor_ledger a' account \<noteq> None"
      and "resp = Some RespOk \<Longrightarrow> child_exited os (op_call a context account VAULT_LIST d) 0 s s'"
proof -
  let ?a1 = "expired_actor os a s"
  let ?a2 = "insert_record account Required ?a1"
  have calls: "op_call ?a2 = op_call a"
    by (rule op_call_same) (rule same_actor_trans [of _ ?a1]; simp)
  have t3: "runs_children [] s (tick (tick (tick s)))"
    using runs_children_trans [OF runs_children_tick [of s]
        runs_children_trans [OF runs_children_tick runs_children_tick]] by simp
  have tt: "runs_children [] t (tick (tick t))" for t
    using runs_children_trans [OF runs_children_tick [of t] runs_children_tick] by simp
  from run show thesis
  proof (cases rule: start_cases)
    case mismatch
    then show ?thesis by (intro quiet) auto
  next
    case active
    then show ?thesis by (intro quiet) (auto simp: is_active_ledger)
  next
    case unwarned
    then show ?thesis by (intro quiet) auto
  next
    case (refused outcome s1)
    have no: "actor_ledger ?a1 account = None" using refused(1) by (simp add: is_active_ledger)
    have no': "actor_ledger a' account = None"
      using refused(1,7) no by (simp add: insert_required_ledger)
    have last: "runs_children [] s1 s'" using refused(8) by auto
    from refused(4) show ?thesis
    proof (cases rule: probe_children)
      case unstarted
      from runs_children_trans [OF runs_children_trans [OF t3 unstarted(2)] last] refused(6)
      show ?thesis by (intro quiet) auto
    next
      case (started d)
      from runs_children_trans [OF runs_children_trans [OF t3 started(1)] last] refused no no'
      show ?thesis by (intro asked [of d]) (auto simp: calls)
    qed
  next
    case (granted s1 next_at due)
    have no: "actor_ledger ?a1 account = None" using granted(1) by (simp add: is_active_ledger)
    from granted(4) show ?thesis
    proof (cases rule: probe_children)
      case (started d)
      have "child_exited os (op_call a context account VAULT_LIST d) 0 s s'"
        using child_exited_mono [OF started(2) [OF refl] runs_children_moves [OF t3]
            runs_children_moves [OF tt [of s1]]] granted(6) by (simp add: calls)
      moreover have "actor_ledger a' account \<noteq> None"
        using granted(7) by (simp add: insert_record_def ledger_insert_active)
      ultimately show ?thesis
        using runs_children_trans [OF runs_children_trans [OF t3 started(1)] tt [of s1]] granted no
        by (intro asked [of d]) (auto simp: calls)
    qed simp
  qed
qed

section \<open>Turns of the loop\<close>

lemma handle_cases:
  assumes run: "handle h env a s = Some (a', s')"
  obtains (cancelled) r where "a' = reply (env_response env) r a" and "s' \<in> {tick s, tick (tick s)}"
      and "cancelled (env_control env (observed s))"
  | (served) resp b where "serve h (env_request env) (env_control env) a (tick s) = Some (resp, b, s')"
      and "\<not> cancelled (env_control env (observed s))"
      and "a' = (case resp of Some r \<Rightarrow> reply (env_response env) r b | None \<Rightarrow> b)"
proof (cases "cancelled (env_control env (observed s))")
  case True
  with run that(1) show thesis by (auto simp: handle_def cancel_response_def split: if_splits)
next
  case False
  with run obtain resp b t where "serve h (env_request env) (env_control env) a (tick s) = Some (resp, b, t)"
    by (auto simp: handle_def bind_eq_Some_conv)
  with run False that(2) show thesis by (cases resp) (auto simp: handle_def)
qed

lemma status_request_eq:
  assumes "status_request h account a s = (resp, a', s')"
  shows "a' = expired_actor (host_os h) a s \<and> s' = tick s"
  using assms by (auto simp: status_request_def expire_records_eq)

text \<open>Which ledger events a request may cause.\<close>

definition request_event :: "bytes \<Rightarrow> request \<Rightarrow> ledger_event \<Rightarrow> bool" where
  "request_event op_path r e \<longleftrightarrow>
     (case e of
        Expire t \<Rightarrow> True
      | Revoke \<Rightarrow> is_exec r
      | Grant account g \<Rightarrow> \<exists>context. r = ReqStart True account op_path context)"

lemma refines_serve:
  assumes run: "serve h r control a s = Some (resp, a', s')"
  shows "refines (request_event (actor_op_path a) r) (host_os h) a s a' s'"
proof (cases r)
  case (ReqStart warned account path ctx)
  with run have "start (host_os h) warned account path ctx control a s = Some (resp, a', s')"
    by (simp add: serve_def)
  from refines_start [OF this] show ?thesis
    by (rule refines_mono) (auto simp: request_event_def ReqStart elim: expires.elims split: ledger_event.splits)
next
  case (ReqStatus account)
  with run have "a' = expired_actor (host_os h) a s" "s' = tick s"
    using status_request_eq [of h account a s resp a' s'] by (auto simp: serve_def)
  moreover have "refines (request_event (actor_op_path a) r) (host_os h) a s (expired_actor (host_os h) a s) (tick s)"
    by (rule refines_mono [OF refines_expire]) (auto simp: request_event_def split: ledger_event.splits)
  ultimately show ?thesis by simp
next
  case (ReqExec account limit args ctx fds)
  with run have "execute (host_os h) account limit args ctx fds control a s = Some (resp, a', s')"
    by (simp add: serve_def)
  from refines_execute [OF this] show ?thesis
    by (rule refines_mono) (auto simp: request_event_def is_exec_def ReqExec split: ledger_event.splits)
qed

lemma actor_ledger_reply [simp]: "actor_ledger (reply c r a) = actor_ledger a"
  by (simp add: reply_def)

lemma refines_reply: "refines P os a s b t \<Longrightarrow> refines P os a s (reply c r b) t"
  by (rule refines_trans [OF _ refines_same]) (auto simp: reply_def)

lemma refines_handle:
  assumes run: "handle h env a s = Some (a', s')"
  shows "refines (request_event (actor_op_path a) (env_request env)) (host_os h) a s a' s'"
  using run
proof (cases rule: handle_cases)
  case (cancelled r)
  then show ?thesis by (intro refines_same) (auto simp: reply_def)
next
  case (served resp b)
  have "refines (request_event (actor_op_path a) (env_request env)) (host_os h) a s b s'"
    by (rule refines_trans [OF refines_same refines_serve [OF served(1)]]) auto
  with served(3) show ?thesis by (auto intro: refines_reply split: option.splits)
qed

lemma run_step_cases:
  assumes run: "run_step h a s = Some (on, a', s')"
  obtains (left) "\<not> on" and "a' = a \<or> (\<exists>t. observed s \<le> observed t \<and> observed t < observed s' \<and> a' = expired_actor (host_os h) a t)"
      and "observed s \<le> observed s'" and "effects s' = effects s" and "shutdown_stored s' = shutdown_stored s"
  | (idle) t where "on" and "observed s \<le> observed t" and "observed t < observed s'"
      and "a' = expired_actor (host_os h) a t" and "effects s' = effects s" and "shutdown_stored s' = shutdown_stored s"
  | (handled) env t u where "on" and "observed s \<le> observed t" and "observed t < observed u"
      and "effects t = effects s" and "effects u = effects s" and "shutdown_stored u = shutdown_stored s"
      and "handle h env (expired_actor (host_os h) a t) u = Some (a', s')"
      and "\<exists>n\<ge>observed s. n < observed u \<and> (host_try_recv h n = Received (RequestMessage env) \<or>
        (\<exists>d. host_recv_timeout h n d = Received (RequestMessage env)))"
  | (maintained) kr k n t u where "on" and "observed s \<le> observed t" and "observed t < observed u"
      and "effects t = effects s" and "effects u = effects s" and "shutdown_stored u = shutdown_stored s"
      and "kr \<in> set (host_iteration h n (actor_records (expired_actor (host_os h) a t)))"
      and "due_record (clock_at (host_os h) k) kr" and "observed t < k" and "k < n" and "n < observed u"
      and "maintain h (fst kr) (expired_actor (host_os h) a t) u = Some (a', s')"
proof -
  let ?s1 = "tick s" and ?s3 = "tick (tick (tick s))"
  define a1 where "a1 = expired_actor (host_os h) a ?s1"
  have ex: "expire_records (host_os h) a ?s1 = (a1, tick ?s1)" by (simp add: a1_def expire_records_eq)
  show thesis
  proof (cases "os_shutdown (host_os h) (observed s) \<or> shutdown_stored s")
    case True
    with run show ?thesis by (intro left) (auto simp: run_step_def)
  next
    case False
    show ?thesis
    proof (cases "host_try_recv h (observed (tick ?s1))")
      case (Received m)
      with run False show ?thesis
      proof (cases m)
        case (RequestMessage env)
        with run False Received have "on" "handle h env a1 ?s3 = Some (a', s')"
          by (auto simp: run_step_def ex observe_def bind_eq_Some_conv)
        then show ?thesis using Received RequestMessage
          by (intro handled [of ?s1 ?s3 env] exI [of _ "observed (tick ?s1)"]) (auto simp: a1_def)
      next
        case StopMessage
        with run False Received show ?thesis
          by (intro left) (auto simp: run_step_def ex observe_def intro!: exI [of _ ?s1])
      qed
    next
      case ChannelDisconnected
      with run False show ?thesis
        by (intro left) (auto simp: run_step_def ex observe_def intro!: exI [of _ ?s1])
    next
      case ChannelEmpty
      obtain due s4 where d: "due_maintenance h a1 ?s3 = (due, s4)" by fastforce
      have s4: "s4 = tick (tick ?s3)" using d by (auto simp: due_maintenance_def observe_def)
      show ?thesis
      proof (cases due)
        case (Some account)
        have "on" and m: "maintain h account a1 s4 = Some (a', s')"
          using run False ChannelEmpty d Some
          by (auto simp: run_step_def ex observe_def bind_eq_Some_conv)
        obtain kr where "List.find (due_record (clock_at (host_os h) (observed ?s3)))
            (host_iteration h (observed (tick ?s3)) (actor_records a1)) = Some kr" "account = fst kr"
          using d Some by (auto simp: due_maintenance_def observe_def)
        then have kr: "kr \<in> set (host_iteration h (observed (tick ?s3)) (actor_records a1))"
          "due_record (clock_at (host_os h) (observed ?s3)) kr" "account = fst kr"
          by (auto simp: find_Some_iff)
        show ?thesis
          using \<open>on\<close> m s4 kr
          by (intro maintained [of ?s1 s4 kr "observed (tick ?s3)" "observed ?s3"]) (auto simp: a1_def)
      next
        case None
        obtain pause s5 where n: "next_wait (host_os h) a1 s4 = (pause, s5)" by fastforce
        have s5: "s5 = tick s4" using n by (auto simp: next_wait_def)
        show ?thesis
        proof (cases "host_recv_timeout h (observed s5) (min pause (from_millis 100))")
          case (Received m)
          show ?thesis
          proof (cases m)
            case (RequestMessage env)
            with run False ChannelEmpty d None n Received
            have "on" "handle h env a1 (tick s5) = Some (a', s')"
              by (auto simp: run_step_def ex observe_def bind_eq_Some_conv)
            then show ?thesis using s4 s5 Received RequestMessage
              by (intro handled [of ?s1 "tick s5" env] exI [of _ "observed s5"]) (auto simp: a1_def)
          next
            case StopMessage
            with run False ChannelEmpty d None n Received s4 s5 show ?thesis
              by (intro left) (auto simp: run_step_def ex observe_def intro!: exI [of _ ?s1])
          qed
        next
          case ChannelEmpty': ChannelEmpty
          with run False ChannelEmpty d None n s4 s5 show ?thesis
            by (intro idle [of ?s1]) (auto simp: run_step_def ex observe_def)
        next
          case ChannelDisconnected
          with run False ChannelEmpty d None n s4 s5 show ?thesis
            by (intro left) (auto simp: run_step_def ex observe_def intro!: exI [of _ ?s1])
        qed
      qed
    qed
  qed
qed

section \<open>What every turn keeps\<close>

text \<open>
  The configuration of the executor never changes, and its table has one entry for each account.
\<close>

definition well_keyed :: "broker_actor \<Rightarrow> bool" where
  "well_keyed a \<longleftrightarrow> distinct (map fst (actor_records a))"

definition keeps :: "broker_actor \<Rightarrow> broker_actor \<Rightarrow> bool" where
  "keeps a a' \<longleftrightarrow>
     actor_op_path a' = actor_op_path a \<and> actor_user a' = actor_user a \<and>
     actor_terminal a' = actor_terminal a \<and> actor_timings a' = actor_timings a \<and>
     actor_started_at a' = actor_started_at a \<and> actor_complete a' = actor_complete a \<and>
     (\<exists>rs. actor_replies a' = actor_replies a @ rs) \<and> (well_keyed a \<longrightarrow> well_keyed a')"

lemma keeps_refl [simp, intro]: "keeps a a"
  by (simp add: keeps_def)

lemma keeps_trans: "keeps a b \<Longrightarrow> keeps b c \<Longrightarrow> keeps a c"
  by (auto simp: keeps_def)

lemma keeps_updates [simp]:
  "keeps a (expired_actor os a s)" "keeps a (invalidate_all a)" "keeps a (insert_record k r a)"
  "keeps a (refresh_record k at' due a)" "keeps a (reply c resp a)"
  by (auto simp: keeps_def well_keyed_def expire_records_eq invalidate_all_def insert_record_def
      refresh_record_def reply_def table.well_formed_rewrite table.well_formed_put
      split: option.splits authorization_record.splits)

lemma keeps_check:
  "automatic_check os account ctx control a s = Some (r, a', s') \<Longrightarrow> keeps a a'"
  by (erule automatic_check_cases) simp_all

lemma keeps_start:
  assumes "start os warned account path ctx control a s = Some (resp, a', s')"
  shows "keeps a a'"
  using assms
proof (cases rule: start_cases)
  case (granted s1 next_at due)
  show ?thesis unfolding granted(7)
    by (intro keeps_trans [OF keeps_trans [OF keeps_updates(1) keeps_updates(3)] keeps_updates(3)])
next
  case (refused outcome s1)
  show ?thesis unfolding refused(7) by (rule keeps_trans [OF keeps_updates(1) keeps_updates(3)])
qed simp_all

lemma keeps_execute:
  assumes "execute os account limit args ctx fds control a s = Some (resp, a', s')"
  shows "keeps a a'"
  using assms
proof (cases rule: execute_cases)
  case (stopped check a2 s2)
  have "keeps a a2" by (rule keeps_trans [OF _ keeps_check [OF stopped(2)]]) simp
  then show ?thesis using stopped(5) by (auto intro: keeps_trans)
next
  case (lapsed a2 s2)
  have "keeps a a2" by (rule keeps_trans [OF _ keeps_check [OF lapsed(2)]]) simp
  then show ?thesis unfolding lapsed(5) by (rule keeps_trans) simp
next
  case (ran a2 s2 a3 result s3)
  have "keeps a a2" by (rule keeps_trans [OF _ keeps_check [OF ran(2)]]) simp
  then have "keeps a a3" unfolding ran(3) by (rule keeps_trans) simp
  then show ?thesis unfolding ran(7) by (rule keeps_trans) simp
qed simp

lemma keeps_serve: "serve h r control a s = Some (resp, a', s') \<Longrightarrow> keeps a a'"
  by (cases r) (auto simp: serve_def dest: keeps_start keeps_execute status_request_eq)

lemma keeps_handle:
  assumes "handle h env a s = Some (a', s')"
  shows "keeps a a'"
  using assms
proof (cases rule: handle_cases)
  case (served resp b)
  with keeps_serve [OF served(1)] show ?thesis
    by (auto split: option.splits intro: keeps_trans)
qed simp

lemma keeps_maintain:
  assumes "maintain h account a s = Some (a', s')"
  shows "keeps a a'"
  using assms
proof (cases rule: maintain_cases)
  case (checked ctx s1 check a2 s2)
  from keeps_check [OF checked(3)] checked(4) show ?thesis by (auto intro: keeps_trans)
qed simp

lemma keeps_run_step:
  assumes "run_step h a s = Some (on, a', s')"
  shows "keeps a a'"
  using assms
proof (cases rule: run_step_cases)
  case (handled env t u)
  then show ?thesis using keeps_trans [OF _ keeps_handle [OF handled(7)]] by simp
next
  case (maintained kr k n t u)
  then show ?thesis using keeps_trans [OF _ keeps_maintain [OF maintained(12)]] by simp
qed auto

lemma refines_run_step:
  assumes "run_step h a s = Some (on, a', s')"
  shows "refines (\<lambda>_. True) (host_os h) a s a' s'"
proof -
  have ex: "refines (\<lambda>_. True) (host_os h) a s (expired_actor (host_os h) a t) u"
    if "observed s \<le> observed t" "observed t < observed u" for t u
    using refines_mono [OF refines_expire, of "\<lambda>_. True" "host_os h" a t] that
    by (intro refines_later [OF refines_trans [OF refines_same, of s t a a "\<lambda>_. True" "host_os h"]]) auto
  from assms show ?thesis
  proof (cases rule: run_step_cases)
    case left
    then show ?thesis using ex [of _ s'] by (auto intro: refines_same)
  next
    case (idle t)
    then show ?thesis using ex [of t s'] by simp
  next
    case (handled env t u)
    have "refines (\<lambda>_. True) (host_os h) (expired_actor (host_os h) a t) u a' s'"
      by (rule refines_mono [OF refines_handle [OF handled(7)]]) simp
    from refines_trans [OF ex [OF handled(2,3)] this] show ?thesis .
  next
    case (maintained kr k n t u)
    have "refines (\<lambda>_. True) (host_os h) (expired_actor (host_os h) a t) u a' s'"
      by (rule refines_mono [OF refines_maintain [OF maintained(12)]]) simp
    from refines_trans [OF ex [OF maintained(2,3)] this] show ?thesis .
  qed
qed
section \<open>Reachable states\<close>

inductive executor_reaches :: "host \<Rightarrow> broker_actor \<Rightarrow> sys \<Rightarrow> broker_actor \<Rightarrow> sys \<Rightarrow> bool"
  for h a0 s0 where
  begin_loop: "executor_reaches h a0 s0 a0 s0"
| turn: "executor_reaches h a0 s0 a s \<Longrightarrow> run_step h a s = Some (on, a', s') \<Longrightarrow>
    executor_reaches h a0 s0 a' s'"

text \<open>Every grant in the ledger was made by a start of its own: when it began, it read both clocks.\<close>

definition dated :: "os \<Rightarrow> broker_timings \<Rightarrow> nat \<Rightarrow> ledger \<Rightarrow> bool" where
  "dated os timings n l \<longleftrightarrow> (\<forall>k g. l k = Some g \<longrightarrow> (\<exists>m. Suc m < n \<and> g = new_grant os timings m))"

lemma dated_event:
  assumes "dated os timings n l" and "event_dated os timings m n e"
  shows "dated os timings n (apply_event e l)"
  using assms by (cases e) (auto simp: dated_def event_dated_def split: option.splits if_splits)

lemma dated_events:
  assumes "dated os timings n l" and "\<forall>e\<in>set evs. event_dated os timings m n e"
  shows "dated os timings n (apply_events evs l)"
  using assms by (induction evs arbitrary: l) (auto intro: dated_event)

lemma dated_refines:
  assumes "dated os (actor_timings a) (observed s) (actor_ledger a)" and "refines P os a s a' s'"
  shows "dated os (actor_timings a) (observed s') (actor_ledger a')"
proof -
  obtain evs where evs: "actor_ledger a' = apply_events evs (actor_ledger a)"
    "\<forall>e\<in>set evs. event_dated os (actor_timings a) (observed s) (observed s') e"
    "observed s \<le> observed s'"
    using assms(2) by (auto simp: refines_def)
  have "dated os (actor_timings a) (observed s') (actor_ledger a)"
    using assms(1) evs(3) unfolding dated_def by (meson less_le_trans)
  from dated_events [OF this evs(2)] evs(1) show ?thesis by simp
qed

lemma reaches_keeps: "executor_reaches h a0 s0 a s \<Longrightarrow> keeps a0 a \<and> observed s0 \<le> observed s"
proof (induction rule: executor_reaches.induct)
  case (turn a s on a' s')
  with keeps_run_step [OF turn(2)] refines_run_step [OF turn(2)] show ?case
    by (auto simp: refines_def intro: keeps_trans)
qed simp

lemma reaches_dated:
  assumes "executor_reaches h a0 s0 a s" and "dated (host_os h) (actor_timings a0) (observed s0) (actor_ledger a0)"
  shows "dated (host_os h) (actor_timings a0) (observed s) (actor_ledger a)"
  using assms
proof (induction rule: executor_reaches.induct)
  case (turn a s on a' s')
  have same: "actor_timings a = actor_timings a0" using reaches_keeps [OF turn(1)] by (simp add: keeps_def)
  from dated_refines [OF _ refines_run_step [OF turn(2)]] turn same show ?case by simp
qed

lemma new_actor_simps:
  assumes "new_actor os op_path user t s = (a, s')"
  shows "actor_op_path a = op_path" "actor_timings a = default_timings" "actor_records a = []"
    "actor_ledger a = (\<lambda>_. None)" "s' = tick s" "actor_replies a = []" "\<not> actor_complete a"
    "actor_terminal a = t" "actor_user a = user"
  using assms by (auto simp: new_actor_def ledger_of_def)

lemma run_loop_reaches:
  assumes returns: "run_loop h a s = Some x"
  shows "executor_reaches h a0 s0 a s \<longrightarrow> executor_reaches h a0 s0 (fst x) (snd x)"
proof (rule run_loop.raw_induct [OF _ returns, where P = "\<lambda>h a s x.
    executor_reaches h a0 s0 a s \<longrightarrow> executor_reaches h a0 s0 (fst x) (snd x)"])
  fix rec h a s x
  assume IH: "\<And>h a s x. rec h a s = Some x \<Longrightarrow>
      executor_reaches h a0 s0 a s \<longrightarrow> executor_reaches h a0 s0 (fst x) (snd x)"
    and body: "Option.bind (run_step h a s) (\<lambda>(more, a', s').
       if more then rec h a' s' else Some (a', s')) = Some x"
  show "executor_reaches h a0 s0 a s \<longrightarrow> executor_reaches h a0 s0 (fst x) (snd x)"
  proof
    assume r: "executor_reaches h a0 s0 a s"
    obtain on a' s' where step: "run_step h a s = Some (on, a', s')"
      and rest: "(if on then rec h a' s' else Some (a', s')) = Some x"
      using body by (auto simp: bind_eq_Some_conv)
    from executor_reaches.turn [OF r step] IH [of h a' s' x] rest
    show "executor_reaches h a0 s0 (fst x) (snd x)" by (auto split: if_splits)
  qed
qed

text \<open>What \<open>drain\<close> answers to the requests still queued.\<close>

lemma drain_replies:
  assumes returns: "drain h a s = Some x"
  shows "\<exists>queued. fst x = a\<lparr>actor_replies := actor_replies a @ map (\<lambda>c. (c, RespError Operational)) queued\<rparr>
    \<and> shutdown_stored (snd x) = shutdown_stored s \<and> effects (snd x) = effects s"
proof (rule drain.raw_induct [OF _ returns, where P = "\<lambda>h a s x.
    \<exists>queued. fst x = a\<lparr>actor_replies := actor_replies a @ map (\<lambda>c. (c, RespError Operational)) queued\<rparr>
    \<and> shutdown_stored (snd x) = shutdown_stored s \<and> effects (snd x) = effects s"])
  fix rec h a s x
  let ?Q = "\<lambda>a s x. \<exists>queued. fst x = a\<lparr>actor_replies := actor_replies a @ map (\<lambda>c. (c, RespError Operational)) queued\<rparr>
    \<and> shutdown_stored (snd x) = shutdown_stored s \<and> effects (snd x) = effects s"
  assume IH: "\<And>h a s x. rec h a s = Some x \<Longrightarrow> ?Q a s x"
    and body: "(case observe (host_try_recv h) s of (message, s') \<Rightarrow>
       (case message of
          Received m \<Rightarrow>
            (case m of
               RequestMessage env \<Rightarrow> rec h (reply (env_response env) (RespError Operational) a) s'
             | StopMessage \<Rightarrow> rec h a s')
        | ChannelEmpty \<Rightarrow> Some (a, s')
        | ChannelDisconnected \<Rightarrow> Some (a, s'))) = Some x"
  consider env where "host_try_recv h (observed s) = Received (RequestMessage env)"
    | "host_try_recv h (observed s) = Received StopMessage"
    | "host_try_recv h (observed s) \<in> {ChannelEmpty, ChannelDisconnected}"
    by (metis actor_message.exhaust insertCI polled.exhaust)
  then show "?Q a s x"
  proof cases
    case (1 env)
    with body have "rec h (reply (env_response env) (RespError Operational) a) (tick s) = Some x"
      by (simp add: observe_def)
    from IH [OF this] obtain queued where
      "fst x = a\<lparr>actor_replies := actor_replies a @ map (\<lambda>c. (c, RespError Operational)) (env_response env # queued)\<rparr>"
      "shutdown_stored (snd x) = shutdown_stored s \<and> effects (snd x) = effects s"
      by (auto simp: reply_def)
    then show ?thesis by blast
  next
    case 2
    with body have "rec h a (tick s) = Some x" by (simp add: observe_def)
    from IH [OF this] show ?thesis by simp
  next
    case 3
    with body have "x = (a, tick s)" by (auto simp: observe_def)
    then show ?thesis by (intro exI [of _ "[]"]) simp
  qed
qed

section \<open>Pauses and maintenance\<close>

lemma foldl_min: "foldl min d ds \<in> set (d # ds) \<and> (\<forall>x\<in>set (d # ds). foldl min d ds \<le> x)"
  for d :: "'a::linorder"
proof (induction ds arbitrary: d)
  case (Cons e ds)
  from Cons [of "min d e"] show ?case by (auto simp: min_def split: if_splits)
qed simp

lemma wake_deadlines_mem:
  "x \<in> set (wake_deadlines rs) \<longleftrightarrow>
    (\<exists>k active. (k, Active active) \<in> set rs \<and> x = min (next_probe_deadline active) (hard_deadline active))"
  by (induction rs rule: wake_deadlines.induct) auto

end
