(* ===== verification/Guarantees.thy ===== *)
theory Guarantees
  imports Safety
begin

text \<open>
  The properties of the broker's executor, each with an example in a concrete world: \<open>still\<close>, in
  which every call succeeds, every child exits with code 0 and the clock stands at one instant.
\<close>

section \<open>The example world\<close>

definition still :: os where
  "still = calm\<lparr>os_clock_gettime := (\<lambda>n. Inr (1000, 0))\<rparr>"

lemma still_simps [simp]:
  "os_wall still n = int n * 1000000000" "os_shutdown still n = False"
  "os_pipe still n = Inr (2 * n, 2 * n + 1)" "os_thread_spawn still n = None"
  "os_spawn_setup still n = None" "os_posix_spawn still n call = Inr 100"
  "os_kill_zero still n p = Some ESRCH" "os_waitpid still n p = Inr (Exited p 0)"
  "os_probe_closed still n" "os_call still n e = None" "clock_at still n = 1000000000000"
  "os_confstr_length still n name = 0"
  by (simp_all add: still_def clock_at_def monotonic_now_def u64_from_int_or_def
      saturating_mul_u64_def saturating_add_u64_def)

text \<open>In this world every child of a command or a probe is started and exits with 0.\<close>

lemma cstring_eval: "0 \<notin> set b \<Longrightarrow> cstring b = Inr b"
  by (simp add: cstring_def)

lemma cstrings_eval: "\<forall>x\<in>set xs. 0 \<notin> set x \<Longrightarrow> cstrings xs = Inr xs"
  by (induction xs) (auto simp: cstring_eval)

lemma still_spawn:
  assumes "spawnable input"
  obtains s' where "spawn_suspended still input s = (Inr 100, s')" and "shutdown_stored s' = shutdown_stored s"
proof -
  have "cstrings (map environment_entry (si_environment input)) = Inr (map environment_entry (si_environment input))"
    using assms by (intro cstrings_eval) (auto simp: spawnable_def environment_entry_nul)
  then have "\<exists>s'. spawn_suspended still input s = (Inr 100, s') \<and> shutdown_stored s' = shutdown_stored s"
    using assms
    by (auto simp: spawn_suspended_def spawn_prepare_def spawnable_def cstring_eval cstrings_eval actions_new_def
      actions_dup2_def actions_chdir_def attributes_new_def attributes_configure_def spawn_setup_def
      Let_def default_signals_def SPAWN_FLAGS_def and_then_def pure_act_def observe_def raw_unit_def
      raw_os_def split: prod.splits)
  with that show thesis by blast
qed

lemma still_supervise:
  assumes "\<not> shutdown_stored s" and "\<And>n. closed n" and "\<And>n. \<not> cancelled (control n)"
    and "case limit of None \<Rightarrow> True | Some v \<Rightarrow> 1000000000000 < v"
  shows "\<exists>s'. supervise still t 100 (wait_inner still 100 limit control closed loop_start) s
    = Some (Inr (OutExited 0), s') \<and> \<not> shutdown_stored s'"
  using assms
  by (cases limit) (simp_all add: supervise_def foreground_def restore_foreground_def wait_eval not_le word_less_nat_alt)

lemma still_run:
  assumes "spawnable (child_input exe args ctx vars fds)" and "\<not> shutdown_stored s"
    and "\<And>n. streams_closed (control n)" and "\<And>n. \<not> cancelled (control n)"
    and "case limit of None \<Rightarrow> True | Some v \<Rightarrow> 1000000000000 < v"
  shows "\<exists>s'. runner_run still exe t args ctx vars fds limit control s = Some (Inr (OutExited 0), s') \<and>
    \<not> shutdown_stored s'"
proof -
  obtain s1 where s1: "spawn_suspended still (child_input exe args ctx vars fds) s = (Inr 100, s1)"
    "shutdown_stored s1 = shutdown_stored s" by (rule still_spawn [OF assms(1)])
  from still_supervise [of s1 "\<lambda>n. streams_closed (control n)" control limit t] s1 assms show ?thesis
    by (simp add: runner_run_def child_input_def)
qed

lemma still_probe:
  assumes "\<And>fds. spawnable (child_input (actor_op_path a) args ctx vars fds)" and "\<not> shutdown_stored s"
    and "\<And>n. \<not> cancelled (control n)" and "1000000000000 < limit"
  shows "\<exists>s'. probe still a args ctx vars limit control s = Some (Inr (OutExited 0), s') \<and> \<not> shutdown_stored s'"
proof -
  obtain fds s1 where p: "probe_pipes still s = (Inr fds, s1)" "shutdown_stored s1 = shutdown_stored s"
    by (simp add: probe_pipes_def and_then_def query_def observe_def raw_os_def raw_unit_def pure_act_def)
  obtain s2 where s2: "spawn_suspended still (child_input (actor_op_path a) args ctx vars fds) s1 = (Inr 100, s2)"
    "shutdown_stored s2 = shutdown_stored s1" by (rule still_spawn [OF assms(1)])
  from still_supervise [of s2 "os_probe_closed still" control "Some limit" "actor_terminal a"] p s2 assms
  show ?thesis by (simp add: probe_def runner_probe_def child_input_def)
qed

text \<open>The example's executor: one account, \<open>work\<close>, authorized at the clock's instant.\<close>

definition work :: account where
  "work = Account (Some (ascii ''work''))"

definition home :: client_context where
  "home = \<lparr>cwd = ascii ''/home'', environment = [(ascii ''PATH'', ascii ''/bin'')]\<rparr>"

definition idle_actor :: broker_actor where
  "idle_actor =
     \<lparr>actor_op_path = ascii ''/bin/op'',
      actor_user = \<lparr>uid = 501, user_name = ascii ''u'', user_home = ascii ''/home''\<rparr>,
      actor_terminal = example_terminal, actor_timings = default_timings, actor_started_at = 0,
      actor_records = [], actor_replies = [], actor_complete = False\<rparr>"

definition granted_actor :: broker_actor where
  "granted_actor = insert_record work (Active
     \<lparr>authorized_at = 0, hard_expires_at = int (hard_limit default_timings),
      hard_deadline = add_duration 1000000000000 (hard_limit default_timings),
      next_probe_at = 0, next_probe_deadline = 1000000000000\<rparr>) idle_actor"

lemma example_simps [simp]:
  "actor_op_path idle_actor = ascii ''/bin/op''" "actor_records idle_actor = []"
  "actor_timings idle_actor = default_timings" "actor_op_path granted_actor = ascii ''/bin/op''"
  "actor_timings granted_actor = default_timings" "actor_ledger idle_actor = (\<lambda>_. None)"
  "ledger_of [] = (\<lambda>_. None)"
  by (simp_all add: idle_actor_def granted_actor_def insert_record_def ledger_of_def fun_eq_iff)

lemma example_limits [simp]:
  "unat (add_duration 1000000000000 (check_timeout default_timings)) = 1005000000000"
  "unat (add_duration 1000000000000 (explicit_timeout default_timings)) = 1120000000000"
  "unat (add_duration 1000000000000 (hard_limit default_timings)) = 44200000000000"
  by (simp_all add: unat_add_duration default_timings_def from_secs_def)

lemma example_limits_less [simp]:
  "1000000000000 < add_duration 1000000000000 (check_timeout default_timings)"
  "1000000000000 < add_duration 1000000000000 (explicit_timeout default_timings)"
  "1000000000000 < add_duration 1000000000000 (hard_limit default_timings)"
  "\<not> add_duration 1000000000000 (hard_limit default_timings) \<le> 1000000000000"
  by (simp_all add: word_less_nat_alt word_le_nat_alt)

lemma granted_ledger:
  "actor_ledger granted_actor work = Some \<lparr>granted_at = 0, granted_until = int (hard_limit default_timings),
      granted_deadline = add_duration 1000000000000 (hard_limit default_timings)\<rparr>"
  by (simp add: granted_actor_def insert_record_def idle_actor_def ledger_of_def)

lemma home_spawnable:
  assumes "0 \<notin> \<Union> (set ` set args)"
  shows "spawnable (child_input (ascii ''/bin/op'') args home (sanitized home work) fds)"
  using assms
  by (auto simp: spawnable_def child_input_def home_def sanitized_def work_def remove_var_def set_var_def
      is_removed_def literals)

lemma check_succeeds:
  assumes sp: "\<And>args fds. args \<in> {WHOAMI, VAULT_LIST} \<Longrightarrow>
      spawnable (child_input (actor_op_path a) args ctx (sanitized ctx work) fds)"
    and "actor_timings a = default_timings" and "\<not> shutdown_stored s" and "\<And>n. \<not> cancelled (control n)"
  shows "\<exists>a' s'. automatic_check still work ctx control a s = Some (CheckSuccess, a', s') \<and>
    actor_ledger a' = actor_ledger a \<and> same_actor a a' \<and> \<not> shutdown_stored s'"
proof -
  let ?limit = "add_duration 1000000000000 (check_timeout default_timings)"
  obtain s1 where s1: "probe still a WHOAMI ctx (sanitized ctx work) ?limit control (tick s) = Some (Inr (OutExited 0), s1)"
    "\<not> shutdown_stored s1"
    using still_probe [of a WHOAMI ctx "sanitized ctx work" "tick s" control ?limit] sp assms by auto
  obtain s2 where s2: "probe still a VAULT_LIST ctx (sanitized ctx work) ?limit control s1 = Some (Inr (OutExited 0), s2)"
    "\<not> shutdown_stored s2"
    using still_probe [of a VAULT_LIST ctx "sanitized ctx work" s1 control ?limit] sp assms s1 by auto
  obtain a' s' where r: "automatic_check still work ctx control a s = Some (CheckSuccess, a', s')"
    "s' = tick (tick s2)"
    using s1 s2 assms(2) by (auto simp: automatic_check_def Let_def classify_check_def)
  with automatic_check_ledger automatic_check_same s2 show ?thesis by auto
qed

lemma granted_check:
  assumes "actor_op_path a = ascii ''/bin/op''" and "actor_timings a = default_timings"
    and "\<not> shutdown_stored s" and "\<And>n. \<not> cancelled (control n)"
  shows "\<exists>a' s'. automatic_check still work home control a s = Some (CheckSuccess, a', s') \<and>
    actor_ledger a' = actor_ledger a \<and> same_actor a a' \<and> \<not> shutdown_stored s'"
proof (rule check_succeeds [OF _ assms(2-4)])
  fix args fds
  assume "args \<in> {WHOAMI, VAULT_LIST}"
  then have "0 \<notin> \<Union> (set ` set args)" by (auto simp: WHOAMI_def VAULT_LIST_def literals)
  from home_spawnable [OF this] assms(1)
  show "spawnable (child_input (actor_op_path a) args home (sanitized home work) fds)" by simp
qed

text \<open>The example run: the command \<open>item get\<close> for the authorized account.\<close>

abbreviation item_get :: "bytes list" where
  "item_get \<equiv> [ascii ''item'', ascii ''get'']"

lemma expire_obtain:
  obtains a1 where "expire_records os a s = (a1, tick s)" and "same_actor a a1"
    and "actor_ledger a1 = apply_event (Expire (clock_at os (observed s))) (actor_ledger a)"
  using that [of "expired_actor os a s"] by (simp add: expire_records_eq ledger_expired)

lemma example_execute_in:
  assumes actor: "actor_op_path a = ascii ''/bin/op''" "actor_timings a = default_timings"
    and grant: "actor_ledger a work = Some g" "1000000000000 < granted_deadline g" and s: "\<not> shutdown_stored s"
  shows "\<exists>a' s'. execute still work 2000000000 item_get home (7, 8, 9) at_ease a s
     = Some (Some (RespExec 0 DiagNone), a', s')"
proof -
  obtain a1 where e1: "expire_records still a s = (a1, tick s)"
    and same1: "same_actor a a1"
    and l1: "actor_ledger a1 = apply_event (Expire 1000000000000) (actor_ledger a)"
    using expire_obtain [of still a s] by auto
  obtain a2 s2 where c: "automatic_check still work home at_ease a1 (tick s) = Some (CheckSuccess, a2, s2)"
    and l2: "actor_ledger a2 = actor_ledger a1" and same2: "same_actor a1 a2" and sh: "\<not> shutdown_stored s2"
    using granted_check [of a1 "tick s" at_ease] s by (auto simp: same_actor_simps [OF same1] actor)
  obtain a3 where e3: "expire_records still a2 s2 = (a3, tick s2)" and same: "same_actor a2 a3"
    and l3: "actor_ledger a3 = apply_event (Expire 1000000000000) (actor_ledger a2)"
    using expire_obtain [of still a2 s2] by auto
  note same3 = same_actor_trans [OF same_actor_trans [OF same1 same2] same]
  have act: "is_active (actor_records a1) work" "is_active (actor_records a3) work"
    using l1 l2 l3 grant by (auto simp: is_active_ledger)
  have limit: "1000000000000 < add_duration 1000000000000 (unat (2000000000 :: u64))"
    by (simp add: word_less_nat_alt unat_add_duration)
  have nul: "0 \<notin> \<Union> (set ` set item_get)" by (simp add: literals)
  obtain s3 where r: "runner_run still (actor_op_path a3) (actor_terminal a3) item_get home (sanitized home work)
      (7, 8, 9) (Some (add_duration 1000000000000 (unat (2000000000 :: u64)))) at_ease (tick (tick s2))
      = Some (Inr (OutExited 0), s3)"
    using still_run [of "actor_op_path a3" item_get home "sanitized home work" "(7, 8, 9)" "tick (tick s2)" at_ease
        "Some (add_duration 1000000000000 (unat (2000000000 :: u64)))" "actor_terminal a3"]
      home_spawnable [OF nul, of "(7, 8, 9)"] sh limit
    by (auto simp: same_actor_simps [OF same3] actor)
  obtain a4 where e4: "expire_records still a3 s3 = (a4, tick s3)" by (rule expire_obtain)
  show ?thesis
    unfolding execute_def e1 Let_def using act c r by (simp add: e3 e4 execute_response_def)
qed

lemma example_execute:
  "\<exists>a' s'. execute still work 2000000000 item_get home (7, 8, 9) at_ease granted_actor boot
     = Some (Some (RespExec 0 DiagNone), a', s')"
  by (rule example_execute_in [OF _ _ granted_ledger]) simp_all

section \<open>Requests\<close>

text \<open>
  C1: No command without a fresh check. An exec request starts at most three children, in this order and
  with no other start in between: \<^verbatim>\<open>op whoami\<close>, \<^verbatim>\<open>op vault list\<close>, the requested command, all in the
  client's directory with the environment sanitized for the selected account. The command is
  started only if the account had a grant whose hard deadline was still ahead at a clock reading made
  after both checks had been reaped with exit code 0. A request answered with "authorization
  required" has not started its command.
\<close>

theorem execute_guarded:
  assumes "execute os account timeout_nanos arguments context descriptors control a s = Some (resp, a', s')"
  shows "\<exists>d1 d2 calls. let w = op_call a context account WHOAMI d1; v = op_call a context account VAULT_LIST d2;
      c = op_call a context account arguments descriptors in
    runs_children calls s s' \<and> prefix calls [w, v, c] \<and>
    (calls = [w, v, c] \<longrightarrow> resp \<noteq> Some (RespError AuthorizationRequired) \<and>
      (\<exists>t g. runs_children [w, v] s t \<and> runs_children [c] t s' \<and>
        child_exited os w 0 s t \<and> child_exited os v 0 s t \<and>
        actor_ledger a account = Some g \<and> clock_at os (observed t) < granted_deadline g))"
  using assms
proof (cases rule: execute_children)
  case (not_run calls d1 d2)
  let ?w = "op_call a context account WHOAMI d1" and ?v = "op_call a context account VAULT_LIST d2"
  let ?c = "op_call a context account arguments descriptors"
  have "length calls \<le> 2" using prefix_length_le [OF not_run(2)] by simp
  then have "calls \<noteq> [?w, ?v, ?c]" by auto
  moreover have "prefix calls [?w, ?v, ?c]"
    using not_run(2) prefix_order.trans [of calls "[?w, ?v]" "[?w, ?v, ?c]"] by simp
  ultimately show ?thesis
    using not_run(1) unfolding Let_def by (intro exI [of _ d1] exI [of _ d2] exI [of _ calls]) simp
next
  case (command d1 d2 t g result)
  let ?w = "op_call a context account WHOAMI d1" and ?v = "op_call a context account VAULT_LIST d2"
  let ?c = "op_call a context account arguments descriptors"
  have resp: "resp \<noteq> Some (RespError AuthorizationRequired)"
    unfolding command(7) by (auto simp: execute_response_def split: sum.splits process_outcome.splits)
  from command(6) show ?thesis
  proof (elim disjE conjE)
    assume c: "runs_children [?c] t s'"
    have "runs_children [?w, ?v, ?c] s s'" using runs_children_trans [OF command(1) c] by simp
    with c command resp show ?thesis
      unfolding Let_def by (intro exI [of _ d1] exI [of _ d2] exI [of _ "[?w, ?v, ?c]"]) auto
  next
    assume none: "runs_children [] t s'"
    have "runs_children [?w, ?v] s s'" using runs_children_trans [OF command(1) none] by simp
    then show ?thesis
      unfolding Let_def by (intro exI [of _ d1] exI [of _ d2] exI [of _ "[?w, ?v]"]) simp
  qed
qed

theorem execute_guarded_witness:
  "\<exists>d1 d2 s'. prefix (spawned (new_effects boot s'))
     [op_call granted_actor home work WHOAMI d1, op_call granted_actor home work VAULT_LIST d2,
      op_call granted_actor home work item_get (7, 8, 9)]"
proof -
  obtain a' s' where "execute still work 2000000000 item_get home (7, 8, 9) at_ease granted_actor boot
     = Some (Some (RespExec 0 DiagNone), a', s')" using example_execute by blast
  from execute_guarded [OF this] obtain d1 d2 where "prefix (spawned (new_effects boot s'))
     [op_call granted_actor home work WHOAMI d1, op_call granted_actor home work VAULT_LIST d2,
      op_call granted_actor home work item_get (7, 8, 9)]"
    unfolding Let_def runs_children_def by blast
  then show ?thesis by blast
qed

lemma execute_exit:
  assumes "execute os account timeout_nanos arguments context descriptors control a s
    = Some (Some (RespExec code diag), a', s')"
  shows "diag = DiagTimeout \<and> code = 124 \<or>
    diag = DiagNone \<and> child_exited os (op_call a context account arguments descriptors) code s s' \<or>
    diag = DiagNone \<and> (\<exists>sig. code = 128 + sig \<and> (signal_seen os control sig \<or> (\<exists>n. sig = cancel_signal (control n) \<and> 0 <s sig)))"
  using assms
proof (cases rule: execute_children)
  case (not_run calls d1 d2)
  from not_run(3) [OF refl] show ?thesis by blast
next
  case (command d1 d2 t g result)
  show ?thesis
  proof (cases "\<exists>k. result = Inr (OutExited k)")
    case True
    then obtain k where k: "result = Inr (OutExited k)" by blast
    with command(7) have "code = k" "diag = DiagNone" by (simp_all add: execute_response_def)
    moreover have "child_exited os (op_call a context account arguments descriptors) k s s'"
      using child_exited_mono [OF command(8) [OF k] runs_children_moves [OF command(1)] moves_refl] .
    ultimately show ?thesis by simp
  next
    case False
    with command(7,9) show ?thesis
      by (auto simp: execute_response_def split: sum.splits process_outcome.splits if_splits)
  qed
qed



text \<open>
  C3: A refusal is final until the next start. When an exec request is answered with "authorization
  required", the account has no grant afterwards; and if a check was started and did not succeed, no
  account has one.
\<close>

theorem execute_refusal:
  assumes "execute os account timeout_nanos arguments context descriptors control a s
    = Some (Some (RespError AuthorizationRequired), a', s')"
  shows "actor_ledger a' account = None \<and>
    (spawned (new_effects s s') = [] \<or> actor_ledger a' = (\<lambda>_. None) \<or>
     (\<exists>d1 d2. child_exited os (op_call a context account WHOAMI d1) 0 s s' \<and>
       child_exited os (op_call a context account VAULT_LIST d2) 0 s s'))"
  using assms
proof (cases rule: execute_cases)
  case inactive
  then show ?thesis by (auto simp: is_active_ledger)
next
  case (stopped check a2 s2)
  then have "check = CheckFailed"
    by (cases check) (auto simp: cancel_response_def split: if_splits)
  with stopped(5) show ?thesis by simp
next
  case (lapsed a2 s2)
  have calls: "op_call (expired_actor os a s) = op_call a" by (rule op_call_same) simp
  from lapsed(2) show ?thesis
  proof (cases rule: automatic_check_children)
    case (passed d1 d2)
    have "child_exited os (op_call a context account WHOAMI d1) 0 s s'"
      "child_exited os (op_call a context account VAULT_LIST d2) 0 s s'"
      using child_exited_mono [OF passed(3) [unfolded calls] runs_children_moves [OF runs_children_tick]
          runs_children_moves [OF runs_children_tick]]
        child_exited_mono [OF passed(4) [unfolded calls] runs_children_moves [OF runs_children_tick]
          runs_children_moves [OF runs_children_tick]] lapsed(6) by simp_all
    moreover have "actor_ledger a' account = None" using lapsed(3,5) by (simp add: is_active_ledger)
    ultimately show ?thesis by blast
  qed simp
next
  case (ran a2 s2 a3 result s3)
  then show ?thesis by (auto simp: execute_response_def split: sum.splits process_outcome.splits if_splits)
qed

theorem execute_refusal_witness:
  "\<exists>a' s'. execute still work 2000000000 item_get home (7, 8, 9) at_ease idle_actor boot
     = Some (Some (RespError AuthorizationRequired), a', s') \<and> actor_ledger a' work = None"
proof -
  obtain a1 where e1: "expire_records still idle_actor boot = (a1, tick boot)"
    and l1: "actor_ledger a1 = apply_event (Expire 1000000000000) (actor_ledger idle_actor)"
    using expire_obtain [of still idle_actor boot] by auto
  have "execute still work 2000000000 item_get home (7, 8, 9) at_ease idle_actor boot
     = Some (Some (RespError AuthorizationRequired), a1, tick boot)"
    using l1 by (simp add: execute_def e1 is_active_ledger)
  from this execute_refusal [OF this] show ?thesis by blast
qed

text \<open>
  C4: Authorization is asked for explicitly. A start request starts no child, or exactly one
  \<^verbatim>\<open>op vault list\<close>, and the latter only when the warning was acknowledged, the pinned executable
  matches and the account had no unexpired grant. When it answers \<^verbatim>\<open>Ok\<close> the account holds a grant
  afterwards, and a child that was started was reaped with exit code 0.
\<close>

theorem start_authorizes:
  assumes "start os warning_shown account op_path context control a s = Some (resp, a', s')"
  shows "\<exists>d calls. let v = op_call a context account VAULT_LIST d in
    runs_children calls s s' \<and> calls \<in> {[], [v]} \<and>
    (calls = [v] \<longrightarrow> warning_shown \<and> op_path = actor_op_path a \<and>
      actor_ledger (expired_actor os a s) account = None \<and>
      (resp = Some RespOk \<longrightarrow> child_exited os v 0 s s')) \<and>
    (resp = Some RespOk \<longrightarrow> actor_ledger a' account \<noteq> None)"
  using assms
proof (cases rule: start_children)
  case quiet
  then show ?thesis unfolding Let_def by (intro exI [of _ undefined] exI [of _ "[]"]) auto
next
  case (asked d)
  then show ?thesis
    unfolding Let_def
    by (intro exI [of _ d] exI [of _ "[op_call a context account VAULT_LIST d]"]) auto
qed

lemma example_start:
  assumes "\<not> shutdown_stored s" and actor: "actor_op_path a = ascii ''/bin/op''"
    "actor_timings a = default_timings" "actor_ledger a = (\<lambda>_. None)"
  shows "\<exists>a' s'. start still True work (ascii ''/bin/op'') home at_ease a s = Some (Some RespOk, a', s') \<and>
     actor_ledger a' work = Some (new_grant still default_timings (Suc (observed s))) \<and> \<not> shutdown_stored s'"
proof -
  obtain a1 where e1: "expire_records still a s = (a1, tick s)" and same: "same_actor a a1"
    and l1: "actor_ledger a1 = apply_event (Expire 1000000000000) (actor_ledger a)"
    using expire_obtain [of still a s] by auto
  let ?a2 = "insert_record work Required a1"
  have a1: "actor_op_path a1 = ascii ''/bin/op''" "actor_timings a1 = default_timings"
    using same_actor_simps [OF same] actor by simp_all
  have a2: "actor_op_path ?a2 = ascii ''/bin/op''" "actor_timings ?a2 = default_timings"
    using a1 by (simp_all add: insert_record_def)
  have nul: "0 \<notin> \<Union> (set ` set VAULT_LIST)" by (simp add: VAULT_LIST_def literals)
  obtain s1 where p: "probe still ?a2 VAULT_LIST home (sanitized home work)
      (add_duration 1000000000000 (explicit_timeout default_timings)) at_ease (tick (tick (tick s)))
      = Some (Inr (OutExited 0), s1)" "\<not> shutdown_stored s1"
    using still_probe [of ?a2 VAULT_LIST home "sanitized home work" "tick (tick (tick s))" at_ease
        "add_duration 1000000000000 (explicit_timeout default_timings)"]
      home_spawnable [OF nul] a2 assms by auto
  have "\<not> is_active (actor_records a1) work" using l1 actor by (simp add: is_active_ledger)
  then show ?thesis
    using a1 p unfolding start_def e1 Let_def
    by (simp add: a2 insert_record_def ledger_insert_active new_grant_def)
qed

theorem start_authorizes_witness:
  "\<exists>a' s' d. start still True work (ascii ''/bin/op'') home at_ease idle_actor boot = Some (Some RespOk, a', s') \<and>
     actor_ledger a' work \<noteq> None \<and>
     spawned (new_effects boot s') \<in> {[], [op_call idle_actor home work VAULT_LIST d]}"
proof -
  obtain a' s' where s: "start still True work (ascii ''/bin/op'') home at_ease idle_actor boot = Some (Some RespOk, a', s')"
    using example_start [of boot idle_actor] by auto
  from start_authorizes [OF s] obtain d where
    "spawned (new_effects boot s') \<in> {[], [op_call idle_actor home work VAULT_LIST d]}" "actor_ledger a' work \<noteq> None"
    unfolding Let_def runs_children_def by blast
  with s show ?thesis by blast
qed

text \<open>
  C5: Refinement of the ledger. Handling any request changes the ledger of grants by a sequence of
  events only: expiry of grants whose hard deadline is at or before a clock reading made during the
  request; revocation of all grants, only by an exec request; and, only by a warned start request that names the
  pinned executable, one grant for that request's account, dated by the readings of both clocks made
  during the request and lasting the hard limit.
\<close>

theorem handle_refines_ledger:
  assumes "handle h env a s = Some (a', s')"
  shows "\<exists>evs. actor_ledger a' = apply_events evs (actor_ledger a) \<and>
    (\<forall>e\<in>set evs. case e of
        Expire t \<Rightarrow> \<exists>k\<ge>observed s. k < observed s' \<and> t = clock_at (host_os h) k
      | Revoke \<Rightarrow> is_exec (env_request env)
      | Grant account g \<Rightarrow> (\<exists>context. env_request env = ReqStart True account (actor_op_path a) context) \<and>
          (\<exists>k\<ge>observed s. Suc k < observed s' \<and> g = new_grant (host_os h) (actor_timings a) k))"
proof -
  obtain evs where evs: "actor_ledger a' = apply_events evs (actor_ledger a)"
    "\<forall>e\<in>set evs. request_event (actor_op_path a) (env_request env) e \<and>
       event_dated (host_os h) (actor_timings a) (observed s) (observed s') e"
    using refines_handle [OF assms] by (auto simp: refines_def)
  have "case e of
        Expire t \<Rightarrow> \<exists>k\<ge>observed s. k < observed s' \<and> t = clock_at (host_os h) k
      | Revoke \<Rightarrow> is_exec (env_request env)
      | Grant account g \<Rightarrow> (\<exists>context. env_request env = ReqStart True account (actor_op_path a) context) \<and>
          (\<exists>k\<ge>observed s. Suc k < observed s' \<and> g = new_grant (host_os h) (actor_timings a) k)"
    if "e \<in> set evs" for e
    using evs(2) that by (cases e) (auto simp: request_event_def event_dated_def)
  with evs(1) show ?thesis by blast
qed

text \<open>An example host: the channel holds one start request, then a stop.\<close>

definition start_envelope :: envelope where
  "start_envelope = \<lparr>env_request = ReqStart True work (ascii ''/bin/op'') home, env_response = 1,
     env_control = at_ease\<rparr>"

definition example_host :: host where
  "example_host =
     \<lparr>host_os = still,
      host_try_recv = (\<lambda>n. if n < 4 then Received (RequestMessage start_envelope) else Received StopMessage),
      host_recv_timeout = (\<lambda>n d. ChannelEmpty), host_iteration = (\<lambda>n rs. rs),
      host_format = \<lparr>to_vec = (\<lambda>v. Inr []), from_slice = (\<lambda>b. None), rfc3339 = (\<lambda>t. Inr [])\<rparr>,
      host_version = ascii ''0.1.0''\<rparr>"

lemma example_host_simps [simp]: "host_os example_host = still"
  by (simp add: example_host_def)

lemma example_handle:
  "\<exists>a' s'. handle example_host start_envelope idle_actor boot = Some (a', s') \<and>
     actor_ledger a' work = Some (new_grant still default_timings 2)"
proof -
  obtain a' s' where "start still True work (ascii ''/bin/op'') home at_ease idle_actor (tick boot)
      = Some (Some RespOk, a', s')" "actor_ledger a' work = Some (new_grant still default_timings 2)"
    using example_start [of "tick boot" idle_actor] by (auto simp: numeral_2_eq_2)
  then show ?thesis
    by (simp add: handle_def start_envelope_def serve_def)
qed

theorem handle_refines_ledger_witness:
  "\<exists>a' evs. actor_ledger a' work \<noteq> None \<and> actor_ledger a' = apply_events evs (actor_ledger idle_actor) \<and>
    Revoke \<notin> set evs"
proof -
  obtain a' s' where h: "handle example_host start_envelope idle_actor boot = Some (a', s')"
    "actor_ledger a' work = Some (new_grant still default_timings 2)"
    using example_handle by blast
  from handle_refines_ledger [OF h(1)] obtain evs where "actor_ledger a' = apply_events evs (actor_ledger idle_actor)"
    "\<forall>e\<in>set evs. case e of
        Expire t \<Rightarrow> \<exists>k\<ge>observed boot. k < observed s' \<and> t = clock_at (host_os example_host) k
      | Revoke \<Rightarrow> is_exec (env_request start_envelope)
      | Grant account g \<Rightarrow> (\<exists>context. env_request start_envelope = ReqStart True account (actor_op_path idle_actor) context) \<and>
          (\<exists>k\<ge>observed boot. Suc k < observed s' \<and> g = new_grant (host_os example_host) (actor_timings idle_actor) k)"
    by blast
  moreover from this(2) have "Revoke \<notin> set evs" by (auto simp: is_exec_def start_envelope_def)
  ultimately show ?thesis using h(2) by (intro exI [of _ a'] exI [of _ evs]) simp
qed

section \<open>The executor over time\<close>

text \<open>
  C6: Invariant of the executor. In every state the loop reaches from a new executor, the executable,
  user, terminal, timings and start time are those it was created with, the table has one record
  for each account, and every grant was made by one start: it is dated by a wall-clock and a
  monotonic reading made after the executor was created, and lasts 12 hours from them.
\<close>

theorem executor_invariant:
  assumes "new_actor (host_os h) op_path user t s0 = (a0, s1)" and "executor_reaches h a0 s1 a s"
  shows "actor_op_path a = op_path \<and> actor_user a = user \<and> actor_terminal a = t \<and>
    actor_timings a = default_timings \<and> actor_started_at a = os_wall (host_os h) (observed s0) \<and>
    distinct (map fst (actor_records a)) \<and>
    (\<forall>account g. actor_ledger a account = Some g \<longrightarrow>
      (\<exists>n. Suc n < observed s \<and> g = new_grant (host_os h) default_timings n))"
proof -
  note new = new_actor_simps [OF assms(1)]
  have k: "keeps a0 a" using reaches_keeps [OF assms(2)] by simp
  have "dated (host_os h) (actor_timings a0) (observed s1) (actor_ledger a0)"
    by (simp add: new(4) dated_def)
  from reaches_dated [OF assms(2) this] have "dated (host_os h) default_timings (observed s) (actor_ledger a)"
    by (simp add: new(2))
  moreover have "well_keyed a0" by (simp add: well_keyed_def new(3))
  moreover have "actor_started_at a0 = os_wall (host_os h) (observed s0)"
    using assms(1) by (auto simp: new_actor_def)
  ultimately show ?thesis
    using k new by (auto simp: keeps_def well_keyed_def dated_def)
qed

lemma example_new:
  "\<exists>a0. new_actor still (ascii ''/bin/op'') user example_terminal boot = (a0, tick boot)"
  by (simp add: new_actor_def)

lemma example_turn:
  assumes new: "new_actor still (ascii ''/bin/op'') user example_terminal boot = (a0, s1)"
  obtains a s where "run_step example_host a0 s1 = Some (True, a, s)" and "\<not> shutdown_stored s"
    and "actor_ledger a work = Some (new_grant still default_timings 6)"
proof -
  note na = new_actor_simps [OF new]
  obtain a1 where e1: "expire_records still a0 (tick s1) = (a1, tick (tick s1))" and same: "same_actor a0 a1"
    and l1: "actor_ledger a1 = apply_event (Expire 1000000000000) (actor_ledger a0)"
    using expire_obtain [of still a0 "tick s1"] by auto
  have a1: "actor_op_path a1 = ascii ''/bin/op''" "actor_timings a1 = default_timings"
    "actor_ledger a1 = (\<lambda>_. None)"
    using same_actor_simps [OF same] l1 na by auto
  obtain a s where s: "start still True work (ascii ''/bin/op'') home at_ease a1 (tick (tick (tick (tick s1))))
      = Some (Some RespOk, a, s)" "actor_ledger a work = Some (new_grant still default_timings 6)"
    "\<not> shutdown_stored s"
    using example_start [of "tick (tick (tick (tick s1)))" a1] a1 na by (auto simp: eval_nat_numeral)
  have h: "handle example_host start_envelope a1 (tick (tick (tick s1))) = Some (reply 1 RespOk a, s)"
    using s(1) by (simp add: handle_def start_envelope_def serve_def)
  have "run_step example_host a0 s1 = Some (True, reply 1 RespOk a, s)"
    using e1 h na(5) by (simp add: run_step_def example_host_def observe_def)
  with s that show thesis by simp
qed

theorem executor_invariant_witness:
  "\<exists>a0 s1 a s. new_actor still (ascii ''/bin/op'') \<lparr>uid = 501, user_name = [], user_home = []\<rparr> example_terminal boot = (a0, s1) \<and>
     executor_reaches example_host a0 s1 a s \<and> actor_ledger a work \<noteq> None \<and>
     actor_timings a = default_timings \<and> distinct (map fst (actor_records a))"
proof -
  let ?user = "\<lparr>uid = 501, user_name = [], user_home = []\<rparr> :: effective_user"
  obtain a0 where n: "new_actor still (ascii ''/bin/op'') ?user example_terminal boot = (a0, tick boot)"
    using example_new by blast
  obtain a s where t: "run_step example_host a0 (tick boot) = Some (True, a, s)"
    and g: "actor_ledger a work = Some (new_grant still default_timings 6)" by (rule example_turn [OF n])
  note r = executor_reaches.turn [OF executor_reaches.begin_loop t]
  from executor_invariant [of example_host, OF _ r] n r g show ?thesis by auto
qed

end
