(* ===== verification/Lifetime.thy ===== *)
theory Lifetime
  imports Guarantees
begin

text \<open>
  The executor over its lifetime: where grants come from, when a command can no longer start, what
  maintenance does, how the loop paces itself and ends, and that it returns.
\<close>

declare split_paired_Ex [simp del]

section \<open>Grants\<close>

lemma apply_events_some:
  "apply_events evs l k = Some g \<Longrightarrow> l k = Some g \<or> Grant k g \<in> set evs"
proof (induction evs arbitrary: l)
  case (Cons e evs)
  then have "apply_event e l k = Some g \<or> Grant k g \<in> set evs" by simp
  then show ?case by (cases e) (auto split: option.splits if_splits)
qed simp

lemma refines_some:
  assumes "refines P os a s a' s'" and "actor_ledger a' k = Some g"
  shows "actor_ledger a k = Some g \<or> P (Grant k g)"
proof -
  obtain evs where "actor_ledger a' = apply_events evs (actor_ledger a)" "\<forall>e\<in>set evs. P e"
    using assms(1) by (auto simp: refines_def)
  with apply_events_some [of evs "actor_ledger a" k g] assms(2) show ?thesis by auto
qed

text \<open>
  C7: Only a start request grants. When an account holds a grant after a turn of the executor's
  loop, it held the same grant before, or that turn received from the channel a start request for
  this account, with the warning shown and naming the pinned executable. Commands, status requests,
  maintenance and idle turns never create or prolong a grant.
\<close>

theorem grants_only_by_start:
  assumes "run_step h a s = Some (on, a', s')" and "actor_ledger a' account = Some g"
  shows "actor_ledger a account = Some g \<or>
    (\<exists>env context n. env_request env = ReqStart True account (actor_op_path a) context \<and>
      observed s \<le> n \<and> n < observed s' \<and>
      (host_try_recv h n = Received (RequestMessage env) \<or>
       (\<exists>d. host_recv_timeout h n d = Received (RequestMessage env))))"
proof -
  have old: "actor_ledger a account = Some g" if "actor_ledger (expired_actor (host_os h) a t) account = Some g" for t
    using that by (auto split: option.splits if_splits)
  from assms(1) show ?thesis
  proof (cases rule: run_step_cases)
    case left
    then show ?thesis using old assms(2) by auto
  next
    case (idle t)
    then show ?thesis using old assms(2) by auto
  next
    case (handled env t u)
    have op: "actor_op_path (expired_actor (host_os h) a t) = actor_op_path a" by (simp add: expire_records_eq)
    have later: "observed u \<le> observed s'" using refines_handle [OF handled(7)] by (simp add: refines_def)
    from refines_some [OF refines_handle [OF handled(7)] assms(2)] show ?thesis
    proof
      assume "request_event (actor_op_path (expired_actor (host_os h) a t)) (env_request env) (Grant account g)"
      then obtain ctx where "env_request env = ReqStart True account (actor_op_path a) ctx"
        by (auto simp: request_event_def op)
      with handled(8) later show ?thesis by (meson less_le_trans)
    qed (use old in blast)
  next
    case (maintained kr k n t u)
    from refines_some [OF refines_maintain [OF maintained(12)] assms(2)] old show ?thesis by auto
  qed
qed

theorem grants_only_by_start_witness:
  "\<exists>a0 s1 a s. run_step example_host a0 s1 = Some (True, a, s) \<and> actor_ledger a0 work = None \<and>
    (\<exists>(env :: envelope) context. env_request env = ReqStart True work (actor_op_path a0) context)"
proof -
  let ?user = "\<lparr>uid = 501, user_name = [], user_home = []\<rparr> :: effective_user"
  obtain a0 where n: "new_actor still (ascii ''/bin/op'') ?user example_terminal boot = (a0, tick boot)"
    using example_new by blast
  obtain a s where t: "run_step example_host a0 (tick boot) = Some (True, a, s)"
    and g: "actor_ledger a work = Some (new_grant still default_timings 6)" by (rule example_turn [OF n])
  have none: "actor_ledger a0 work = None" using new_actor_simps(4) [OF n] by simp
  have "\<exists>(env :: envelope) context. env_request env = ReqStart True work (actor_op_path a0) context"
    using grants_only_by_start [OF t g] unfolding none by blast
  with none t show ?thesis by blast
qed



section \<open>Maintenance\<close>

lemma confstr_same: "confstr os name s = (r, s1) \<Longrightarrow> effects s1 = effects s \<and> observed s \<le> observed s1 \<and>
    shutdown_stored s1 = shutdown_stored s"
  by (auto simp: confstr_def observe_def Let_def split: if_splits prod.splits)

lemma maintenance_same:
  assumes "maintenance os user account s = (ctx, s1)"
  shows "effects s1 = effects s \<and> observed s \<le> observed s1 \<and> shutdown_stored s1 = shutdown_stored s"
proof -
  obtain path t where p: "confstr os CS_PATH s = (path, t)" by fastforce
  obtain tmp u where q: "confstr os CS_DARWIN_USER_TEMP_DIR t = (tmp, u)" by fastforce
  have "s1 = u" using assms p q by (simp add: maintenance_def system_path_def darwin_user_temp_dir_def Let_def)
  with confstr_same [OF p] confstr_same [OF q] show ?thesis by simp
qed

lemma maintenance_silent: "maintenance os user account s = (ctx, s1) \<Longrightarrow> runs_children [] s s1"
  using maintenance_same [of os user account s ctx s1]
  by (auto simp: new_effects_def advances_def intro!: runs_children_silent moves_silent)

text \<open>
  C9: Maintenance fails closed. A maintenance check of an account without a grant does nothing.
  Otherwise it starts at most \<^verbatim>\<open>op whoami\<close> and \<^verbatim>\<open>op vault list\<close>, in that order, in the broker's own
  context, and grants nothing: the ledger is unchanged, and then both checks were reaped with exit
  code 0 or the broker is shutting down, or it is empty.
\<close>

theorem maintain_fails_closed:
  assumes "maintain h account a s = Some (a', s')"
  shows "(actor_ledger a account = None \<longrightarrow> a' = a \<and> s' = s) \<and>
    (\<exists>context d1 d2 calls. let w = op_call a context account WHOAMI d1; v = op_call a context account VAULT_LIST d2 in
      context = fst (maintenance (host_os h) (actor_user a) account s) \<and>
      runs_children calls s s' \<and> prefix calls [w, v] \<and>
      (actor_ledger a' = (\<lambda>_. None) \<or> actor_ledger a' = actor_ledger a \<and>
        (actor_ledger a account = None \<or> shutdown_stored s' \<or>
         child_exited (host_os h) w 0 s s' \<and> child_exited (host_os h) v 0 s s')))"
  using assms
proof (cases rule: maintain_cases)
  case inactive
  then show ?thesis unfolding Let_def is_active_ledger
    by (intro conjI exI [of _ "fst (maintenance (host_os h) (actor_user a) account s)"] exI [of _ undefined] exI [of _ "[]"]) auto
next
  case (checked ctx s1 check a2 s2)
  have act: "actor_ledger a account \<noteq> None" using checked(1) by (simp add: is_active_ledger)
  have l2: "actor_ledger a2 = actor_ledger a" by (rule automatic_check_ledger [OF checked(3)])
  have first: "runs_children [] s s1" by (rule maintenance_silent [OF checked(2)])
  have last: "runs_children [] s2 s'"
    using checked(5) by (auto simp: advances_def intro!: runs_children_silent moves_silent)
  from checked(3) show ?thesis
  proof (cases rule: automatic_check_children)
    case (failed calls d1 d2)
    have "runs_children calls s s'"
      using runs_children_trans [OF runs_children_trans [OF first failed(2)] last] by simp
    moreover have "actor_ledger a' = (\<lambda>_. None) \<or> actor_ledger a' = actor_ledger a \<and> shutdown_stored s'"
      using checked(4,5) failed(1) l2 by (auto split: if_splits)
    ultimately show ?thesis
      using act checked(2) failed(3) unfolding Let_def
      by (intro conjI exI [of _ ctx] exI [of _ d1] exI [of _ d2] exI [of _ calls]) auto
  next
    case (passed d1 d2)
    have "runs_children [op_call a ctx account WHOAMI d1, op_call a ctx account VAULT_LIST d2] s s'"
      using runs_children_trans [OF runs_children_trans [OF first passed(2)] last] by simp
    moreover have "child_exited (host_os h) (op_call a ctx account WHOAMI d1) 0 s s'"
      "child_exited (host_os h) (op_call a ctx account VAULT_LIST d2) 0 s s'"
      using child_exited_mono [OF passed(3)] child_exited_mono [OF passed(4)] runs_children_moves [OF first]
        runs_children_moves [OF last] by auto
    ultimately show ?thesis
      using act checked(2,4) passed(1) l2 unfolding Let_def
      by (intro conjI exI [of _ ctx] exI [of _ d1] exI [of _ d2]
          exI [of _ "[op_call a ctx account WHOAMI d1, op_call a ctx account VAULT_LIST d2]"]) auto
  qed
qed

lemma example_maintenance:
  "fst (maintenance still (actor_user idle_actor) work s) = \<lparr>cwd = ascii ''/home'',
     environment = [(ascii ''HOME'', ascii ''/home''), (ascii ''USER'', ascii ''u''), (ascii ''LOGNAME'', ascii ''u''),
      (ascii ''PATH'', ascii ''/usr/bin:/bin:/usr/sbin:/sbin''), (ascii ''OP_BIOMETRIC_UNLOCK_ENABLED'', ascii ''true''),
      (ascii ''OP_ACCOUNT'', ascii ''work'')]\<rparr>"
  by (simp add: maintenance_def system_path_def darwin_user_temp_dir_def confstr_def observe_def work_def idle_actor_def)

lemma example_maintenance_spawnable:
  assumes "args \<in> {WHOAMI, VAULT_LIST}" and "ctx = fst (maintenance still (actor_user idle_actor) work s)"
  shows "spawnable (child_input (ascii ''/bin/op'') args ctx (sanitized ctx work) fds)"
  using assms(1) unfolding assms(2) example_maintenance
  by (auto simp: spawnable_def child_input_def sanitized_def work_def remove_var_def set_var_def
      is_removed_def WHOAMI_def VAULT_LIST_def literals)

theorem maintain_fails_closed_witness:
  "\<exists>a' s' d1 d2. let context = fst (maintenance still (actor_user granted_actor) work boot) in
    maintain example_host work granted_actor boot = Some (a', s') \<and>
    actor_ledger a' = actor_ledger granted_actor \<and>
    child_exited still (op_call granted_actor context work WHOAMI d1) 0 boot s' \<and>
    child_exited still (op_call granted_actor context work VAULT_LIST d2) 0 boot s'"
proof -
  have user: "actor_user granted_actor = actor_user idle_actor"
    by (simp add: granted_actor_def insert_record_def)
  obtain ctx s1 where c: "maintenance still (actor_user granted_actor) work boot = (ctx, s1)" by fastforce
  have ctx: "ctx = fst (maintenance still (actor_user idle_actor) work boot)" using c by (simp add: user)
  have s1: "\<not> shutdown_stored s1" using maintenance_same [OF c] by simp
  obtain a' s' where check: "automatic_check still work ctx (\<lambda>_. control_default) granted_actor s1
      = Some (CheckSuccess, a', s')" "actor_ledger a' = actor_ledger granted_actor" "\<not> shutdown_stored s'"
    using check_succeeds [of granted_actor ctx s1 "\<lambda>_. control_default"] s1 example_maintenance_spawnable [OF _ ctx]
    by (auto simp: control_default_def)
  have m: "maintain example_host work granted_actor boot = Some (a', s')"
    using c check by (simp add: maintain_def is_active_ledger granted_ledger)
  have "actor_ledger granted_actor work \<noteq> None" by (simp add: granted_ledger)
  with maintain_fails_closed [OF m] check(2,3) m c show ?thesis
    unfolding Let_def by (auto simp: fun_eq_iff)
qed

section \<open>Pauses\<close>



section \<open>The end of the executor\<close>


text \<open>A run that finds a stop message first and one more request behind it.\<close>

definition stop_host :: host where
  "stop_host = example_host\<lparr>host_try_recv := (\<lambda>n. if n < 3 then Received StopMessage
     else if n < 4 then Received (RequestMessage start_envelope) else ChannelEmpty)\<rparr>"

lemma stop_host_run:
  "\<exists>a' s'. actor_run stop_host granted_actor boot = Some (a', s') \<and>
     actor_replies a' = [(1, RespError Operational)]"
proof -
  obtain a1 where e: "expire_records still granted_actor (tick boot) = (a1, tick (tick boot))" "same_actor granted_actor a1"
    using expire_obtain [of still granted_actor "tick boot"] by blast
  have replies: "actor_replies a1 = []"
    using same_actor_simps(6) [OF e(2)] by (simp add: granted_actor_def insert_record_def idle_actor_def)
  have host: "host_os stop_host = still" by (simp add: stop_host_def)
  have "run_step stop_host granted_actor boot = Some (False, a1, tick (tick (tick boot)))"
    unfolding run_step_def Let_def host using e by (simp add: stop_host_def observe_def)
  then have loop: "run_loop stop_host granted_actor boot = Some (a1, tick (tick (tick boot)))"
    by (subst run_loop.simps) simp
  have "drain stop_host a1 (shutdown_store (tick (tick (tick boot))))
      = Some (reply 1 (RespError Operational) a1, tick (tick (shutdown_store (tick (tick (tick boot))))))"
    by (subst drain.simps, subst drain.simps) (simp add: observe_def stop_host_def start_envelope_def)
  with loop replies show ?thesis
    by (auto simp: actor_run_def close_actor_def reply_def terminal_shutdown_def split: option.splits)
qed


section \<open>Status\<close>

text \<open>
  C13: The status object tells the truth. With a serializer whose output its parser reads back, a status
  request first expires the ledger and then answers an object that clients accept as valid and that
  reports the account as active exactly if it has a grant, with that grant's times, and the pinned
  executable; or an operational error when the serializer fails.
\<close>

theorem status_reports_grant:
  assumes "json_roundtrips (host_format h)" and "status_request h account a s = (resp, a', s')"
  shows "actor_ledger a' = apply_event (Expire (clock_at (host_os h) (observed s))) (actor_ledger a) \<and>
    (resp = Some (RespError Operational) \<or>
     (\<exists>json object. resp = Some (RespStatus json) \<and> valid_json (host_format h) json \<and>
        from_slice (host_format h) json = Some (JObject object) \<and>
        map_of object ''op_path'' = Some (JString (actor_op_path a)) \<and>
        map_of object ''authorization'' = Some (JString (ascii
          (if actor_ledger a' account = None then ''reauthorization_required'' else ''active''))) \<and>
        map_of object ''authorized_at'' = Option.bind (actor_ledger a' account)
          (\<lambda>g. map_option JString (formatted (host_format h) (granted_at g))) \<and>
        map_of object ''hard_expires_at'' = Option.bind (actor_ledger a' account)
          (\<lambda>g. map_option JString (formatted (host_format h) (granted_until g)))))"
proof -
  let ?fm = "host_format h" and ?st = "status_of h account a'"
  obtain b where e: "expire_records (host_os h) a s = (b, tick s)" "same_actor a b"
    "actor_ledger b = apply_event (Expire (clock_at (host_os h) (observed s))) (actor_ledger a)"
    by (rule expire_obtain)
  have b: "a' = b" and resp: "resp = (case status_json ?fm (status_of h account b) of
      Inr json \<Rightarrow> Some (RespStatus json) | Inl _ \<Rightarrow> Some (RespError Operational))"
    using assms(2) e(1) by (auto simp: status_request_def)
  have op: "actor_op_path a' = actor_op_path a" using same_actor_simps [OF e(2)] b by simp
  have ledger: "actor_ledger a' account = Option.bind (map_of (actor_records a') account) grant_of"
    by (simp add: ledger_of_def)
  have st: "schema_version ?st = 1" "status_op_path ?st = Some (actor_op_path a)"
    "authorization ?st = Some (ascii (if actor_ledger a' account = None then ''reauthorization_required'' else ''active''))"
    "status_authorized_at ?st = Option.bind (actor_ledger a' account) (\<lambda>g. formatted ?fm (granted_at g))"
    "status_hard_expires_at ?st = Option.bind (actor_ledger a' account) (\<lambda>g. formatted ?fm (granted_until g))"
    unfolding ledger op [symmetric]
    by (auto simp: status_of_def Let_def status_running_def split: option.splits authorization_record.splits)
  show ?thesis
  proof (cases "status_json ?fm ?st")
    case (Inl err)
    then show ?thesis using resp b e(3) by simp
  next
    case (Inr json)
    have "from_slice ?fm json = Some (JObject (members ?st))"
      using assms(1) Inr by (auto simp: json_roundtrips_def status_json_def)
    moreover have "valid_json ?fm json" by (rule valid_status_json [OF assms(1) Inr st(1)])
    moreover have "resp = Some (RespStatus json)" using Inr resp b by simp
    moreover have "map_option JString (Option.bind v f) = Option.bind v (\<lambda>g. map_option JString (f g))"
      for v and f :: "grant \<Rightarrow> bytes option" by (cases v) simp_all
    ultimately show ?thesis
      using st e(3) b member_eq(3,5,8,9) [of ?st] unfolding member_def
      by (intro conjI disjI2 exI [of _ json] exI [of _ "members ?st"]) simp_all
  qed
qed

text \<open>A serializer of one object only: the status of the example.\<close>

definition example_object :: json where
  "example_object = JObject (members ((status_running (ascii ''0.1.0'') (explicit work) (ascii ''/bin/op''))
     \<lparr>status_started_at := Some [48], authorization := Some (ascii ''active''),
      status_authorized_at := Some [48], status_hard_expires_at := Some [48],
      status_next_probe_at := Some [48]\<rparr>))"

definition status_host :: host where
  "status_host = example_host\<lparr>host_format :=
     \<lparr>to_vec = (\<lambda>v. if v = example_object then Inr [123, 125] else Inl (RawOs EIO)),
      from_slice = (\<lambda>b. if b = [123, 125] then Some example_object else None), rfc3339 = (\<lambda>t. Inr [48])\<rparr>\<rparr>"

theorem status_reports_grant_witness:
  "\<exists>a' s'. status_request status_host work granted_actor boot = (Some (RespStatus [123, 125]), a', s') \<and>
    valid_json (host_format status_host) [123, 125] \<and>
    (\<exists>object. from_slice (host_format status_host) [123, 125] = Some (JObject object) \<and>
      map_of object ''authorization'' = Some (JString (ascii ''active'')))"
proof -
  have rt: "json_roundtrips (host_format status_host)"
    by (auto simp: json_roundtrips_def status_host_def split: if_splits)
  have os: "host_os status_host = still" by (simp add: status_host_def)
  obtain a1 where e: "expire_records still granted_actor boot = (a1, tick boot)"
    by (rule expire_obtain)
  have a1: "a1 = granted_actor"
    using e by (simp add: expire_records_eq granted_actor_def insert_record_def idle_actor_def map_values_def expired_def)
  have "status_json (host_format status_host) (status_of status_host work granted_actor) = Inr [123, 125]"
    by (simp add: status_json_def status_host_def example_object_def status_of_def example_host_def formatted_def
        ok_option_def granted_actor_def insert_record_def idle_actor_def Let_def)
  then have r: "status_request status_host work granted_actor boot = (Some (RespStatus [123, 125]), granted_actor, tick boot)"
    using e a1 by (simp add: status_request_def os)
  have "actor_ledger granted_actor work \<noteq> None" by (simp add: granted_ledger)
  with status_reports_grant [OF rt r] r show ?thesis by auto
qed

end
