(* ===== verification/Progress.thy ===== *)
theory Progress
  imports Lifetime
begin

text \<open>
  That the executor returns: every operation that runs a child ends because the polling loop of
  \<open>Process\<close> ends, and the loop of the executor ends once the shutdown flag is seen.
\<close>

section \<open>Operations that run a child\<close>

definition clock_passes :: "os \<Rightarrow> bool" where
  "clock_passes os \<longleftrightarrow> (\<forall>v. \<exists>N. \<forall>n\<ge>N. v \<le> clock_at os n)"

text \<open>The kernel removes a group it killed, and its streams close; for the children of one request.\<close>

definition kill_ends :: "os \<Rightarrow> control \<Rightarrow> (nat \<Rightarrow> bool) \<Rightarrow> bool" where
  "kill_ends os control closed \<longleftrightarrow>
     (\<forall>p d k s ls' s'. wait_rounds os p (Some d) control closed k loop_start s = (Inr (Inl ls'), s') \<longrightarrow>
        killed_in p s s' \<longrightarrow> (\<exists>N. gone_from os p closed N))"

definition probes_end :: "os \<Rightarrow> control \<Rightarrow> bool" where
  "probes_end os control \<longleftrightarrow> clock_passes os \<and> kill_ends os control (os_probe_closed os)"

definition children_end :: "os \<Rightarrow> control \<Rightarrow> bool" where
  "children_end os control \<longleftrightarrow> probes_end os control \<and> kill_ends os control (\<lambda>n. streams_closed (control n))"

lemma wait_returns:
  assumes "clock_passes os" and "kill_ends os control closed"
  shows "\<exists>r s'. wait_inner os p (Some d) control closed loop_start s = Some (r, s')"
  using wait_inner_ends [of os p d control closed s] assms
  unfolding clock_passes_def kill_ends_def by (metis surj_pair)

lemma supervise_returns:
  assumes "\<And>s. \<exists>r s'. wait s = Some (r, s')"
  shows "\<exists>r s'. supervise os t p wait s = Some (r, s')"
proof -
  obtain f s1 where f: "foreground os t p s = (f, s1)" by fastforce
  obtain c s2 where c: "call_os os (Kill p SIGCONT) s1 = (c, s2)" by fastforce
  obtain r s3 where w: "wait s2 = Some (r, s3)" using assms by blast
  obtain b s4 where b: "restore_foreground os t (if is_ok r then s3 else kill_and_reap os p s3) = (b, s4)" by fastforce
  show ?thesis
    by (cases f; cases c; cases r; cases b) (use f c w b in \<open>auto simp: supervise_def\<close>)
qed

lemma run_returns:
  assumes "children_end os control"
  shows "\<exists>r s'. runner_run os exe t args ctx vars fds (Some d) control s = Some (r, s')"
proof -
  have "\<exists>r s'. supervise os t p (wait_inner os p (Some d) control (\<lambda>n. streams_closed (control n)) loop_start) s1
      = Some (r, s')" for p s1
    using assms by (intro supervise_returns wait_returns) (auto simp: children_end_def probes_end_def)
  then show ?thesis by (auto simp: runner_run_def split: prod.splits sum.splits)
qed

lemma probe_returns:
  assumes "probes_end os control"
  shows "\<exists>r s'. probe os a args ctx vars d control s = Some (r, s')"
proof -
  have "\<exists>r s'. supervise os t p (wait_inner os p (Some d) control (os_probe_closed os) loop_start) s1
      = Some (r, s')" for t p s1
    using assms by (intro supervise_returns wait_returns) (auto simp: probes_end_def)
  then show ?thesis by (auto simp: probe_def runner_probe_def split: prod.splits sum.splits)
qed

lemma automatic_check_returns:
  assumes "probes_end os control"
  shows "\<exists>r a' s'. automatic_check os account ctx control a s = Some (r, a', s')"
proof -
  let ?limit = "add_duration (clock_at os (observed s)) (check_timeout (actor_timings a))"
  let ?vars = "sanitized ctx account"
  obtain w s1 where w: "probe os a WHOAMI ctx ?vars ?limit control (tick s) = Some (w, s1)"
    using probe_returns [OF assms] by blast
  obtain v s2 where v: "probe os a VAULT_LIST ctx ?vars ?limit control s1 = Some (v, s2)"
    using probe_returns [OF assms] by blast
  show ?thesis
    by (cases "classify_check w"; cases "classify_check v") (use w v in \<open>auto simp: automatic_check_def Let_def\<close>)
qed

lemma bind_returns:
  "\<exists>y. m = Some y \<Longrightarrow> (\<And>y. m = Some y \<Longrightarrow> \<exists>x. f y = Some x) \<Longrightarrow> \<exists>x. Option.bind m f = Some x"
  by auto

lemma start_returns:
  assumes "probes_end os control"
  shows "\<exists>x. start os warned account path ctx control a s = Some x"
proof -
  obtain a1 where e: "expire_records os a s = (a1, tick s)" by (rule expire_obtain)
  have p: "\<exists>x. probe os b VAULT_LIST ctx vars d control t = Some x" for b vars d t
    using probe_returns [OF assms] by blast
  show ?thesis
    unfolding start_def e Let_def by (auto intro!: bind_returns p)
qed

lemma execute_returns:
  assumes "children_end os control"
  shows "\<exists>x. execute os account limit args ctx fds control a s = Some x"
proof -
  obtain a1 where e: "expire_records os a s = (a1, tick s)" by (rule expire_obtain)
  obtain r a2 s2 where c: "automatic_check os account ctx control a1 (tick s) = Some (r, a2, s2)"
    using automatic_check_returns [of os control] assms unfolding children_end_def by blast
  have run: "\<exists>x. runner_run os exe t args ctx vars fds (Some d) control u = Some x" for exe t vars d u
    using run_returns [OF assms] by blast
  show ?thesis
    unfolding execute_def e Let_def using c
    by (cases r) (auto intro!: bind_returns run split: prod.splits)
qed

lemma handle_returns:
  assumes "children_end (host_os h) (env_control env)"
  shows "\<exists>x. handle h env a s = Some x"
proof -
  have "\<exists>x. serve h (env_request env) (env_control env) a t = Some x" for t
    using start_returns [of "host_os h" "env_control env"] assms execute_returns [OF assms]
    by (cases "env_request env") (auto simp: serve_def children_end_def)
  then show ?thesis by (auto simp: handle_def intro!: bind_returns split: prod.splits option.splits)
qed

lemma maintain_returns:
  assumes "probes_end (host_os h) (\<lambda>_. control_default)"
  shows "\<exists>x. maintain h account a s = Some x"
proof -
  obtain ctx s1 where c: "maintenance (host_os h) (actor_user a) account s = (ctx, s1)" by fastforce
  obtain r a2 s2 where "automatic_check (host_os h) account ctx (\<lambda>_. control_default) a s1 = Some (r, a2, s2)"
    using automatic_check_returns [OF assms] by blast
  with c show ?thesis by (cases r) (auto simp: maintain_def)
qed

section \<open>The loop\<close>

text \<open>The requests the channel can deliver.\<close>

definition delivers :: "host \<Rightarrow> envelope \<Rightarrow> bool" where
  "delivers h env \<longleftrightarrow> (\<exists>n. host_try_recv h n = Received (RequestMessage env) \<or>
     (\<exists>d. host_recv_timeout h n d = Received (RequestMessage env)))"

lemma run_step_returns:
  assumes env: "\<And>env. delivers h env \<Longrightarrow> children_end (host_os h) (env_control env)"
    and idle: "probes_end (host_os h) (\<lambda>_. control_default)"
  shows "\<exists>x. run_step h a s = Some x"
proof -
  have 1: "\<exists>x. handle h e b t = Some x" if "delivers h e" for e b t
    using handle_returns env that by blast
  note 2 = maintain_returns [OF idle]
  have "delivers h e" if "host_try_recv h n = Received (RequestMessage e)" for n e
    using that by (auto simp: delivers_def)
  moreover have "delivers h e" if "host_recv_timeout h n d = Received (RequestMessage e)" for n d e
    using that by (auto simp: delivers_def)
  ultimately show ?thesis
    unfolding run_step_def Let_def
    by (auto simp: observe_def intro!: bind_returns 1 2 split: prod.splits polled.splits actor_message.splits option.splits)
qed

lemma run_step_observed:
  assumes "run_step h a s = Some (True, a', s')"
  shows "observed s < observed s'"
  using assms
proof (cases rule: run_step_cases)
  case (handled env t u)
  with refines_handle [OF handled(7)] show ?thesis by (simp add: refines_def)
next
  case (maintained kr k n t u)
  with refines_maintain [OF maintained(12)] show ?thesis by (simp add: refines_def)
qed simp_all

lemma run_loop_returns:
  assumes step: "\<And>a s. \<exists>x. run_step h a s = Some x" and down: "\<forall>n\<ge>N. os_shutdown (host_os h) n"
  shows "\<exists>x. run_loop h a s = Some x"
proof (induction "N - observed s" arbitrary: a s rule: less_induct)
  case less
  show ?case
  proof (cases "N \<le> observed s")
    case True
    then have "run_step h a s = Some (False, a, tick s)" using down by (simp add: run_step_def)
    then show ?thesis by (subst run_loop.simps) simp
  next
    case False
    obtain on a' s' where s: "run_step h a s = Some (on, a', s')" using step by (metis surj_pair)
    show ?thesis
    proof (cases on)
      case True
      with run_step_observed s have "observed s < observed s'" by simp
      with False have "N - observed s' < N - observed s" by simp
      from less [OF this] s show ?thesis by (subst run_loop.simps) simp
    qed (use s in \<open>subst run_loop.simps, simp\<close>)
  qed
qed

lemma drain_returns:
  assumes "\<forall>n\<ge>M. host_try_recv h n \<in> {ChannelEmpty, ChannelDisconnected}"
  shows "\<exists>x. drain h a s = Some x"
proof (induction "M - observed s" arbitrary: a s rule: less_induct)
  case less
  show ?case
  proof (cases "host_try_recv h (observed s)")
    case (Received m)
    then have "observed s < M" using assms by (metis insertE not_le polled.distinct(1,3) singletonD)
    then have "M - observed (tick s) < M - observed s" by simp
    from less [OF this] Received show ?thesis
      by (subst drain.simps) (cases m; simp add: observe_def)
  qed (subst drain.simps, simp add: observe_def)+
qed


text \<open>
  A world in which the shutdown flag is set at the thousandth observation, with a channel that repeats one
  start request before.
\<close>

definition ending_host :: host where
  "ending_host = example_host
     \<lparr>host_os := calm\<lparr>os_shutdown := (\<lambda>n. 1000 \<le> n)\<rparr>,
      host_try_recv := (\<lambda>n. if n < 500 then Received (RequestMessage start_envelope) else ChannelEmpty)\<rparr>"

lemma ending_children:
  assumes "\<And>n. closed n"
  shows "kill_ends (calm\<lparr>os_shutdown := f\<rparr>) control closed"
  using assms by (auto simp: kill_ends_def gone_from_def)


end
