(* ===== verification/Surroundings.thy ===== *)
theory Surroundings
  imports Environment Worlds
begin

text \<open>
  What the broker promises about its surroundings: its directory, lock and socket in the file system,
  the environment and account of the children, and the arithmetic of its deadlines.
\<close>

section \<open>Files\<close>

definition owner_user :: effective_user where
  "owner_user = \<lparr>uid = 501, user_name = ascii ''u'', user_home = ascii ''/home''\<rparr>"

text \<open>
  C24: The runtime directory is private. When preparing it succeeds, \<^verbatim>\<open>lstat\<close> showed a real directory (not a
  symbolic link) owned by the user, and after that its mode was set to 0700; the only other possible
  effect is creating it. When the directory that exists is not such a one, nothing is changed.
\<close>

theorem prepare_directory_private:
  assumes "prepare_directory os paths user s = (r, s')"
  shows "(is_ok r \<longrightarrow> (\<exists>n m e. observed s \<le> n \<and> os_lstat os n (directory paths) = Inr m \<and>
      file_type m = Directory \<and> owner m = uid user \<and>
      map snd (new_effects s s') \<in> {e @ [FileSystem (SetMode (directory paths) DIRECTORY_MODE)] |e.
        e \<in> {[], [FileSystem (CreateDirAll (directory paths))]}} \<and>
      last (new_effects s s') = (e, FileSystem (SetMode (directory paths) DIRECTORY_MODE)) \<and> n < e)) \<and>
    (\<forall>m. os_lstat os (observed s) (directory paths) = Inr m \<and> \<not> (file_type m = Directory \<and> owner m = uid user) \<longrightarrow>
      r = Inl (Simple PermissionDenied ''unsafe broker runtime directory'') \<and> new_effects s s' = [])"
proof (cases "os_lstat os (observed s) (directory paths)")
  case (Inr m)
  then show ?thesis
    using assms
    by (auto simp: prepare_directory_def symlink_metadata_def query_def observe_def raw_os_def verify_directory_def
        and_then_def pure_act_def fs_syscall_def call_os_def raw_unit_def new_effects_def emit_def
        intro!: exI [of _ "observed s"] split: if_splits option.splits)
next
  case (Inl e)
  show ?thesis
    using assms Inl
    by (auto simp: prepare_directory_def symlink_metadata_def query_def observe_def raw_os_def verify_directory_def
        and_then_def pure_act_def fs_syscall_def call_os_def raw_unit_def new_effects_def emit_def
        intro!: exI [of _ "Suc (Suc (observed s))"] split: if_splits option.splits sum.splits prod.splits)
qed

text \<open>A file system with one directory, owned by the user.\<close>

definition own_directory :: os where
  "own_directory = calm\<lparr>os_lstat := (\<lambda>n p. Inr \<lparr>file_type = Directory, owner = 501, mode = 448\<rparr>)\<rparr>"

theorem prepare_directory_private_witness:
  "\<exists>s'. prepare_directory own_directory (for_user owner_user) owner_user boot = (Inr (), s') \<and>
    snd (last (new_effects boot s')) = FileSystem (SetMode (directory (for_user owner_user)) DIRECTORY_MODE)"
proof -
  have "\<exists>s'. prepare_directory own_directory (for_user owner_user) owner_user boot = (Inr (), s')"
    by (simp add: prepare_directory_def symlink_metadata_def query_def observe_def raw_os_def verify_directory_def
        and_then_def pure_act_def fs_syscall_def call_os_def raw_unit_def own_directory_def owner_user_def)
  then obtain s' where r: "prepare_directory own_directory (for_user owner_user) owner_user boot = (Inr (), s')" ..
  from prepare_directory_private [OF r] show ?thesis
    using r by (auto simp del: ex_simps)
qed

text \<open>
  C25: Only a dead broker's own socket is removed. Removing a stale socket has at most one effect, the removal of
  the socket's path, and that only right after \<^verbatim>\<open>lstat\<close> showed a socket owned by the user there; when it
  reports success without removing anything, there was no file.
\<close>

theorem remove_stale_socket_own:
  assumes "remove_stale_socket os paths user s = (r, s')"
  shows "(new_effects s s' = [] \<and> (is_ok r \<longrightarrow>
      (\<exists>e. os_lstat os (observed s) (socket_path paths) = Inl e \<and> error_kind (RawOs e) = NotFound))) \<or>
    new_effects s s' = [(Suc (observed s), FileSystem (RemoveFile (socket_path paths)))] \<and>
      (\<exists>m. os_lstat os (observed s) (socket_path paths) = Inr m \<and> file_type m = SocketFile \<and> owner m = uid user)"
  using assms
  by (cases "os_lstat os (observed s) (socket_path paths)")
    (auto simp: remove_stale_socket_def symlink_metadata_def query_def observe_def raw_os_def fs_syscall_def
      call_os_def new_effects_def emit_def split: if_splits)

theorem remove_stale_socket_own_witness:
  "fst (remove_stale_socket own_directory (for_user owner_user) owner_user boot)
     = Inl (Simple PermissionDenied ''unsafe stale broker socket'') \<and>
   new_effects boot (snd (remove_stale_socket own_directory (for_user owner_user) owner_user boot)) = []"
proof -
  have r: "remove_stale_socket own_directory (for_user owner_user) owner_user boot
      = (Inl (Simple PermissionDenied ''unsafe stale broker socket''), tick boot)"
    by (simp add: remove_stale_socket_def symlink_metadata_def query_def observe_def raw_os_def own_directory_def)
  from remove_stale_socket_own [OF r] r show ?thesis by (simp add: own_directory_def)
qed

text \<open>
  C26: The lock is a private file. Acquiring the lock succeeds only after the opened lock file was seen to be a
  regular file owned by the user and then was given mode 0600 and locked exclusively without
  waiting, in this order; when the file is anything else, neither its mode nor its lock is touched.
\<close>

theorem acquire_lock_private:
  assumes "acquire_lock os paths user s = (r, s')"
  shows "(is_ok r \<longrightarrow> map snd (new_effects s s') = map FileSystem
      [OpenLock (lock_path paths) PRIVATE_MODE, SetLockMode (lock_path paths) PRIVATE_MODE,
       FlockExclusiveNonblocking (lock_path paths)]) \<and>
    (map snd (new_effects s s') \<noteq> [FileSystem (OpenLock (lock_path paths) PRIVATE_MODE)] \<longrightarrow>
      (\<exists>m. os_fstat os (Suc (observed s)) (lock_path paths) = Inr m \<and> file_type m = RegularFile \<and> owner m = uid user))"
  using assms
  by (auto simp: acquire_lock_def and_then_def query_def observe_def raw_os_def raw_unit_def pure_act_def fs_syscall_def
      call_os_def new_effects_def emit_def split: if_splits option.splits sum.splits prod.splits)

theorem acquire_lock_private_witness:
  "map snd (new_effects boot (snd (acquire_lock
      (calm\<lparr>os_fstat := (\<lambda>n p. Inr \<lparr>file_type = RegularFile, owner = 501, mode = 384\<rparr>)\<rparr>)
      (for_user owner_user) owner_user boot)))
     = map FileSystem [OpenLock (lock_path (for_user owner_user)) PRIVATE_MODE,
       SetLockMode (lock_path (for_user owner_user)) PRIVATE_MODE, FlockExclusiveNonblocking (lock_path (for_user owner_user))]"
proof -
  let ?os = "calm\<lparr>os_fstat := (\<lambda>n p. Inr \<lparr>file_type = RegularFile, owner = 501, mode = 384\<rparr>)\<rparr>"
  obtain r s' where a: "acquire_lock ?os (for_user owner_user) owner_user boot = (r, s')" by fastforce
  moreover have "is_ok (fst (acquire_lock ?os (for_user owner_user) owner_user boot))"
    by (simp add: acquire_lock_def and_then_def query_def observe_def raw_os_def raw_unit_def pure_act_def fs_syscall_def
        call_os_def owner_user_def)
  ultimately show ?thesis using acquire_lock_private [OF a] by simp
qed

section \<open>Environment and account\<close>

text \<open>
  C23: Secrets do not leak into children. The environment of a child of a client's request binds the biometric
  key to \<^verbatim>\<open>true\<close> and \<^verbatim>\<open>OP_ACCOUNT\<close> to the selected account, each exactly once or not at all, binds no
  session, service-account, Connect or \<^verbatim>\<open>OPP_\<close> variable, and every other variable as the client has it.
\<close>

theorem sanitized_environment:
  "bindings (sanitized c a) key =
    (if key = ascii ''OP_ACCOUNT'' then (case explicit a of Some selector \<Rightarrow> [selector] | None \<Rightarrow> [])
     else if key = ascii ''OP_BIOMETRIC_UNLOCK_ENABLED'' then [ascii ''true'']
     else if key \<in> ascii ` {''OP_SESSION'', ''OP_SERVICE_ACCOUNT_TOKEN'', ''OP_CONNECT_HOST'', ''OP_CONNECT_TOKEN''} \<or>
       starts_with key (ascii ''OP_SESSION_'') \<or> starts_with key (ascii ''OPP_'') then []
     else bindings (environment c) key)"
  by (auto simp: bindings_sanitized is_removed_def)

text \<open>
  Selection of the account. A non-empty explicit selector wins over a non-empty \<^verbatim>\<open>OP_ACCOUNT\<close>, which wins
  over the default; an accepted selector is never empty and is valid UTF-8, and a selector that is not
  UTF-8 is an error, whatever the other says.
\<close>

theorem select_precedence:
  "select e o' =
    (let chosen = (if e \<noteq> None \<and> e \<noteq> Some [] then e else if o' \<noteq> None \<and> o' \<noteq> Some [] then o' else None)
     in (case chosen of
           None \<Rightarrow> Inr (Account None)
         | Some v \<Rightarrow> if utf8_valid v then Inr (Account (Some v)) else Inl ''account selectors must be valid UTF-8''))"
  by (auto simp: select_def filter_nonempty_def utf8_def to_str_def split: option.splits)

section \<open>Deadlines\<close>

text \<open>
  Deadlines never wrap. A deadline computed from a clock reading is not before that reading and is a full
  duration away, or at the largest instant; what remains of it at a later reading is exactly the
  difference, and nothing once the reading reached it.
\<close>

theorem deadline_saturates:
  "now \<le> add_duration now d \<and> remaining now (add_duration now d) = min d (2 ^ 64 - 1 - unat now) \<and>
   remaining t (add_duration now d) = (unat now + min d (2 ^ 64 - 1 - unat now)) - unat t \<and>
   (remaining t (add_duration now d) = 0 \<longleftrightarrow> add_duration now d \<le> t)"
proof -
  have "unat now < 2 ^ 64" using unsigned_less [of now, where 'a = nat] by simp
  then have eq: "unat (add_duration now d) = unat now + min d (2 ^ 64 - 1 - unat now)"
    by (simp add: unat_add_duration)
  then have "remaining now (add_duration now d) = min d (2 ^ 64 - 1 - unat now)" by (simp add: remaining_eq)
  with eq show ?thesis by (simp add: add_duration_ge remaining_eq word_le_nat_alt)
qed

end
