(* ===== verification/Transport.thy ===== *)
theory Transport
  imports Messages
begin

text \<open>
  Whole messages between two processes: what one end sends is what the other receives, and what an
  end accepts is a well-formed message. The two sockets are arguments; \<open>wire\<close> is an example of one.
\<close>

section \<open>An example socket\<close>

text \<open>Every call succeeds, and \<^verbatim>\<open>sendmsg\<close> and \<^verbatim>\<open>recvmsg\<close> move at most five bytes at a time.\<close>

definition wire :: socket where
  "wire = \<lparr>so_sendmsg = (\<lambda>cs bs. Inr (min 5 (length bs))), so_write = (\<lambda>cs bs. None),
     so_recvmsg = (\<lambda>cs. Inr (min 5 (length cs))), so_set_cloexec = (\<lambda>d. None)\<rparr>"

lemma wire_works [simp]: "socket_works wire" "socket_documented wire"
  by (auto simp: socket_works_def socket_documented_def wire_def)

definition quiet :: stream where
  "quiet = \<lparr>incoming = [], outgoing = []\<rparr>"

section \<open>Requests\<close>

lemma encode_request_size: "encode_request r = Inr (k, p, ds) \<Longrightarrow> length p \<le> MAX_PAYLOAD"
  by (cases r) (auto simp: result_simps enc_finish_iff split: sum.splits)

lemma encode_request_fds: "encode_request r = Inr (k, p, ds) \<Longrightarrow> length ds \<le> 3"
  by (cases r) (auto simp: result_simps fd_list_def split: prod.splits)

text \<open>
  C19: Requests arrive as sent. When a client sends a well-formed request and the broker's end of the
  connection receives those bytes, however the kernel splits them, the broker reads exactly that
  request, with its descriptors, and nothing of what follows it.
\<close>

theorem request_arrives:
  assumes "socket_documented so" and "socket_works so'" and "request_ok r"
    and "send_request so st r = Inr st'" and "incoming t = drop (length (outgoing st)) (outgoing st') @ rest"
  shows "receive_request so' t = Inr (r, t\<lparr>incoming := rest\<rparr>)"
proof -
  obtain k p ds where e: "encode_request r = Inr (k, p, ds)" and s: "send_frame so st k p ds = Inr st'"
    using assms(4) by (auto simp: send_request_def result_simps)
  have "incoming t = frame_cells k p ds @ rest"
    using send_frame_sends [OF assms(1) s] assms(5) by simp
  moreover have "length ds \<le> CONTROL_ROOM" using encode_request_fds [OF e] by (simp add: CONTROL_ROOM_def)
  ultimately have "receive_frame so' t = Inr ((k, p, ds), t\<lparr>incoming := rest\<rparr>)"
    using receive_frame_receives [OF assms(2) _ encode_request_size [OF e]] by simp
  moreover have "decode_request k p ds = Inr r"
    using e assms(3) by (simp add: decode_request_iff [OF encode_request_size [OF e]])
  ultimately show ?thesis by (simp add: receive_request_def)
qed

text \<open>
  C18: Only well-formed requests are accepted. A request that the broker receives is within every limit
  (timeout between 1 second and 10 minutes, at most 256 NUL-free arguments of at most 64 KiB, absolute
  working directory, valid account and paths), and the bytes it consumed are exactly the frame a
  client sends for this request.
\<close>

theorem request_accepted_iff_sent:
  assumes "socket_documented so" and "receive_request so st = Inr (r, st')"
  shows "request_ok r \<and> (\<exists>k p ds. encode_request r = Inr (k, p, ds) \<and>
    map fst (incoming st) = map fst (frame_cells k p ds) @ map fst (incoming st'))"
proof -
  obtain k p ds where f: "receive_frame so st = Inr ((k, p, ds), st')" and d: "decode_request k p ds = Inr r"
    using assms(2) by (auto simp: receive_request_def result_simps)
  from receive_frame_was_sent [OF assms(1) f] decode_request_iff [of p k ds r] d show ?thesis
    by (auto simp: frame_cells_def)
qed

text \<open>The example: a status request for the account \<open>a\<close>.\<close>

definition ask :: request where
  "ask = ReqStatus (Account (Some [97]))"

lemma ask_encoded: "encode_request ask = Inr (REQUEST_STATUS, [1, 0, 0, 0, 1, 97], [])"
  by (simp add: ask_def enc_account_def enc_string_def enc_bytes_def enc_u8_def enc_u32_def enc_finish_def
      u32_try_from_def MAX_PAYLOAD_def literals)

lemma ask_ok: "request_ok ask"
  by (simp add: ask_def request_ok_def account_ok_def utf8_valid_ascii_bytes)

lemma ask_sent: "send_request wire quiet ask = Inr (quiet\<lparr>outgoing := frame_cells REQUEST_STATUS [1, 0, 0, 0, 1, 97] []\<rparr>)"
proof -
  have "is_ok (send_request wire quiet ask)"
    by (simp add: send_request_def ask_encoded send_frame_def MAX_PAYLOAD_def sendmsg_def wire_def write_all_def quiet_def
        u32_try_from_def Let_def literals)
  then obtain st' where s: "send_request wire quiet ask = Inr st'"
    by (cases "send_request wire quiet ask") auto
  then have "send_frame wire quiet REQUEST_STATUS [1, 0, 0, 0, 1, 97] [] = Inr st'"
    by (simp add: send_request_def ask_encoded)
  from send_frame_sends [OF wire_works(2) this] s show ?thesis by (simp add: quiet_def)
qed

theorem request_arrives_witness:
  "receive_request wire (quiet\<lparr>incoming := frame_cells REQUEST_STATUS [1, 0, 0, 0, 1, 97] [] @ plain [7]\<rparr>)
     = Inr (ask, quiet\<lparr>incoming := plain [7]\<rparr>)"
  using request_arrives [OF wire_works(2) wire_works(1) ask_ok ask_sent,
      of "quiet\<lparr>incoming := frame_cells REQUEST_STATUS [1, 0, 0, 0, 1, 97] [] @ plain [7]\<rparr>" "plain [7]"]
  by (simp add: quiet_def)

lemma ask_received:
  "receive_request wire (st\<lparr>incoming := frame_cells REQUEST_STATUS [1, 0, 0, 0, 1, 97] []\<rparr>) = Inr (ask, st\<lparr>incoming := []\<rparr>)"
proof -
  have "receive_frame wire (st\<lparr>incoming := frame_cells REQUEST_STATUS [1, 0, 0, 0, 1, 97] []\<rparr>)
      = Inr ((REQUEST_STATUS, [1, 0, 0, 0, 1, 97], []), st\<lparr>incoming := []\<rparr>)"
    by (subst receive_frame_receives [where rest = "[]"]) (simp_all add: MAX_PAYLOAD_def CONTROL_ROOM_def)
  moreover have "decode_request REQUEST_STATUS [1, 0, 0, 0, 1, 97] [] = Inr ask"
    by (subst decode_request_iff) (simp_all add: ask_ok ask_encoded MAX_PAYLOAD_def)
  ultimately show ?thesis by (simp add: receive_request_def)
qed

theorem request_accepted_iff_sent_witness:
  "request_ok ask \<and> (\<exists>k p ds. encode_request ask = Inr (k, p, ds) \<and>
    map fst (frame_cells REQUEST_STATUS [1, 0, 0, 0, 1, 97] []) = map fst (frame_cells k p ds))"
  using request_accepted_iff_sent [OF wire_works(2) ask_received [of quiet]] by (simp add: quiet_def)

section \<open>Responses and client events\<close>

lemma encode_event_size: "encode_client_event ev = Inr (k, p) \<Longrightarrow> length p \<le> MAX_PAYLOAD"
  by (auto simp: encode_client_event_def MAX_PAYLOAD_def split: client_event.splits if_splits)

lemma diagnostic_byte_inj: "diagnostic_byte d = diagnostic_byte d' \<Longrightarrow> d = d'"
  using diagnostic_try_from_Inr by (metis Inr_inject)

lemma be_bytes_i32_inj: "be_bytes 4 (unat v) = be_bytes 4 (unat w) \<Longrightarrow> v = w" for v w :: i32
  using i32_bytes by metis

lemma encode_response_inj: "encode_response r = encode_response r' \<Longrightarrow> r = r'"
  by (cases r; cases r')
    (auto simp: kind_bytes append_eq_append_conv dest: error_code_byte_inj diagnostic_byte_inj be_bytes_i32_inj)

lemma response_received:
  assumes "socket_documented so" and "socket_works so'" and "send_response so st r = Inr st'"
    and "incoming t = drop (length (outgoing st)) (outgoing st') @ rest"
  shows "receive_response so' t = Inr (r', t') \<longleftrightarrow> response_ok r \<and> r' = r \<and> t' = t\<lparr>incoming := rest\<rparr>"
proof -
  obtain k p where e: "encode_response r = (k, p)" and s: "send_frame so st k p [] = Inr st'"
    using assms(3) by (cases "encode_response r") (simp add: send_response_def)
  have "incoming t = frame_cells k p [] @ rest"
    using send_frame_sends [OF assms(1) s] assms(4) by simp
  then have f: "receive_frame so' t = Inr ((k, p, []), t\<lparr>incoming := rest\<rparr>)"
    using receive_frame_receives [OF assms(2)] send_frame_sends [OF assms(1) s] by simp
  from f decode_response_iff [of k p r'] e encode_response_inj [of r r'] show ?thesis
    by (auto simp: receive_response_def require_no_descriptors_def result_simps)
qed

text \<open>
  C20: Responses arrive as sent, and only responses. A response the broker sends (an exit code between 0 and
  255) is what the client receives. Conversely a client accepts bytes only as the response whose
  frame they are: exit codes out of range, unknown kinds and unknown codes are refused.
\<close>

theorem response_transport:
  assumes "socket_documented so" and "socket_works so'" and "send_response so st r = Inr st'"
    and "incoming t = drop (length (outgoing st)) (outgoing st') @ rest"
  shows "receive_response so' t = Inr (r', t') \<longleftrightarrow> response_ok r \<and> r' = r \<and> t' = t\<lparr>incoming := rest\<rparr>"
  using assms by (rule response_received)

theorem response_transport_witness:
  "receive_response wire (quiet\<lparr>incoming := frame_cells RESPONSE_OK [] []\<rparr>) = Inr (RespOk, quiet)"
proof -
  have "is_ok (send_response wire quiet RespOk)"
    by (simp add: send_response_def send_frame_def MAX_PAYLOAD_def sendmsg_def wire_def write_all_def quiet_def
        u32_try_from_def Let_def literals)
  then obtain st' where s: "send_response wire quiet RespOk = Inr st'"
    by (cases "send_response wire quiet RespOk") auto
  then have "st' = quiet\<lparr>outgoing := frame_cells RESPONSE_OK [] []\<rparr>"
    using send_frame_sends [OF wire_works(2), of quiet RESPONSE_OK "[]" "[]" st'] by (simp add: send_response_def quiet_def)
  with s have "send_response wire quiet RespOk = Inr (quiet\<lparr>outgoing := frame_cells RESPONSE_OK [] []\<rparr>)" by simp
  from response_transport [OF wire_works(2,1) this, of "quiet\<lparr>incoming := frame_cells RESPONSE_OK [] []\<rparr>" "[]" RespOk quiet]
  show ?thesis by (simp add: quiet_def response_ok_def)
qed

text \<open>
  C21: Client events arrive as sent, and only those. A client can send "streams closed" or one of the signals
  SIGHUP, SIGINT, SIGQUIT and SIGTERM; the broker reads exactly the event that was sent, and accepts no
  other frame as an event.
\<close>

theorem client_event_transport:
  assumes "socket_documented so" and "socket_works so'" and "send_client_event so st ev = Inr st'"
    and "incoming t = drop (length (outgoing st)) (outgoing st') @ rest"
  shows "(receive_client_event so' t = Inr (ev', t') \<longleftrightarrow> ev' = ev \<and> t' = t\<lparr>incoming := rest\<rparr>) \<and>
    ev \<in> insert StreamsClosed (CancelEvent ` signal_number ` {SIGHUP, SIGINT, SIGQUIT, SIGTERM})"
proof -
  obtain k p where e: "encode_client_event ev = Inr (k, p)" and s: "send_frame so st k p [] = Inr st'"
    using assms(3) by (auto simp: send_client_event_def result_simps)
  have "incoming t = frame_cells k p [] @ rest"
    using send_frame_sends [OF assms(1) s] assms(4) by simp
  then have f: "receive_frame so' t = Inr ((k, p, []), t\<lparr>incoming := rest\<rparr>)"
    using receive_frame_receives [OF assms(2)] send_frame_sends [OF assms(1) s] by simp
  have "ev' = ev" if "encode_client_event ev' = Inr (k, p)"
    using that e decode_client_event_iff [of k p] by (metis Inr_inject)
  with f e decode_client_event_iff [of k p ev'] have
    "receive_client_event so' t = Inr (ev', t') \<longleftrightarrow> ev' = ev \<and> t' = t\<lparr>incoming := rest\<rparr>"
    by (auto simp: receive_client_event_def require_no_descriptors_def result_simps)
  moreover have "ev \<in> insert StreamsClosed (CancelEvent ` signal_number ` {SIGHUP, SIGINT, SIGQUIT, SIGTERM})"
    using e by (auto simp: encode_client_event_def is_caller_signal_def split: client_event.splits if_splits)
  ultimately show ?thesis by blast
qed

theorem client_event_transport_witness:
  "receive_client_event wire (quiet\<lparr>incoming := frame_cells EVENT_STREAMS_CLOSED [] [] @ plain [9]\<rparr>)
    = Inr (StreamsClosed, quiet\<lparr>incoming := plain [9]\<rparr>)"
proof -
  have "is_ok (send_client_event wire quiet StreamsClosed)"
    by (simp add: send_client_event_def encode_client_event_def send_frame_def MAX_PAYLOAD_def sendmsg_def wire_def
        write_all_def quiet_def u32_try_from_def Let_def literals)
  then obtain st' where s: "send_client_event wire quiet StreamsClosed = Inr st'"
    by (cases "send_client_event wire quiet StreamsClosed") auto
  then have "st' = quiet\<lparr>outgoing := frame_cells EVENT_STREAMS_CLOSED [] []\<rparr>"
    using send_frame_sends [OF wire_works(2), of quiet EVENT_STREAMS_CLOSED "[]" "[]" st']
    by (simp add: send_client_event_def encode_client_event_def quiet_def)
  with s have "send_client_event wire quiet StreamsClosed = Inr (quiet\<lparr>outgoing := frame_cells EVENT_STREAMS_CLOSED [] []\<rparr>)"
    by simp
  from client_event_transport [OF wire_works(2,1) this, of "quiet\<lparr>incoming := frame_cells EVENT_STREAMS_CLOSED [] [] @ plain [9]\<rparr>"
      "plain [9]" StreamsClosed "quiet\<lparr>incoming := plain [9]\<rparr>"]
  show ?thesis by (simp add: quiet_def)
qed

section \<open>Negotiation\<close>

lemma read_exact_eq:
  "n \<le> length (incoming st) \<Longrightarrow>
    read_exact n st = Inr (map fst (take n (incoming st)), st\<lparr>incoming := drop n (incoming st)\<rparr>)"
  by (simp add: read_exact_def)

lemma preamble_fields [simp]:
  "length (normal_preamble v) = 8" "take 4 (normal_preamble v) = NORMAL_MAGIC"
  "drop 4 (normal_preamble v) = be_bytes 4 (unat v)" "(of_nat (be_value (be_bytes 4 (unat v))) :: u32) = v"
proof -
  have "unat v mod 256 ^ 4 = unat v" using unsigned_less [of v, where 'a = nat] by simp
  then show "(of_nat (be_value (be_bytes 4 (unat v))) :: u32) = v" by (simp del: power_numeral)
qed (simp_all add: normal_preamble_def NORMAL_MAGIC_def ascii_def)

lemma preamble_not_stop: "normal_preamble v \<noteq> STOP_REQUEST"
  by (auto simp: normal_preamble_def NORMAL_MAGIC_def STOP_REQUEST_def literals)

lemma server_preamble_answers:
  assumes "so_write so = (\<lambda>_ _. None)" and "map fst (take 8 (incoming st)) = normal_preamble version"
  shows "server_preamble so st = Inr (if version = PROTOCOL_VERSION then PreambleNormal else PreambleIncompatible,
      st\<lparr>incoming := drop 8 (incoming st), outgoing := outgoing st @ plain (normal_preamble PROTOCOL_VERSION)\<rparr>)"
proof -
  have len: "8 \<le> length (incoming st)" using arg_cong [OF assms(2), of length] by simp
  have ne: "normal_preamble v \<noteq> []" for v
    by (metis list.size(3) preamble_fields(1) zero_neq_numeral)
  then show ?thesis
    by (simp add: server_preamble_def read_exact_eq len assms(2) preamble_not_stop write_all_def assms(1))
qed

text \<open>
  C22: Versions are agreed on before anything else. When a client announces any version to the broker, the
  broker goes on exactly if it is its own version, answers in both cases with the version it speaks,
  and a client of version \<open>PROTOCOL_VERSION\<close> accepts an answer exactly if it is that same version.
\<close>

theorem negotiation_agrees:
  assumes "so_write so = (\<lambda>_ _. None)" and "map fst (take 8 (incoming st)) = normal_preamble version"
    and "map fst (take 8 (incoming t)) = normal_preamble answered"
  shows "server_preamble so st = Inr (if version = PROTOCOL_VERSION then PreambleNormal else PreambleIncompatible,
      st\<lparr>incoming := drop 8 (incoming st), outgoing := outgoing st @ plain (normal_preamble PROTOCOL_VERSION)\<rparr>) \<and>
    (is_ok (client_negotiate so t) \<longleftrightarrow> answered = PROTOCOL_VERSION)"
proof
  have len: "8 \<le> length (incoming t)" using arg_cong [OF assms(3), of length] by simp
  have ne: "normal_preamble v \<noteq> []" for v
    by (metis list.size(3) preamble_fields(1) zero_neq_numeral)
  then show "is_ok (client_negotiate so t) \<longleftrightarrow> answered = PROTOCOL_VERSION"
    by (simp add: client_negotiate_def read_exact_eq len assms(1,3) write_all_def)
qed (rule server_preamble_answers [OF assms(1,2)])

theorem negotiation_agrees_witness:
  "server_preamble wire (quiet\<lparr>incoming := plain (normal_preamble 2)\<rparr>)
     = Inr (PreambleIncompatible, quiet\<lparr>outgoing := plain (normal_preamble PROTOCOL_VERSION)\<rparr>) \<and>
   is_ok (client_negotiate wire (quiet\<lparr>incoming := plain (normal_preamble 1)\<rparr>))"
  using negotiation_agrees [of wire "quiet\<lparr>incoming := plain (normal_preamble 2)\<rparr>" 2
      "quiet\<lparr>incoming := plain (normal_preamble 1)\<rparr>" 1]
  by (simp add: wire_def quiet_def PROTOCOL_VERSION_def)

end
