(* ===== verification/Server.thy ===== *)
theory Server
  imports Broker Transport
begin

text \<open>
  \<^verbatim>\<open>src/broker.rs\<close> beside the executor: the start-up of the broker process, its configuration channel to
  the client that starts it, and one connection from its preamble to its last response. How the
  threads of the running broker interleave is in \<open>Shutdown\<close>.
\<close>

section \<open>The start-up channel\<close>

definition STARTUP_MAGIC :: bytes where "STARTUP_MAGIC = ascii ''OPPCFG1'' @ [0]"
definition STARTUP_READY :: u8 where "STARTUP_READY = 1"
definition STARTUP_EXISTS :: u8 where "STARTUP_EXISTS = 2"
definition STARTUP_ERROR :: u8 where "STARTUP_ERROR = 3"
definition MAX_CONNECTIONS :: nat where "MAX_CONNECTIONS = 64"

datatype startup_result = StartupReady | StartupExisting | StartupFailed

definition write_startup_configuration :: "socket \<Rightarrow> stream \<Rightarrow> bytes \<Rightarrow> stream io_result" where
  "write_startup_configuration so st op_path =
     bind_result (write_all so STARTUP_MAGIC st) (\<lambda>st1.
       (case u32_try_from (length op_path) of
          None \<Rightarrow> Inl (Simple InvalidInput ''op path is too long'')
        | Some n \<Rightarrow>
            bind_result (write_all so (be_bytes 4 (unat n)) st1) (\<lambda>st2. write_all so op_path st2)))"

definition read_startup_result :: "stream \<Rightarrow> (startup_result \<times> stream) io_result" where
  "read_startup_result st =
     bind_result (read_exact 1 st) (\<lambda>(answer, st1).
       if answer ! 0 = STARTUP_READY then Inr (StartupReady, st1)
       else if answer ! 0 = STARTUP_EXISTS then Inr (StartupExisting, st1)
       else if answer ! 0 = STARTUP_ERROR then Inr (StartupFailed, st1)
       else Inl (invalid ''invalid broker startup response''))"

definition read_startup_configuration :: "stream \<Rightarrow> (bytes \<times> stream) io_result" where
  "read_startup_configuration st =
     bind_result (read_exact 8 st) (\<lambda>(magic, st1).
       if magic \<noteq> STARTUP_MAGIC then Inl (invalid ''invalid broker startup configuration'')
       else
         bind_result (read_exact 4 st1) (\<lambda>(len, st2).
           let n = unat (of_nat (be_value len) :: u32) in
           if n = 0 \<or> n > MAX_PAYLOAD then Inl (invalid ''invalid broker op path length'')
           else
             bind_result (read_exact n st2) (\<lambda>(path, st3).
               (case string_from_utf8 path of
                  None \<Rightarrow> Inl (invalid ''invalid broker op path'')
                | Some p \<Rightarrow> Inr (p, st3)))))"

section \<open>Start-up\<close>

text \<open>What the start-up of the internal broker ends with, if not with an error.\<close>

record listening =
  ls_op_path :: bytes
  ls_user :: effective_user
  ls_paths :: runtime_paths
  ls_terminal :: terminal
  ls_lock :: broker_lock

datatype started = AlreadyRunning | Listening listening

definition startup_write :: "os \<Rightarrow> u8 \<Rightarrow> unit act" where
  "startup_write os b = call_os os (StartupWrite b)"

text \<open>\<^verbatim>\<open>let _ = startup.write_all(&[STARTUP_ERROR]); return Err(error);\<close>\<close>

definition or_report :: "os \<Rightarrow> 'a act \<Rightarrow> 'a act" where
  "or_report os m s =
     (case m s of
        (Inl e, s1) \<Rightarrow> (Inl e, snd (startup_write os STARTUP_ERROR s1))
      | (Inr x, s1) \<Rightarrow> (Inr x, s1))"

definition would_block :: "io_error \<Rightarrow> bool" where
  "would_block e \<longleftrightarrow> e = RawOs EAGAIN"

text \<open>From the lock to the first accept; the executor's thread is spawned just before the ready byte.\<close>

definition listen_locked ::
  "os \<Rightarrow> bytes \<Rightarrow> effective_user \<Rightarrow> runtime_paths \<Rightarrow> broker_lock \<Rightarrow> started act" where
  "listen_locked os op_path user paths lock =
     and_then (or_report os (terminal_acquire os)) (\<lambda>t.
     and_then (or_report os (remove_stale_socket os paths user)) (\<lambda>_.
     and_then (or_report os (fs_syscall os (BindListener (socket_path paths)))) (\<lambda>_.
     and_then (fs_syscall os (SetMode (socket_path paths) PRIVATE_MODE)) (\<lambda>_.
     and_then (call_os os ListenerNonblocking) (\<lambda>_.
     and_then (\<lambda>s. case observe (os_thread_spawn os) s of (r, s') \<Rightarrow> (raw_unit r, s')) (\<lambda>_.
     and_then (startup_write os STARTUP_READY) (\<lambda>_.
       pure_act (Inr (Listening
         \<lparr>ls_op_path = op_path, ls_user = user, ls_paths = paths, ls_terminal = t, ls_lock = lock\<rparr>)))))))))"

text \<open>
  \<open>user\<close> and \<open>user_again\<close> are the two lookups of the effective user, by \<^verbatim>\<open>EffectiveUser::load\<close> and
  by \<^verbatim>\<open>RuntimePaths::load\<close>.
\<close>

definition run_startup ::
  "os \<Rightarrow> stream \<Rightarrow> effective_user io_result \<Rightarrow> effective_user io_result \<Rightarrow> started act" where
  "run_startup os startup user user_again =
     and_then (prepare_broker_process os) (\<lambda>_.
     and_then (pure_act (read_startup_configuration startup)) (\<lambda>(op_path, _).
     and_then (pure_act user) (\<lambda>u.
     and_then (pure_act user_again) (\<lambda>u'.
       let paths = for_user u' in
       and_then (prepare_directory os paths u) (\<lambda>_ s.
         case acquire_lock os paths u s of
           (Inl e, s1) \<Rightarrow>
             if would_block e
             then and_then (startup_write os STARTUP_EXISTS) (\<lambda>_. pure_act (Inr AlreadyRunning)) s1
             else (Inl e, snd (startup_write os STARTUP_ERROR s1))
         | (Inr lock, s1) \<Rightarrow> listen_locked os op_path u paths lock s1)))))"

section \<open>One connection\<close>

text \<open>
  The channel to the executor as one handler sees it: what \<^verbatim>\<open>try_send\<close> does with its \<open>n\<close>-th request, and
  the response to it (\<open>None\<close> when the executor drops the request). \<open>mb_monitor\<close> is an error of
  cloning the stream or starting the monitor thread.
\<close>

datatype try_send = Sent | QueueIsFull | Disconnected

record mailbox =
  mb_try_send :: "nat \<Rightarrow> try_send"
  mb_response :: "nat \<Rightarrow> response option"
  mb_monitor :: "nat \<Rightarrow> io_error option"

text \<open>The handler: its stream and the requests it has submitted, monitored or not.\<close>

record handler =
  hd_stream :: stream
  hd_submitted :: "(bool \<times> request) list"

definition submit :: "mailbox \<Rightarrow> nat \<Rightarrow> response option io_result" where
  "submit mb n =
     (case mb_try_send mb n of
        Sent \<Rightarrow> Inr (mb_response mb n)
      | QueueIsFull \<Rightarrow> Inr (Some (RespError QueueFull))
      | Disconnected \<Rightarrow> Inl (Simple BrokenPipe ''broker actor stopped''))"

definition received_response :: "response option \<Rightarrow> response io_result" where
  "received_response r =
     (case r of None \<Rightarrow> Inl (Simple BrokenPipe ''broker actor stopped'') | Some x \<Rightarrow> Inr x)"

definition note_submitted :: "bool \<Rightarrow> request \<Rightarrow> handler \<Rightarrow> handler" where
  "note_submitted monitored r hs = hs\<lparr>hd_submitted := hd_submitted hs @ [(monitored, r)]\<rparr>"

definition submit_without_monitor :: "mailbox \<Rightarrow> request \<Rightarrow> handler \<Rightarrow> response io_result \<times> handler" where
  "submit_without_monitor mb r hs =
     (bind_result (submit mb (length (hd_submitted hs))) received_response, note_submitted False r hs)"

definition submit_with_monitor ::
  "socket \<Rightarrow> mailbox \<Rightarrow> request \<Rightarrow> handler \<Rightarrow> unit io_result \<times> handler" where
  "submit_with_monitor so mb r hs =
     (let n = length (hd_submitted hs) in
      case mb_monitor mb n of
        Some e \<Rightarrow> (Inl e, hs)
      | None \<Rightarrow>
          (let hs1 = note_submitted True r hs in
           case bind_result (submit mb n) received_response of
             Inl e \<Rightarrow> (Inl e, hs1)
           | Inr response \<Rightarrow>
               (case send_response so (hd_stream hs1) response of
                  Inl e \<Rightarrow> (Inl e, hs1)
                | Inr st \<Rightarrow> (Inr (), hs1\<lparr>hd_stream := st\<rparr>))))"

definition unwarned_start :: "request \<Rightarrow> bool" where
  "unwarned_start r = (case r of ReqStart warning_shown _ _ _ \<Rightarrow> \<not> warning_shown | _ \<Rightarrow> False)"

definition warned_start :: "request \<Rightarrow> bool" where
  "warned_start r = (case r of ReqStart warning_shown _ _ _ \<Rightarrow> warning_shown | _ \<Rightarrow> False)"

definition handle_requests :: "socket \<Rightarrow> mailbox \<Rightarrow> handler \<Rightarrow> unit io_result \<times> handler" where
  "handle_requests so mb hs =
     (case receive_request so (hd_stream hs) of
        Inl e \<Rightarrow> (Inl e, hs)
      | Inr (r, st1) \<Rightarrow>
          (let hs1 = hs\<lparr>hd_stream := st1\<rparr> in
           if unwarned_start r then
             (case submit_without_monitor mb r hs1 of
                (Inl e, hs2) \<Rightarrow> (Inl e, hs2)
              | (Inr response, hs2) \<Rightarrow>
                  (case send_response so (hd_stream hs2) response of
                     Inl e \<Rightarrow> (Inl e, hs2)
                   | Inr st2 \<Rightarrow>
                       if response \<noteq> RespNeedWarning then (Inr (), hs2\<lparr>hd_stream := st2\<rparr>)
                       else
                         (case receive_request so st2 of
                            Inl e \<Rightarrow> (Inl e, hs2\<lparr>hd_stream := st2\<rparr>)
                          | Inr (r', st3) \<Rightarrow>
                              if \<not> warned_start r'
                              then (Inl (invalid ''expected warned start request''), hs2\<lparr>hd_stream := st3\<rparr>)
                              else submit_with_monitor so mb r' (hs2\<lparr>hd_stream := st3\<rparr>))))
           else submit_with_monitor so mb r hs1))"

text \<open>
  What a connection turns out to be. \<open>StopRequested\<close> is carried out by the stopping phases of a handler in
  \<open>Shutdown\<close>.
\<close>

datatype connection = Finished "unit io_result" | StopRequested

definition handle_connection ::
  "os \<Rightarrow> socket \<Rightarrow> mailbox \<Rightarrow> u32 \<Rightarrow> handler \<Rightarrow> sys \<Rightarrow> connection \<times> handler \<times> sys" where
  "handle_connection os so mb expected_uid hs s =
     (case verify_peer os expected_uid s of
        (Inl e, s1) \<Rightarrow> (Finished (Inl e), hs, s1)
      | (Inr _, s1) \<Rightarrow>
          (case server_preamble so (hd_stream hs) of
             Inl e \<Rightarrow> (Finished (Inl e), hs, s1)
           | Inr (PreambleStop, st) \<Rightarrow> (StopRequested, hs\<lparr>hd_stream := st\<rparr>, s1)
           | Inr (PreambleIncompatible, st) \<Rightarrow> (Finished (Inr ()), hs\<lparr>hd_stream := st\<rparr>, s1)
           | Inr (PreambleNormal, st) \<Rightarrow>
               (case handle_requests so mb (hs\<lparr>hd_stream := st\<rparr>) of (r, hs') \<Rightarrow> (Finished r, hs', s1))))"

section \<open>The monitor of a request\<close>

definition monitor_step :: "socket \<Rightarrow> stream \<Rightarrow> request_control \<Rightarrow> stream option \<times> request_control" where
  "monitor_step so st c =
     (case receive_client_event so st of
        Inr (StreamsClosed, st') \<Rightarrow> (Some st', control_close_streams c)
      | Inr (CancelEvent signal, st') \<Rightarrow> (Some st', control_cancel signal c)
      | Inl _ \<Rightarrow> (None, control_disconnect c))"

partial_function (option) monitor ::
  "socket \<Rightarrow> stream \<Rightarrow> request_control \<Rightarrow> request_control option" where
  "monitor so st c =
     (case monitor_step so st c of
        (None, c') \<Rightarrow> Some c'
      | (Some st', c') \<Rightarrow> monitor so st' c')"

end
