(* ===== verification/Serving.thy ===== *)
theory Serving
  imports Server Worlds "HOL-Library.Sublist"
begin

text \<open>
  What the start-up of the broker, its connections and their monitors promise.
\<close>

section \<open>The start-up channel\<close>

lemma be_u32:
  assumes "n < 2 ^ 32"
  shows "unat (of_nat n :: u32) = n" and "unat (of_nat (be_value (be_bytes 4 n)) :: u32) = n"
  using assms by (simp_all add: unat_of_nat take_bit_eq_mod)

lemma be_u32_value: "length bs = 4 \<Longrightarrow> be_bytes 4 (unat (of_nat (be_value bs) :: u32)) = bs"
  using be_value_less [of bs] be_bytes_be_value [of bs] by (simp add: unat_of_nat take_bit_eq_mod)

text \<open>
  The start-up configuration arrives as sent. The path of \<^verbatim>\<open>op\<close> that the starting client writes is
  what the new broker reads, with nothing consumed after it, exactly if it is not empty, at most one payload
  long and valid UTF-8; the broker refuses everything else.
\<close>

theorem startup_configuration_arrives:
  assumes "write_startup_configuration so st path = Inr st'"
    and "incoming t = drop (length (outgoing st)) (outgoing st') @ rest"
  shows "read_startup_configuration t = Inr (path', t') \<longleftrightarrow>
    path' = path \<and> t' = t\<lparr>incoming := rest\<rparr> \<and> path \<noteq> [] \<and> length path \<le> MAX_PAYLOAD \<and> utf8_valid path"
proof -
  have magic: "length STARTUP_MAGIC = 8" by (simp add: STARTUP_MAGIC_def ascii_def)
  have small: "length path < 2 ^ 32"
    using assms(1) by (auto simp: write_startup_configuration_def u32_try_from_def result_simps split: if_splits)
  from assms(1) small obtain st1 st2 where "write_all so STARTUP_MAGIC st = Inr st1"
    "write_all so (be_bytes 4 (length path)) st1 = Inr st2" "write_all so path st2 = Inr st'"
    by (auto simp: write_startup_configuration_def u32_try_from_def result_simps be_u32)
  then have out: "outgoing st' = outgoing st @ plain (STARTUP_MAGIC @ be_bytes 4 (length path) @ path)"
    by (auto dest!: write_all_plain)
  have inc: "incoming t = plain (STARTUP_MAGIC @ be_bytes 4 (length path) @ path) @ rest"
    using assms(2) out by simp
  have "read_exact 8 t = Inr (STARTUP_MAGIC, t\<lparr>incoming := plain (be_bytes 4 (length path) @ path) @ rest\<rparr>)"
    using inc magic by (simp add: read_exact_def)
  moreover have "read_exact 4 (t\<lparr>incoming := plain (be_bytes 4 (length path) @ path) @ rest\<rparr>)
      = Inr (be_bytes 4 (length path), t\<lparr>incoming := plain path @ rest\<rparr>)"
    by (simp add: read_exact_def)
  moreover have "read_exact (length path) (t\<lparr>incoming := plain path @ rest\<rparr>) = Inr (path, t\<lparr>incoming := rest\<rparr>)"
    by (simp add: read_exact_def)
  ultimately show ?thesis
    using small be_u32(2) [OF small]
    by (auto simp: read_startup_configuration_def Let_def string_from_utf8_def)
qed

theorem startup_configuration_arrives_witness:
  "\<exists>st'. write_startup_configuration wire quiet [47] = Inr st' \<and>
    read_startup_configuration (quiet\<lparr>incoming := outgoing st'\<rparr>) = Inr ([47], quiet)"
proof -
  have "is_ok (write_startup_configuration wire quiet [47])"
    by (simp add: write_startup_configuration_def write_all_def wire_def u32_try_from_def)
  then obtain st' where w: "write_startup_configuration wire quiet [47] = Inr st'"
    by (cases "write_startup_configuration wire quiet [47]") auto
  from startup_configuration_arrives [OF w, of "quiet\<lparr>incoming := outgoing st'\<rparr>" "[]" "[47]" quiet]
  have "read_startup_configuration (quiet\<lparr>incoming := outgoing st'\<rparr>) = Inr ([47], quiet)"
    by (simp add: quiet_def MAX_PAYLOAD_def utf8_valid_ascii_bytes)
  with w show ?thesis by blast
qed

section \<open>Start-up\<close>

text \<open>The effects of the start-up that others can see: modes, lock, socket and the answer to the client.\<close>

fun landmark :: "effect \<Rightarrow> bool" where
  "landmark (FileSystem (SetMode p m)) = True"
| "landmark (FileSystem (FlockExclusiveNonblocking p)) = True"
| "landmark (FileSystem (RemoveFile p)) = True"
| "landmark (FileSystem (BindListener p)) = True"
| "landmark (StartupWrite b) = True"
| "landmark _ = False"

definition landmarks :: "sys \<Rightarrow> sys \<Rightarrow> effect list" where
  "landmarks s s' = filter landmark (map snd (new_effects s s'))"

text \<open>
  \<open>emits m Q\<close>: whatever result \<open>m\<close> ends with, it and its landmarks satisfy \<open>Q\<close>. \<open>clean xss\<close> is the shape of
  an operation that on success has the landmarks \<open>xss\<close> and on an error a beginning of them;
  \<open>stages xss\<close> also allows the error byte then, unless the broker was already announced as ready.
\<close>

definition emits :: "'a act \<Rightarrow> ('a io_result \<Rightarrow> effect list \<Rightarrow> bool) \<Rightarrow> bool" where
  "emits m Q \<longleftrightarrow> (\<forall>s r s'. m s = (r, s') \<longrightarrow> advances s s' \<and> Q r (landmarks s s'))"

definition begins :: "effect list set \<Rightarrow> effect list \<Rightarrow> bool" where
  "begins xss l \<longleftrightarrow> (\<exists>xs\<in>xss. prefix l xs)"

definition clean :: "effect list set \<Rightarrow> 'a io_result \<Rightarrow> effect list \<Rightarrow> bool" where
  "clean xss r l \<longleftrightarrow> (case r of Inr _ \<Rightarrow> l \<in> xss | Inl _ \<Rightarrow> begins xss l)"

definition unannounced :: "effect list \<Rightarrow> bool" where
  "unannounced l \<longleftrightarrow> StartupWrite STARTUP_READY \<notin> set l"

definition stages :: "effect list set \<Rightarrow> 'a io_result \<Rightarrow> effect list \<Rightarrow> bool" where
  "stages xss r l \<longleftrightarrow> clean xss r l \<or>
     \<not> is_ok r \<and> (\<exists>p. begins xss p \<and> unannounced p \<and> l = p @ [StartupWrite STARTUP_ERROR])"

definition joined :: "effect list set \<Rightarrow> effect list set \<Rightarrow> effect list set" where
  "joined xss yss = {xs @ ys |xs ys. xs \<in> xss \<and> ys \<in> yss}"

lemma landmarks_trans: "advances s t \<Longrightarrow> advances t u \<Longrightarrow> landmarks s u = landmarks s t @ landmarks t u"
  using new_effects_trans [of s t u] by (simp add: landmarks_def)

lemma emits_mono: "emits m P \<Longrightarrow> (\<And>r l. P r l \<Longrightarrow> Q r l) \<Longrightarrow> emits m Q"
  by (auto simp: emits_def)

lemma emits_stages: "emits m (clean xss) \<Longrightarrow> emits m (stages xss)"
  by (erule emits_mono) (simp add: stages_def)

lemma emits_sequence:
  assumes m: "emits m P" and f: "\<And>x. emits (f x) (Q x)"
    and err: "\<And>e l. P (Inl e) l \<Longrightarrow> R (Inl e) l" and ok: "\<And>x l r l'. P (Inr x) l \<Longrightarrow> Q x r l' \<Longrightarrow> R r (l @ l')"
  shows "emits (and_then m f) R"
  unfolding emits_def
proof (intro allI impI)
  fix s r u
  assume run: "and_then m f s = (r, u)"
  obtain r1 t where r1: "m s = (r1, t)" by fastforce
  then have a: "advances s t" and l: "P r1 (landmarks s t)" using m by (auto simp: emits_def)
  show "advances s u \<and> R r (landmarks s u)"
  proof (cases r1)
    case (Inl e)
    with run r1 a l err show ?thesis by (auto simp: and_then_def)
  next
    case (Inr x)
    then have "f x t = (r, u)" using run r1 by (simp add: and_then_def)
    with f have b: "advances t u" and l2: "Q x r (landmarks t u)" by (auto simp: emits_def)
    from ok [OF _ l2] l Inr advances_trans [OF a b] landmarks_trans [OF a b] show ?thesis by simp
  qed
qed

lemma begins_joined: "begins xss l \<Longrightarrow> yss \<noteq> {} \<Longrightarrow> begins (joined xss yss) l"
  unfolding joined_def begins_def by (auto intro: prefix_prefix)

lemma joined_begins: "xs \<in> xss \<Longrightarrow> begins yss l \<Longrightarrow> begins (joined xss yss) (xs @ l)"
  unfolding joined_def begins_def by fastforce

lemma joined_mem: "xs \<in> xss \<Longrightarrow> ys \<in> yss \<Longrightarrow> xs @ ys \<in> joined xss yss"
  unfolding joined_def by blast

lemma emits_clean_then:
  assumes "emits m (clean xss)" and "\<And>x. emits (f x) (clean yss)" and "yss \<noteq> {}"
  shows "emits (and_then m f) (clean (joined xss yss))"
proof (rule emits_sequence [OF assms(1,2)])
  fix e :: io_error and l
  assume "clean xss (Inl e) l"
  then show "clean (joined xss yss) (Inl e) l" using begins_joined assms(3) by (simp add: clean_def)
next
  fix x l r l'
  assume "clean xss (Inr x) l" "clean yss r l'"
  then show "clean (joined xss yss) r (l @ l')"
    using joined_begins joined_mem by (auto simp: clean_def split: sum.splits)
qed

lemma emits_stages_then:
  assumes "emits m (stages xss)" and "\<And>x. emits (f x) (stages yss)" and "yss \<noteq> {}"
    and un: "\<forall>xs\<in>xss. unannounced xs"
  shows "emits (and_then m f) (stages (joined xss yss))"
proof (rule emits_sequence [OF assms(1,2)])
  fix e :: io_error and l
  assume "stages xss (Inl e) l"
  then show "stages (joined xss yss) (Inl e) l"
    using begins_joined [OF _ assms(3)] by (auto simp: stages_def clean_def)
next
  fix x l r l'
  assume l: "stages xss (Inr x) l" and l': "stages yss r l'"
  then have "l \<in> xss" by (simp add: stages_def clean_def)
  from l' show "stages (joined xss yss) r (l @ l')"
    unfolding stages_def
  proof (elim disjE conjE exE)
    assume "clean yss r l'"
    then have "clean (joined xss yss) r (l @ l')"
      using \<open>l \<in> xss\<close> joined_begins joined_mem by (auto simp: clean_def split: sum.splits)
    then show "clean (joined xss yss) r (l @ l') \<or> \<not> is_ok r \<and>
      (\<exists>p. begins (joined xss yss) p \<and> unannounced p \<and> l @ l' = p @ [StartupWrite STARTUP_ERROR])" ..
  next
    fix p
    assume "\<not> is_ok r" "begins yss p" "unannounced p" "l' = p @ [StartupWrite STARTUP_ERROR]"
    moreover have "unannounced (l @ p)"
      using un \<open>l \<in> xss\<close> \<open>unannounced p\<close> by (simp add: unannounced_def)
    ultimately show "clean (joined xss yss) r (l @ l') \<or> \<not> is_ok r \<and>
      (\<exists>p. begins (joined xss yss) p \<and> unannounced p \<and> l @ l' = p @ [StartupWrite STARTUP_ERROR])"
      using joined_begins [OF \<open>l \<in> xss\<close>] by (intro disjI2 conjI exI [of _ "l @ p"]) simp_all
  qed
qed

lemma emits_quiet: "acts_within (\<lambda>e. \<not> landmark e) m \<Longrightarrow> emits m (clean {[]})"
  unfolding emits_def acts_within_def
  by (force simp: landmarks_def filter_empty_conv clean_def begins_def split: sum.splits)

lemma emits_call: "emits (call_os os e) (clean {if landmark e then [e] else []})"
  by (auto simp: emits_def call_os_eq landmarks_def clean_def begins_def split: sum.splits)

lemma emits_or_report:
  assumes "emits m (clean xss)" and "\<forall>xs\<in>xss. unannounced xs"
  shows "emits (or_report os m) (stages xss)"
  unfolding emits_def
proof (intro allI impI)
  fix s r u
  assume run: "or_report os m s = (r, u)"
  obtain r1 t where r1: "m s = (r1, t)" by fastforce
  then have a: "advances s t" and l: "clean xss r1 (landmarks s t)" using assms(1) by (auto simp: emits_def)
  show "advances s u \<and> stages xss r (landmarks s u)"
  proof (cases r1)
    case (Inl e)
    have "u = tick (emit (StartupWrite STARTUP_ERROR) t)" "r = Inl e"
      using run r1 Inl by (auto simp: or_report_def startup_write_def call_os_def)
    moreover have "landmarks t (tick (emit (StartupWrite STARTUP_ERROR) t)) = [StartupWrite STARTUP_ERROR]"
      by (simp add: landmarks_def)
    moreover have "unannounced (landmarks s t)"
      using l Inl assms(2) by (auto simp: clean_def begins_def unannounced_def dest: set_mono_prefix)
    moreover have "begins xss (landmarks s t)" using l Inl by (simp add: clean_def)
    ultimately show ?thesis
      using advances_trans [OF a] landmarks_trans [OF a, of u] unfolding stages_def
      by (auto intro: exI [of _ "landmarks s t"])
  qed (use run r1 a l in \<open>auto simp: or_report_def stages_def\<close>)
qed

lemma within_case [within]: "(\<And>x y. acts_within P (f x y)) \<Longrightarrow> acts_within P (case z of (x, y) \<Rightarrow> f x y)"
  by (cases z) simp

lemma within_observed [within]: "acts_within P (\<lambda>s. case observe f s of (r, s') \<Rightarrow> (g r, s'))"
  by (auto simp: acts_within_def observe_def)

lemma terminal_acquire_quiet: "acts_within (\<lambda>e. \<not> landmark e) (terminal_acquire os)"
  unfolding terminal_acquire_def by (intro within) simp_all

lemma prepare_broker_quiet: "acts_within (\<lambda>e. \<not> landmark e) (prepare_broker_process os)"
  unfolding prepare_broker_process_def by (intro within) simp_all

lemma emits_failure: "xss \<noteq> {} \<Longrightarrow> emits (pure_act (Inl e)) (clean xss)"
  by (auto simp: emits_def pure_act_def landmarks_def clean_def begins_def)

lemma joined_simps [simp]: "joined {[]} yss = yss" "joined xss {[]} = xss" "joined {xs} {ys} = {xs @ ys}"
  by (auto simp: joined_def)

lemma emits_after_query:
  assumes "\<And>x. emits (f x) Q"
  shows "emits (\<lambda>s. f (g (observed s)) (tick s)) Q"
  unfolding emits_def
proof (intro allI impI)
  fix s r u
  assume "f (g (observed s)) (tick s) = (r, u)"
  with assms have "advances (tick s) u" "Q r (landmarks (tick s) u)" by (auto simp: emits_def)
  moreover have "landmarks s u = landmarks (tick s) u" by (simp add: landmarks_def new_effects_def)
  ultimately show "advances s u \<and> Q r (landmarks s u)" using advances_trans [OF advances_tick] by simp
qed

lemma emits_pure: "[] \<in> xss \<Longrightarrow> emits (pure_act r) (clean xss)"
  by (auto simp: emits_def pure_act_def landmarks_def clean_def begins_def split: sum.splits)

lemma emits_clean_mono: "emits m (clean xss) \<Longrightarrow> xss \<subseteq> yss \<Longrightarrow> emits m (clean yss)"
  by (erule emits_mono) (auto simp: clean_def begins_def split: sum.splits)

lemma emits_remove_stale:
  "emits (remove_stale_socket os paths user) (clean {[], [FileSystem (RemoveFile (socket_path paths))]})"
    (is "emits _ (clean ?xss)")
proof -
  let ?f = "\<lambda>found. (case found of
      Inl e \<Rightarrow> pure_act (if error_kind (RawOs e) = NotFound then Inr () else Inl (RawOs e))
    | Inr m \<Rightarrow> if file_type m \<noteq> SocketFile \<or> owner m \<noteq> uid user
        then pure_act (Inl (Simple PermissionDenied ''unsafe stale broker socket''))
        else call_os os (FileSystem (RemoveFile (socket_path paths))))"
  have "emits (?f found) (clean ?xss)" for found
    using emits_clean_mono [OF emits_call [of os "FileSystem (RemoveFile (socket_path paths))"], of ?xss]
    by (cases found) (auto intro: emits_pure)
  from emits_after_query [of ?f, OF this, of "\<lambda>n. os_lstat os n (socket_path paths)"] show ?thesis
    by (rule back_subst [where P = "\<lambda>m. emits m _"])
      (auto simp: fun_eq_iff remove_stale_socket_def symlink_metadata_def query_def observe_def raw_os_def fs_syscall_def
        pure_act_def split: sum.splits)
qed

lemma emits_query: "emits (query f) (clean {[]})"
  by (intro emits_quiet within)

lemma emits_acquire_lock:
  "emits (acquire_lock os paths user) (clean {[FileSystem (FlockExclusiveNonblocking (lock_path paths))]})"
    (is "emits _ (clean {?l})")
proof -
  let ?lock = "and_then (fs_syscall os (SetLockMode (lock_path paths) PRIVATE_MODE)) (\<lambda>_.
      and_then (fs_syscall os (FlockExclusiveNonblocking (lock_path paths))) (\<lambda>_.
        pure_act (Inr (BrokerLock (lock_path paths)))))"
  have "emits ?lock (clean (joined {[]} (joined {?l} {[]})))"
    unfolding fs_syscall_def
    using emits_call [of os "FileSystem (SetLockMode (lock_path paths) PRIVATE_MODE)"]
      emits_call [of os "FileSystem (FlockExclusiveNonblocking (lock_path paths))"]
    by (intro emits_clean_then emits_quiet) auto
  then have "emits (acquire_lock os paths user) (clean (joined {[]} (joined {[]} {?l})))"
    unfolding acquire_lock_def
    using emits_call [of os "FileSystem (OpenLock (lock_path paths) PRIVATE_MODE)"]
    by (intro emits_clean_then emits_query) (auto simp: fs_syscall_def intro: emits_failure)
  then show ?thesis by simp
qed

lemma emits_prepare_directory:
  "emits (prepare_directory os paths user) (clean {[FileSystem (SetMode (directory paths) DIRECTORY_MODE)]})"
    (is "emits _ (clean {?l})")
proof -
  let ?check = "\<lambda>found :: metadata io_result. (case found of
      Inr m \<Rightarrow> pure_act (verify_directory m (uid user))
    | Inl _ \<Rightarrow> and_then (fs_syscall os (CreateDirAll (directory paths))) (\<lambda>_.
        and_then (symlink_metadata os (directory paths)) (\<lambda>m. pure_act (verify_directory m (uid user)))))"
  have "acts_within (\<lambda>e. \<not> landmark e) (?check found)" for found :: "metadata io_result"
    by (cases found) (auto simp: fs_syscall_def symlink_metadata_def intro!: within)
  then have "emits (and_then (?check found) (\<lambda>_. fs_syscall os (SetMode (directory paths) DIRECTORY_MODE)))
      (clean (joined {[]} {?l}))" for found
    using emits_call [of os "FileSystem (SetMode (directory paths) DIRECTORY_MODE)"]
    by (intro emits_clean_then emits_quiet) (auto simp: fs_syscall_def)
  from emits_after_query [of "\<lambda>found. and_then (?check found) (\<lambda>_. fs_syscall os (SetMode (directory paths) DIRECTORY_MODE))",
      OF this, of "\<lambda>n. raw_os (os_lstat os n (directory paths))", unfolded joined_simps append_Nil] show ?thesis
    by (rule back_subst [where P = "\<lambda>m. emits m _"])
      (auto simp: fun_eq_iff prepare_directory_def symlink_metadata_def query_def observe_def Let_def)
qed

lemma emits_quiet_then:
  assumes "acts_within (\<lambda>e. \<not> landmark e) m" and "\<And>x. emits (f x) Q" and "\<And>e. Q (Inl e) []"
  shows "emits (and_then m f) Q"
  by (rule emits_sequence [OF emits_quiet [OF assms(1)] assms(2)]) (auto simp: clean_def begins_def assms(3))

lemma pure_then: "and_then (pure_act (Inr x)) f = f x"
  by (simp add: fun_eq_iff and_then_def pure_act_def)

lemma emits_case: "(\<And>x y. emits (f x y) Q) \<Longrightarrow> emits (case z of (x, y) \<Rightarrow> f x y) Q"
  by (cases z) simp

text \<open>The landmarks of a broker that starts to listen, from the lock on.\<close>

definition listening_landmarks :: "runtime_paths \<Rightarrow> effect list set" where
  "listening_landmarks paths =
     {removed @ [FileSystem (BindListener (socket_path paths)),
        FileSystem (SetMode (socket_path paths) PRIVATE_MODE), StartupWrite STARTUP_READY] |removed.
      removed \<in> {[], [FileSystem (RemoveFile (socket_path paths))]}}"

lemma emits_listen_locked: "emits (listen_locked os op_path user paths lock) (stages (listening_landmarks paths))"
proof -
  let ?bind = "FileSystem (BindListener (socket_path paths))"
  let ?mode = "FileSystem (SetMode (socket_path paths) PRIVATE_MODE)"
  let ?ready = "StartupWrite STARTUP_READY"
  note quiet = emits_stages [OF emits_quiet]
  have un: "unannounced [x]" if "x \<noteq> ?ready" for x using that by (simp add: unannounced_def)
  have un0: "unannounced []" by (simp add: unannounced_def)
  have last: "emits (and_then (startup_write os STARTUP_READY) (\<lambda>_. pure_act (Inr v))) (stages {[?ready]})" for v :: started
  proof -
    have "emits (and_then (startup_write os STARTUP_READY) (\<lambda>_. pure_act (Inr v))) (stages (joined {[?ready]} {[]}))"
      using emits_call [of os ?ready] unfolding startup_write_def
      by (intro emits_stages emits_clean_then emits_pure) simp_all
    then show ?thesis by simp
  qed
  have spawned: "emits (\<lambda>s. case observe (os_thread_spawn os) s of (r, s') \<Rightarrow> (raw_unit r, s')) (stages {[]})"
    by (intro quiet within)
  have "emits (listen_locked os op_path user paths lock)
      (stages (joined {[]} (joined {[], [FileSystem (RemoveFile (socket_path paths))]}
        (joined {[?bind]} (joined {[?mode]} (joined {[]} (joined {[]} {[?ready]})))))))"
    unfolding listen_locked_def
    using emits_call [of os ?bind] emits_call [of os ?mode] emits_call [of os ListenerNonblocking]
    by (intro emits_stages_then emits_or_report emits_quiet [OF terminal_acquire_quiet] emits_remove_stale last spawned
        ballI) (auto simp: fs_syscall_def un un0 joined_def intro: emits_stages)
  moreover have "joined {[], [x]} {ys} = {removed @ ys |removed. removed \<in> {[], [x]}}" for x :: effect and ys
    by (auto simp: joined_def)
  ultimately show ?thesis by (simp add: listening_landmarks_def)
qed

text \<open>How the start-up can end, from the lock on: \<open>l\<close> are its landmarks.\<close>

definition locking_shape :: "runtime_paths \<Rightarrow> effect list set \<Rightarrow> started io_result \<Rightarrow> effect list \<Rightarrow> bool" where
  "locking_shape paths lss r l \<longleftrightarrow>
     (let lock = FileSystem (FlockExclusiveNonblocking (lock_path paths)); exists = StartupWrite STARTUP_EXISTS in
      case r of
        Inr (Listening _) \<Rightarrow> l \<in> joined {[lock]} lss
      | Inr AlreadyRunning \<Rightarrow> l \<in> {[exists], [lock, exists]}
      | Inl _ \<Rightarrow> \<exists>full\<in>joined {[lock]} lss \<union> {[exists], [lock, exists]}. prefix l full \<or>
          (\<exists>p. prefix p full \<and> unannounced p \<and> l = p @ [StartupWrite STARTUP_ERROR]))"

lemma listen_locked_listens:
  "listen_locked os op_path u paths lock s = (r, s') \<Longrightarrow> r \<noteq> Inr AlreadyRunning"
  by (auto simp: listen_locked_def result_simps split: if_splits)

lemma emits_locking:
  "emits (\<lambda>s. case acquire_lock os paths u s of
      (Inl e, s1) \<Rightarrow> if would_block e
        then and_then (startup_write os STARTUP_EXISTS) (\<lambda>_. pure_act (Inr AlreadyRunning)) s1
        else (Inl e, snd (startup_write os STARTUP_ERROR s1))
    | (Inr lock, s1) \<Rightarrow> listen_locked os op_path u paths lock s1) (locking_shape paths (listening_landmarks paths))"
    (is "emits ?m _")
  unfolding emits_def
proof (intro allI impI)
  fix s r s'
  let ?lock = "FileSystem (FlockExclusiveNonblocking (lock_path paths))"
  assume run: "?m s = (r, s')"
  obtain a t where a: "acquire_lock os paths u s = (a, t)" by fastforce
  then have t: "advances s t" "clean {[?lock]} a (landmarks s t)"
    using emits_acquire_lock unfolding emits_def by blast+
  show "advances s s' \<and> locking_shape paths (listening_landmarks paths) r (landmarks s s')"
  proof (cases a)
    case (Inl e)
    then have l: "landmarks s t \<in> {[], [?lock]}"
      using t(2) by (auto simp: clean_def begins_def prefix_Cons)
    have byte: "landmarks t (tick (emit (StartupWrite b) t)) = [StartupWrite b]" for b
      by (simp add: landmarks_def)
    have s': "\<exists>b. s' = tick (emit (StartupWrite b) t) \<and> (case r of
        Inr v \<Rightarrow> v = AlreadyRunning \<and> b = STARTUP_EXISTS | Inl _ \<Rightarrow> b \<in> {STARTUP_EXISTS, STARTUP_ERROR})"
      using run a Inl
      by (auto simp: and_then_def startup_write_def call_os_def pure_act_def split: if_splits sum.splits)
    then obtain b where b: "s' = tick (emit (StartupWrite b) t)"
      "case r of Inr v \<Rightarrow> v = AlreadyRunning \<and> b = STARTUP_EXISTS | Inl _ \<Rightarrow> b \<in> {STARTUP_EXISTS, STARTUP_ERROR}"
      by blast
    have adv: "advances t s'" unfolding b(1) by simp
    have marks: "landmarks s s' = landmarks s t @ [StartupWrite b]"
      using landmarks_trans [OF t(1) adv] byte b(1) by simp
    have "locking_shape paths (listening_landmarks paths) r (landmarks s s')"
      using l b(2) unfolding marks
      by (auto simp: locking_shape_def Let_def unannounced_def split: sum.splits)
    with advances_trans [OF t(1) adv] show ?thesis by simp
  next
    case (Inr lock)
    then have listen: "listen_locked os op_path u paths lock t = (r, s')" using run a by simp
    then have t': "advances t s'" "stages (listening_landmarks paths) r (landmarks t s')"
      using emits_listen_locked unfolding emits_def by blast+
    have l: "landmarks s t = [?lock]" using t(2) Inr by (simp add: clean_def)
    note marks = landmarks_trans [OF t(1) t'(1), unfolded l]
    have un: "unannounced p \<Longrightarrow> unannounced (?lock # p)" for p by (simp add: unannounced_def)
    have begins: "\<exists>full\<in>joined {[?lock]} (listening_landmarks paths). prefix (?lock # p) full"
      if "begins (listening_landmarks paths) p" for p
      using joined_begins [of "[?lock]" "{[?lock]}", OF _ that] by (simp add: begins_def)
    have "locking_shape paths (listening_landmarks paths) r (landmarks s s')"
    proof (cases r)
      case (Inl e)
      with t'(2) consider "begins (listening_landmarks paths) (landmarks t s')"
        | p where "begins (listening_landmarks paths) p" "unannounced p"
            "landmarks t s' = p @ [StartupWrite STARTUP_ERROR]"
        by (auto simp: stages_def clean_def)
      then show ?thesis
      proof cases
        case 1
        from begins [OF this] Inl show ?thesis
          unfolding marks locking_shape_def Let_def by auto
      next
        case (2 p)
        from begins [OF 2(1)] un [OF 2(2)] 2(3) Inl show ?thesis
          unfolding marks locking_shape_def Let_def by auto
      qed
    next
      case (Inr v)
      then have "v \<noteq> AlreadyRunning" using listen_locked_listens [OF listen] by simp
      then obtain ls where "v = Listening ls" by (cases v) auto
      moreover have "landmarks t s' \<in> listening_landmarks paths" using t'(2) Inr by (simp add: stages_def clean_def)
      ultimately show ?thesis
        using Inr joined_mem [of "[?lock]" "{[?lock]}"] unfolding marks locking_shape_def Let_def by simp
    qed
    with advances_trans [OF t(1) t'(1)] show ?thesis by simp
  qed
qed

text \<open>
  C31: The broker announces itself last. When the start-up of a broker ends with a listening socket, it did, in
  this order and nothing else of the kind: made the directory private, took the lock, removed a stale socket if there
  was one, bound the socket, made it private, and only then answered "ready". If another broker has the
  lock it answers "exists" and touches no socket; on an error it stopped at some point of that order and
  answered with an error or, if it had not sent "ready" before, not at all.
\<close>

theorem startup_in_order:
  assumes "run_startup os startup user (Inr user_again) s = (r, s')"
  defines "paths \<equiv> for_user user_again"
    and "private \<equiv> FileSystem (SetMode (directory (for_user user_again)) DIRECTORY_MODE)"
    and "lock \<equiv> FileSystem (FlockExclusiveNonblocking (lock_path (for_user user_again)))"
    and "exists \<equiv> StartupWrite STARTUP_EXISTS" and "failed \<equiv> StartupWrite STARTUP_ERROR"
  shows "case r of
      Inr (Listening _) \<Rightarrow> landmarks s s' \<in> joined {[private, lock]} (listening_landmarks paths)
    | Inr AlreadyRunning \<Rightarrow> landmarks s s' \<in> {[private, exists], [private, lock, exists]}
    | Inl _ \<Rightarrow> \<exists>full\<in>joined {[private, lock]} (listening_landmarks paths) \<union> {[private, exists], [private, lock, exists]}.
        prefix (landmarks s s') full \<or>
        (\<exists>p. prefix p full \<and> StartupWrite STARTUP_READY \<notin> set p \<and> landmarks s s' = p @ [failed])"
proof -
  let ?shape = "locking_shape paths (listening_landmarks paths)"
  let ?Q = "\<lambda>r l. (\<exists>e. r = Inl e \<and> l \<in> {[], [private]}) \<or> (\<exists>l'. l = private # l' \<and> ?shape r l')"
  have dir: "emits (prepare_directory os paths u) (clean {[private]})" for u
    using emits_prepare_directory [of os paths u] by (simp add: paths_def private_def)
  have rest: "emits (and_then (prepare_directory os paths u) (\<lambda>_ s. case acquire_lock os paths u s of
      (Inl e, s1) \<Rightarrow> if would_block e
        then and_then (startup_write os STARTUP_EXISTS) (\<lambda>_. pure_act (Inr AlreadyRunning)) s1
        else (Inl e, snd (startup_write os STARTUP_ERROR s1))
    | (Inr lock, s1) \<Rightarrow> listen_locked os op_path u paths lock s1)) ?Q" for op_path u
    by (rule emits_sequence [OF dir emits_locking]) (auto simp: clean_def begins_def prefix_Cons)
  have "emits (run_startup os startup user (Inr user_again)) ?Q"
    unfolding run_startup_def pure_then Let_def paths_def [symmetric]
    by (intro emits_quiet_then prepare_broker_quiet within_pure emits_case rest) simp_all
  with assms(1) have "?Q r (landmarks s s')" unfolding emits_def by blast
  then show ?thesis
  proof (elim disjE exE conjE)
    fix e assume "r = Inl e" "landmarks s s' \<in> {[], [private]}"
    then show ?thesis by (auto intro!: bexI [of _ "[private, exists]"])
  next
    fix l assume l: "landmarks s s' = private # l" and shape: "?shape r l"
    have joined: "private # xs \<in> joined {[private, lock]} lss" if "xs \<in> joined {[lock]} lss" for xs lss
      using that by (auto simp: joined_def)
    show ?thesis
    proof (cases r)
      case (Inr v)
      with shape show ?thesis unfolding l locking_shape_def Let_def
        by (auto simp: lock_def paths_def exists_def joined [unfolded lock_def] split: started.splits)
    next
      case (Inl e)
      with shape obtain full where full: "full \<in> joined {[lock]} (listening_landmarks paths) \<union> {[exists], [lock, exists]}"
        and pre: "prefix l full \<or> (\<exists>p. prefix p full \<and> unannounced p \<and> l = p @ [failed])"
        by (auto simp: locking_shape_def Let_def lock_def paths_def exists_def failed_def)
      have "private # full \<in> joined {[private, lock]} (listening_landmarks paths) \<union> {[private, exists], [private, lock, exists]}"
        using full joined by auto
      moreover have "prefix (private # l) (private # full) \<or> (\<exists>p. prefix p (private # full) \<and>
          StartupWrite STARTUP_READY \<notin> set p \<and> private # l = p @ [failed])"
        using pre
      proof (elim disjE exE conjE)
        fix p assume "prefix p full" "unannounced p" "l = p @ [failed]"
        then show ?thesis
          by (intro disjI2 exI [of _ "private # p"]) (simp add: unannounced_def private_def)
      qed simp
      ultimately show ?thesis unfolding l Inl by (simp only: sum.case) blast
    qed
  qed
qed

text \<open>A first start: the directory exists, the lock is free and there is no socket.\<close>

definition first_start :: os where
  "first_start = calm
     \<lparr>os_lstat := (\<lambda>n p. if n < 10 then Inr \<lparr>file_type = Directory, owner = 501, mode = 448\<rparr> else Inl ENOENT),
      os_fstat := (\<lambda>n p. Inr \<lparr>file_type = RegularFile, owner = 501, mode = 384\<rparr>)\<rparr>"

definition somebody :: effective_user where
  "somebody = \<lparr>uid = 501, user_name = ascii ''u'', user_home = ascii ''/home''\<rparr>"

definition configured :: stream where
  "configured = quiet\<lparr>incoming := plain (STARTUP_MAGIC @ be_bytes 4 1 @ [47])\<rparr>"

lemma configured_read: "read_startup_configuration configured = Inr ([47], quiet)"
proof -
  have "read_exact 8 configured = Inr (STARTUP_MAGIC, quiet\<lparr>incoming := plain (be_bytes 4 1 @ [47])\<rparr>)"
    by (simp add: configured_def read_exact_def STARTUP_MAGIC_def ascii_def quiet_def)
  moreover have "read_exact 4 (quiet\<lparr>incoming := plain (be_bytes 4 1 @ [47])\<rparr>)
      = Inr (be_bytes 4 1, quiet\<lparr>incoming := plain [47]\<rparr>)"
    by (simp add: read_exact_def quiet_def)
  moreover have "read_exact 1 (quiet\<lparr>incoming := plain [47]\<rparr>) = Inr ([47], quiet)"
    by (simp add: read_exact_def quiet_def)
  ultimately show ?thesis
    using be_u32(2) [of 1]
    by (simp add: read_startup_configuration_def Let_def MAX_PAYLOAD_def string_from_utf8_def utf8_valid_ascii_bytes)
qed

theorem startup_in_order_witness:
  "\<exists>l s'. run_startup first_start configured (Inr somebody) (Inr somebody) boot = (Inr (Listening l), s') \<and>
    StartupWrite STARTUP_READY \<in> set (landmarks boot s')"
proof -
  let ?paths = "for_user somebody"
  have "\<exists>l s'. run_startup first_start configured (Inr somebody) (Inr somebody) boot = (Inr (Listening l), s')"
    by (simp add: run_startup_def prepare_broker_process_def and_then_def call_os_def pure_act_def configured_read
        prepare_directory_def symlink_metadata_def query_def observe_def raw_os_def verify_directory_def fs_syscall_def
        raw_unit_def acquire_lock_def listen_locked_def or_report_def terminal_acquire_def remove_stale_socket_def
        startup_write_def first_start_def somebody_def Let_def error_kind.simps)
  then obtain l s' where r: "run_startup first_start configured (Inr somebody) (Inr somebody) boot = (Inr (Listening l), s')"
    by blast
  from startup_in_order [OF r] have
    "landmarks boot s' \<in> joined {[FileSystem (SetMode (directory ?paths) DIRECTORY_MODE),
      FileSystem (FlockExclusiveNonblocking (lock_path ?paths))]} (listening_landmarks ?paths)" by simp
  then have "StartupWrite STARTUP_READY \<in> set (landmarks boot s')"
    by (auto simp: joined_def listening_landmarks_def)
  with r show ?thesis by blast
qed

section \<open>Connections\<close>

text \<open>The requests a handler can have submitted, given the answers of the executor.\<close>

definition one_exchange :: "mailbox \<Rightarrow> (bool \<times> request) list \<Rightarrow> bool" where
  "one_exchange mb rs \<longleftrightarrow>
     rs = [] \<or> (\<exists>r. rs = [(\<not> unwarned_start r, r)]) \<or>
     (\<exists>r r'. rs = [(False, r), (True, r')] \<and> unwarned_start r \<and> warned_start r' \<and>
        submit mb 0 = Inr (Some RespNeedWarning))"

lemma submit_with_monitor_submits:
  assumes "submit_with_monitor so mb r hs = (res, hs')"
  shows "hd_submitted hs' \<in> {hd_submitted hs, hd_submitted hs @ [(True, r)]}"
  using assms
  by (auto simp: submit_with_monitor_def Let_def note_submitted_def split: option.splits sum.splits)

lemma receive_request_ok:
  assumes so: "socket_documented so" and run: "receive_request so st = Inr (r, st')"
  shows "request_ok r"
proof -
  obtain k p ds st2 where f: "receive_frame so st = Inr ((k, p, ds), st2)" and d: "decode_request k p ds = Inr r"
    using run by (auto simp: receive_request_def result_simps split: prod.splits)
  have "length p \<le> MAX_PAYLOAD" using receive_frame_was_sent [OF so f] by simp
  with decode_request_iff [of p k ds r] d show ?thesis by simp
qed

lemma handle_requests_submits:
  assumes so: "socket_documented so" and run: "handle_requests so mb hs = (res, hs')" and new: "hd_submitted hs = []"
  shows "one_exchange mb (hd_submitted hs') \<and> (\<forall>(m, r)\<in>set (hd_submitted hs'). request_ok r)"
proof (cases "receive_request so (hd_stream hs)")
  case (Inl e)
  with run new show ?thesis by (auto simp: handle_requests_def one_exchange_def)
next
  case (Inr p)
  obtain r st1 where p: "p = (r, st1)" by (cases p)
  note ok = receive_request_ok [OF so]
  show ?thesis
  proof (cases "unwarned_start r")
    case False
    let ?hs1 = "hs\<lparr>hd_stream := st1\<rparr>"
    have "submit_with_monitor so mb r ?hs1 = (res, hs')"
      using run Inr p False by (simp add: handle_requests_def)
    from submit_with_monitor_submits [OF this] False ok [OF Inr [unfolded p]] new show ?thesis
      by (auto simp: one_exchange_def)
  next
    case True
    let ?hs2 = "note_submitted False r (hs\<lparr>hd_stream := st1\<rparr>)"
    have sub: "hd_submitted ?hs2 = [(False, r)]" using new by (simp add: note_submitted_def)
    have one: "one_exchange mb [(False, r)]" using True by (auto simp: one_exchange_def)
    consider (first) "hd_submitted hs' = [(False, r)]"
      | (second) r' st2 st3 where "received_response (case submit mb 0 of Inr x \<Rightarrow> x | Inl _ \<Rightarrow> None) = Inr RespNeedWarning"
          "is_ok (submit mb 0)" "receive_request so st2 = Inr (r', st3)" "warned_start r'"
          "submit_with_monitor so mb r' (?hs2\<lparr>hd_stream := st3\<rparr>) = (res, hs')"
      using run Inr p True new sub
      by (auto simp: handle_requests_def submit_without_monitor_def Let_def result_simps split: sum.splits if_splits)
    then show ?thesis
    proof cases
      case first
      then show ?thesis using one ok [OF Inr [unfolded p]] by simp
    next
      case (second r' st2 st3)
      have "submit mb 0 = Inr (Some RespNeedWarning)"
        using second(1,2) by (cases "submit mb 0") (auto simp: received_response_def split: option.splits)
      with submit_with_monitor_submits [OF second(5)] sub one ok [OF Inr [unfolded p]] ok [OF second(3)] True second(4)
      show ?thesis by (auto simp: one_exchange_def)
    qed
  qed
qed

lemma server_preamble_normal:
  assumes "server_preamble so st = Inr (PreambleNormal, st')"
  shows "map fst (take 8 (incoming st)) = normal_preamble PROTOCOL_VERSION"
proof -
  let ?b = "map fst (take 8 (incoming st))"
  have len: "8 \<le> length (incoming st)"
    using assms by (auto simp: server_preamble_def read_exact_def split: if_splits)
  with assms have "take 4 ?b = NORMAL_MAGIC" and v: "(of_nat (be_value (drop 4 ?b)) :: u32) = PROTOCOL_VERSION"
    by (auto simp: server_preamble_def read_exact_def Let_def result_simps split: if_splits)
  moreover have "length (drop 4 ?b) = 4" using len by simp
  then have "be_bytes 4 (unat (of_nat (be_value (drop 4 ?b)) :: u32)) = drop 4 ?b"
    by (metis be_u32_value)
  ultimately show ?thesis unfolding normal_preamble_def v [symmetric] by (metis append_take_drop_id)
qed

text \<open>
  C30: What a connection can ask for. A connection submits nothing to the executor unless its peer is the
  broker's own user and it announced the broker's protocol version. Then it submits at most one well-formed
  request, monitored, except that a start request without the warning is submitted unmonitored first; only
  if the executor answered that with "need warning" is a second request taken, and only a start request
  with the warning.
\<close>

theorem connection_submits:
  assumes "socket_documented so" and "hd_submitted hs = []"
    and "handle_connection os so mb expected_uid hs s = (c, hs', s')"
  shows "(hd_submitted hs' \<noteq> [] \<longrightarrow> os_peer_uid os (observed s) = Inr expected_uid \<and>
      map fst (take 8 (incoming (hd_stream hs))) = normal_preamble PROTOCOL_VERSION) \<and>
    (\<forall>(monitored, r)\<in>set (hd_submitted hs'). request_ok r) \<and>
    (hd_submitted hs' = [] \<or> (\<exists>r. hd_submitted hs' = [(\<not> unwarned_start r, r)]) \<or>
     (\<exists>r r'. hd_submitted hs' = [(False, r), (True, r')] \<and> unwarned_start r \<and> warned_start r' \<and>
        submit mb 0 = Inr (Some RespNeedWarning))) \<and>
    (c = StopRequested \<longrightarrow> os_peer_uid os (observed s) = Inr expected_uid \<and> hd_submitted hs' = [])"
proof -
  obtain v s1 where v: "verify_peer os expected_uid s = (v, s1)" by fastforce
  show ?thesis
  proof (cases v)
    case (Inl e)
    then show ?thesis using assms(2,3) v by (auto simp: handle_connection_def)
  next
    case (Inr u)
    have peer: "os_peer_uid os (observed s) = Inr expected_uid"
      using v Inr
      by (auto simp: verify_peer_def and_then_def query_def observe_def raw_os_def pure_act_def split: sum.splits if_splits)
    show ?thesis
    proof (cases "server_preamble so (hd_stream hs)")
      case (Inl e)
      then show ?thesis using assms(2,3) v \<open>v = Inr u\<close> by (auto simp: handle_connection_def)
    next
      case pre: (Inr q)
      obtain preamble st where q: "q = (preamble, st)" by (cases q)
      show ?thesis
      proof (cases preamble)
        case PreambleNormal
        obtain res where run: "handle_requests so mb (hs\<lparr>hd_stream := st\<rparr>) = (res, hs')" "c = Finished res"
          using assms(3) v Inr pre q PreambleNormal by (auto simp: handle_connection_def split: prod.splits)
        have "map fst (take 8 (incoming (hd_stream hs))) = normal_preamble PROTOCOL_VERSION"
          using pre unfolding q PreambleNormal by (rule server_preamble_normal)
        with handle_requests_submits [OF assms(1) run(1)] assms(2) peer run(2) show ?thesis
          by (simp add: one_exchange_def)
      qed (use assms(2,3) v Inr pre q peer in \<open>auto simp: handle_connection_def\<close>)
    qed
  qed
qed

text \<open>A connection that asks for the status of account \<open>a\<close>.\<close>

definition asking :: handler where
  "asking = \<lparr>hd_stream = quiet\<lparr>incoming := plain (normal_preamble PROTOCOL_VERSION) @
      frame_cells REQUEST_STATUS [1, 0, 0, 0, 1, 97] []\<rparr>, hd_submitted = []\<rparr>"

definition answering :: mailbox where
  "answering = \<lparr>mb_try_send = (\<lambda>n. Sent), mb_response = (\<lambda>n. Some RespOk), mb_monitor = (\<lambda>n. None)\<rparr>"

lemma asking_submits:
  "\<exists>c hs' s'. handle_connection calm wire answering 501 asking boot = (c, hs', s') \<and> hd_submitted hs' = [(True, ask)]"
proof -
  let ?st = "quiet\<lparr>outgoing := plain (normal_preamble PROTOCOL_VERSION)\<rparr>"
  have "server_preamble wire (hd_stream asking) = Inr (PreambleNormal,
      ?st\<lparr>incoming := frame_cells REQUEST_STATUS [1, 0, 0, 0, 1, 97] []\<rparr>)"
    by (subst server_preamble_answers [where version = PROTOCOL_VERSION]) (simp_all add: asking_def quiet_def wire_def)
  then show ?thesis
    by (auto simp: handle_connection_def verify_peer_def and_then_def query_def observe_def raw_os_def pure_act_def
        handle_requests_def ask_received asking_def ask_def unwarned_start_def submit_with_monitor_def answering_def
        note_submitted_def submit_def received_response_def Let_def split: sum.splits)
qed

theorem connection_submits_witness:
  "\<exists>c hs' s'. handle_connection calm wire answering 501 asking boot = (c, hs', s') \<and>
    hd_submitted hs' = [(True, ask)] \<and> request_ok ask"
proof -
  obtain c hs' s' where r: "handle_connection calm wire answering 501 asking boot = (c, hs', s')"
    "hd_submitted hs' = [(True, ask)]"
    using asking_submits by blast
  have "hd_submitted asking = []" by (simp add: asking_def)
  from connection_submits [OF wire_works(2) this r(1)] r show ?thesis by auto
qed

section \<open>Monitors\<close>

lemma read_exact_shrinks: "read_exact n st = Inr (bs, st') \<Longrightarrow> length (incoming st') = length (incoming st) - n"
  by (auto simp: read_exact_def split: if_splits)

lemma receive_frame_shrinks:
  assumes "socket_documented so" and "receive_frame so st = Inr (f, st')"
  shows "length (incoming st') < length (incoming st)"
proof -
  obtain k p ds where f: "f = (k, p, ds)" by (cases f)
  have "map fst (incoming st) = frame_header k p @ p @ map fst (incoming st')"
    using receive_frame_was_sent [OF assms(1) assms(2) [unfolded f]] by simp
  from arg_cong [OF this, of length] show ?thesis by simp
qed

lemma receive_event_shrinks:
  "socket_documented so \<Longrightarrow> receive_client_event so st = Inr (ev, st') \<Longrightarrow> length (incoming st') < length (incoming st)"
  by (auto simp: receive_client_event_def result_simps dest: receive_frame_shrinks split: prod.splits)

lemma receive_event_signal:
  assumes "receive_client_event so st = Inr (CancelEvent sig, st')"
  shows "is_caller_signal sig"
proof -
  obtain k p where "decode_client_event k p = Inr (CancelEvent sig)"
    using assms by (auto simp: receive_client_event_def result_simps split: prod.splits)
  then show ?thesis
    by (auto simp: decode_client_event_iff encode_client_event_def split: if_splits)
qed



end
