(* ===== verification/Shutdown.thy ===== *)
theory Shutdown
  imports Server
begin

text \<open>
  The threads of the running broker and how they stop: the main thread that accepts connections, the
  executor, one handler for each connection, the channel between them and the five shared flags of
  \<^verbatim>\<open>run_internal_result\<close> and \<^verbatim>\<open>handle_connection\<close> (\<^verbatim>\<open>src/broker.rs\<close>). A step is one action on the shared state by
  one thread. What a handler reads is in \<open>Server\<close>, what the executor does with a request in \<open>Broker\<close>.
\<close>

section \<open>State\<close>

text \<open>The boolean of a request is whether it is the unwarned start, which may be followed by a second request.\<close>

datatype handler_phase =
    Absent
  | Reading
  | Submitting bool
  | Awaiting bool
  | Answered bool
  | Refused bool
  | Dropped
  | Rereading
  | StoppingRequested
  | StoppingShutdown
  | StoppingSend
  | StoppingComplete
  | StoppingRemoved
  | StoppingResponse
  | StoppingAcknowledge

datatype main_phase =
    Checking
  | Polling
  | Closing
  | Unlinking
  | FlaggingRemoved
  | AwaitingComplete
  | LoadingStop
  | AwaitingAcknowledged
  | Joining
  | FailingShutdown
  | FailingSend
  | Returning
  | Exited bool

datatype executor_phase = Looping | Serving nat bool | LeavingLoop | Draining | Clearing | Completed | Gone

datatype queued = QueuedRequest nat bool | QueuedStop nat | QueuedMainStop

record broker =
  main :: main_phase
  executor :: executor_phase
  handlers :: "nat \<Rightarrow> handler_phase"
  accepted :: nat
  active :: nat
  queue :: "queued list"
  shutdown :: bool
  stop_requested :: bool
  complete :: bool
  socket_removed :: bool
  stop_acknowledged :: bool
  listening_socket :: bool
  stop_answered :: "nat list"

definition broker_start :: broker where
  "broker_start =
     \<lparr>main = Checking, executor = Looping, handlers = (\<lambda>_. Absent), accepted = 0, active = 0, queue = [],
      shutdown = False, stop_requested = False, complete = False, socket_removed = False,
      stop_acknowledged = False, listening_socket = True, stop_answered = []\<rparr>"

definition move_handler :: "nat \<Rightarrow> handler_phase \<Rightarrow> broker \<Rightarrow> broker" where
  "move_handler i p b = b\<lparr>handlers := (handlers b)(i := p)\<rparr>"

text \<open>The end of a handler: \<^verbatim>\<open>handler_connections.fetch_sub(1)\<close>.\<close>

definition end_handler :: "nat \<Rightarrow> broker \<Rightarrow> broker" where
  "end_handler i b = (move_handler i Absent b)\<lparr>active := active b - 1\<rparr>"

definition enqueue :: "queued \<Rightarrow> broker \<Rightarrow> broker" where
  "enqueue m b = b\<lparr>queue := queue b @ [m]\<rparr>"

text \<open>What a handler is told when the receiver, with everything queued, is dropped.\<close>

definition drop_queued :: "queued list \<Rightarrow> (nat \<Rightarrow> handler_phase) \<Rightarrow> nat \<Rightarrow> handler_phase" where
  "drop_queued ms hs i = (if \<exists>m\<in>set ms. \<exists>first. m = QueuedRequest i first then Dropped else hs i)"

text \<open>\<^verbatim>\<open>SyncSender::send\<close> does not block when there is room or no receiver.\<close>

definition can_send :: "broker \<Rightarrow> bool" where
  "can_send b \<longleftrightarrow> executor b = Gone \<or> length (queue b) < MAX_CONNECTIONS"

definition send_stop :: "queued \<Rightarrow> broker \<Rightarrow> broker" where
  "send_stop m b = (if executor b = Gone then b else enqueue m b)"

section \<open>Steps\<close>

text \<open>Steps that wait for a client: connecting, sending a request, taking a response.\<close>

inductive client_step :: "broker \<Rightarrow> broker \<Rightarrow> bool" where
  accept: "main b = Polling \<Longrightarrow> active b < MAX_CONNECTIONS \<Longrightarrow>
    client_step b ((move_handler (accepted b) Reading b)
      \<lparr>main := Checking, accepted := Suc (accepted b), active := Suc (active b)\<rparr>)"
| refuse: "main b = Polling \<Longrightarrow> MAX_CONNECTIONS \<le> active b \<Longrightarrow> client_step b (b\<lparr>main := Checking\<rparr>)"
| no_thread: "main b = Polling \<Longrightarrow> client_step b (b\<lparr>main := Exited False\<rparr>)"
| read_nothing: "handlers b i = Reading \<Longrightarrow> client_step b (end_handler i b)"
| read_stop: "handlers b i = Reading \<Longrightarrow> client_step b (move_handler i StoppingRequested b)"
| read_request: "handlers b i = Reading \<Longrightarrow> client_step b (move_handler i (Submitting first) b)"
| respond_last: "handlers b i \<in> {Answered first, Refused first} \<Longrightarrow> client_step b (end_handler i b)"
| respond_warning: "handlers b i = Answered True \<Longrightarrow> client_step b (move_handler i Rereading b)"
| reread_nothing: "handlers b i = Rereading \<Longrightarrow> client_step b (end_handler i b)"
| reread_request: "handlers b i = Rereading \<Longrightarrow> client_step b (move_handler i (Submitting False) b)"

text \<open>
  Steps of the broker's own threads. A handler ends without having submitted its request when the executor is gone, or
  when the thread that is to monitor the client cannot be started.
\<close>

inductive internal_step :: "broker \<Rightarrow> broker \<Rightarrow> bool" where
  main_check: "main b = Checking \<Longrightarrow> internal_step b (b\<lparr>main := (if shutdown b then Closing else Polling)\<rparr>)"
| main_idle: "main b = Polling \<Longrightarrow> internal_step b (b\<lparr>main := Checking\<rparr>)"
| main_accept_error: "main b = Polling \<Longrightarrow> internal_step b (b\<lparr>main := FailingShutdown\<rparr>)"
| main_close: "main b = Closing \<Longrightarrow> internal_step b (b\<lparr>main := Unlinking, listening_socket := False\<rparr>)"
| main_unlink: "main b = Unlinking \<Longrightarrow> internal_step b (b\<lparr>main := FlaggingRemoved\<rparr>)"
| main_flag: "main b = FlaggingRemoved \<Longrightarrow> internal_step b (b\<lparr>main := AwaitingComplete, socket_removed := True\<rparr>)"
| main_complete: "main b = AwaitingComplete \<Longrightarrow> complete b \<Longrightarrow> internal_step b (b\<lparr>main := LoadingStop\<rparr>)"
| main_load_stop: "main b = LoadingStop \<Longrightarrow>
    internal_step b (b\<lparr>main := (if stop_requested b then AwaitingAcknowledged else Joining)\<rparr>)"
| main_acknowledged: "main b = AwaitingAcknowledged \<Longrightarrow> stop_acknowledged b \<Longrightarrow> internal_step b (b\<lparr>main := Joining\<rparr>)"
| main_join: "main b = Joining \<Longrightarrow> executor b = Gone \<Longrightarrow> internal_step b (b\<lparr>main := Exited True\<rparr>)"
| main_fail_shutdown: "main b = FailingShutdown \<Longrightarrow> internal_step b (b\<lparr>main := FailingSend, shutdown := True\<rparr>)"
| main_fail_send: "main b = FailingSend \<Longrightarrow> can_send b \<Longrightarrow>
    internal_step b ((send_stop QueuedMainStop b)\<lparr>main := Returning\<rparr>)"
| main_return: "main b = Returning \<Longrightarrow> internal_step b (b\<lparr>main := Exited False\<rparr>)"
| submit_sent: "handlers b i = Submitting first \<Longrightarrow> executor b \<noteq> Gone \<Longrightarrow> length (queue b) < MAX_CONNECTIONS \<Longrightarrow>
    internal_step b (enqueue (QueuedRequest i first) (move_handler i (Awaiting first) b))"
| submit_full: "handlers b i = Submitting first \<Longrightarrow> executor b \<noteq> Gone \<Longrightarrow> MAX_CONNECTIONS \<le> length (queue b) \<Longrightarrow>
    internal_step b (move_handler i (Refused first) b)"
| submit_nothing: "handlers b i = Submitting first \<Longrightarrow> executor b = Gone \<or> \<not> first \<Longrightarrow>
    internal_step b (end_handler i b)"
| handler_dropped: "handlers b i = Dropped \<Longrightarrow> internal_step b (end_handler i b)"
| stop_flag: "handlers b i = StoppingRequested \<Longrightarrow>
    internal_step b ((move_handler i StoppingShutdown b)\<lparr>stop_requested := True\<rparr>)"
| stop_shutdown: "handlers b i = StoppingShutdown \<Longrightarrow>
    internal_step b ((move_handler i StoppingSend b)\<lparr>shutdown := True\<rparr>)"
| stop_send: "handlers b i = StoppingSend \<Longrightarrow> can_send b \<Longrightarrow>
    internal_step b (send_stop (QueuedStop i) (move_handler i StoppingComplete b))"
| stop_complete: "handlers b i = StoppingComplete \<Longrightarrow> complete b \<Longrightarrow>
    internal_step b (move_handler i StoppingRemoved b)"
| stop_removed: "handlers b i = StoppingRemoved \<Longrightarrow> socket_removed b \<Longrightarrow>
    internal_step b (move_handler i StoppingResponse b)"
| stop_respond: "handlers b i = StoppingResponse \<Longrightarrow>
    internal_step b ((move_handler i StoppingAcknowledge b)\<lparr>stop_answered := i # stop_answered b\<rparr>)"
| stop_acknowledge: "handlers b i = StoppingAcknowledge \<Longrightarrow>
    internal_step b ((end_handler i b)\<lparr>stop_acknowledged := True\<rparr>)"
| executor_request: "executor b = Looping \<Longrightarrow> queue b = QueuedRequest i first # ms \<Longrightarrow>
    internal_step b (b\<lparr>executor := Serving i first, queue := ms\<rparr>)"
| executor_stop: "executor b = Looping \<Longrightarrow> queue b = m # ms \<Longrightarrow> m = QueuedMainStop \<or> m = QueuedStop i \<Longrightarrow>
    internal_step b (b\<lparr>executor := LeavingLoop, queue := ms\<rparr>)"
| executor_shutdown: "executor b = Looping \<Longrightarrow> shutdown b \<Longrightarrow> internal_step b (b\<lparr>executor := LeavingLoop\<rparr>)"
| executor_reply: "executor b = Serving i first \<Longrightarrow>
    internal_step b ((move_handler i (Answered first) b)\<lparr>executor := Looping\<rparr>)"
| executor_no_reply: "executor b = Serving i first \<Longrightarrow> shutdown b \<Longrightarrow>
    internal_step b ((move_handler i Dropped b)\<lparr>executor := Looping\<rparr>)"
| executor_leave: "executor b = LeavingLoop \<Longrightarrow> internal_step b (b\<lparr>executor := Draining, shutdown := True\<rparr>)"
| executor_drain: "executor b = Draining \<Longrightarrow> queue b = QueuedRequest i first # ms \<Longrightarrow>
    internal_step b ((move_handler i (Answered first) b)\<lparr>queue := ms\<rparr>)"
| executor_drain_stop: "executor b = Draining \<Longrightarrow> queue b = m # ms \<Longrightarrow> m = QueuedMainStop \<or> m = QueuedStop i \<Longrightarrow>
    internal_step b (b\<lparr>queue := ms\<rparr>)"
| executor_drained: "executor b = Draining \<Longrightarrow> queue b = [] \<Longrightarrow> internal_step b (b\<lparr>executor := Clearing\<rparr>)"
| executor_complete: "executor b = Clearing \<Longrightarrow> internal_step b (b\<lparr>executor := Completed, complete := True\<rparr>)"
| executor_gone: "executor b = Completed \<Longrightarrow>
    internal_step b (b\<lparr>executor := Gone, queue := [], handlers := drop_queued (queue b) (handlers b)\<rparr>)"

text \<open>When the main thread has returned, the process and every thread of it are gone.\<close>

definition broker_step :: "broker \<Rightarrow> broker \<Rightarrow> bool" where
  "broker_step b b' \<longleftrightarrow> (\<forall>ok. main b \<noteq> Exited ok) \<and> (client_step b b' \<or> internal_step b b')"

inductive broker_reaches :: "broker \<Rightarrow> bool" where
  start: "broker_reaches broker_start"
| step: "broker_reaches b \<Longrightarrow> broker_step b b' \<Longrightarrow> broker_reaches b'"

end
