(* ===== verification/Handshake.thy ===== *)
theory Handshake
  imports Shutdown
begin

text \<open>
  What holds in every state the threads of the broker can reach: the channel never overflows, a stop is answered only
  when everything is over, and once the shutdown flag is set the process exits.
\<close>

declare split_paired_Ex [simp del]

text \<open>What the elementary changes do to each field.\<close>

lemma move_handler_simps [simp]:
  "main (move_handler i p b) = main b" "executor (move_handler i p b) = executor b"
  "handlers (move_handler i p b) = (handlers b)(i := p)" "accepted (move_handler i p b) = accepted b"
  "active (move_handler i p b) = active b" "queue (move_handler i p b) = queue b"
  "shutdown (move_handler i p b) = shutdown b" "stop_requested (move_handler i p b) = stop_requested b"
  "complete (move_handler i p b) = complete b" "socket_removed (move_handler i p b) = socket_removed b"
  "stop_acknowledged (move_handler i p b) = stop_acknowledged b"
  "listening_socket (move_handler i p b) = listening_socket b" "stop_answered (move_handler i p b) = stop_answered b"
  by (simp_all add: move_handler_def)

lemma end_handler_simps [simp]:
  "main (end_handler i b) = main b" "executor (end_handler i b) = executor b"
  "handlers (end_handler i b) = (handlers b)(i := Absent)" "accepted (end_handler i b) = accepted b"
  "active (end_handler i b) = active b - 1" "queue (end_handler i b) = queue b"
  "shutdown (end_handler i b) = shutdown b" "stop_requested (end_handler i b) = stop_requested b"
  "complete (end_handler i b) = complete b" "socket_removed (end_handler i b) = socket_removed b"
  "stop_acknowledged (end_handler i b) = stop_acknowledged b"
  "listening_socket (end_handler i b) = listening_socket b" "stop_answered (end_handler i b) = stop_answered b"
  by (simp_all add: end_handler_def)

lemma enqueue_simps [simp]:
  "main (enqueue m b) = main b" "executor (enqueue m b) = executor b" "handlers (enqueue m b) = handlers b"
  "accepted (enqueue m b) = accepted b" "active (enqueue m b) = active b" "queue (enqueue m b) = queue b @ [m]"
  "shutdown (enqueue m b) = shutdown b" "stop_requested (enqueue m b) = stop_requested b"
  "complete (enqueue m b) = complete b" "socket_removed (enqueue m b) = socket_removed b"
  "stop_acknowledged (enqueue m b) = stop_acknowledged b" "listening_socket (enqueue m b) = listening_socket b"
  "stop_answered (enqueue m b) = stop_answered b"
  by (simp_all add: enqueue_def)

lemma send_stop_simps [simp]:
  "main (send_stop m b) = main b" "executor (send_stop m b) = executor b" "handlers (send_stop m b) = handlers b"
  "accepted (send_stop m b) = accepted b" "active (send_stop m b) = active b"
  "queue (send_stop m b) = (if executor b = Gone then queue b else queue b @ [m])"
  "shutdown (send_stop m b) = shutdown b" "stop_requested (send_stop m b) = stop_requested b"
  "complete (send_stop m b) = complete b" "socket_removed (send_stop m b) = socket_removed b"
  "stop_acknowledged (send_stop m b) = stop_acknowledged b" "listening_socket (send_stop m b) = listening_socket b"
  "stop_answered (send_stop m b) = stop_answered b"
  by (simp_all add: send_stop_def)

lemmas step_simps = can_send_def drop_queued_def

lemma reachable_invariant [consumes 1, case_names start client internal]:
  assumes "broker_reaches b" and "P broker_start"
    and "\<And>b b'. broker_reaches b \<Longrightarrow> P b \<Longrightarrow> \<forall>ok. main b \<noteq> Exited ok \<Longrightarrow> client_step b b' \<Longrightarrow> P b'"
    and "\<And>b b'. broker_reaches b \<Longrightarrow> P b \<Longrightarrow> \<forall>ok. main b \<noteq> Exited ok \<Longrightarrow> internal_step b b' \<Longrightarrow> P b'"
  shows "P b"
  using assms(1)
proof (induction rule: broker_reaches.induct)
  case (step b b')
  with assms(3,4) show ?case unfolding broker_step_def by blast
qed (rule assms(2))

section \<open>The flags\<close>

text \<open>How far the main thread is in leaving its loop, and the executor in ending.\<close>

fun main_stage :: "main_phase \<Rightarrow> nat" where
  "main_stage Closing = 1"
| "main_stage Unlinking = 2"
| "main_stage FlaggingRemoved = 3"
| "main_stage AwaitingComplete = 4"
| "main_stage LoadingStop = 5"
| "main_stage AwaitingAcknowledged = 6"
| "main_stage Joining = 7"
| "main_stage (Exited ok) = (if ok then 8 else 0)"
| "main_stage _ = 0"

fun executor_stage :: "executor_phase \<Rightarrow> nat" where
  "executor_stage Draining = 1"
| "executor_stage Clearing = 2"
| "executor_stage Completed = 3"
| "executor_stage Gone = 4"
| "executor_stage _ = 0"

lemma executor_stage_4 [simp]: "executor_stage p = 4 \<longleftrightarrow> p = Gone"
  by (cases p) auto

text \<open>The shared flags, by the stages of the threads.\<close>

definition flags_ok :: "broker \<Rightarrow> bool" where
  "flags_ok b \<longleftrightarrow>
     (complete b \<longleftrightarrow> 3 \<le> executor_stage (executor b)) \<and>
     (socket_removed b \<longleftrightarrow> 4 \<le> main_stage (main b)) \<and>
     (listening_socket b \<longleftrightarrow> main_stage (main b) \<le> 1) \<and>
     (1 \<le> main_stage (main b) \<longrightarrow> shutdown b) \<and>
     (1 \<le> executor_stage (executor b) \<longrightarrow> shutdown b) \<and>
     (5 \<le> main_stage (main b) \<longrightarrow> complete b) \<and>
     (8 \<le> main_stage (main b) \<longrightarrow> executor b = Gone) \<and>
     (main_stage (main b) = 6 \<longrightarrow> stop_requested b) \<and>
     (executor b = Gone \<longrightarrow> queue b = [])"

lemma flags_start: "flags_ok broker_start"
  by (simp add: flags_ok_def broker_start_def)

lemma flags_client: "flags_ok b \<Longrightarrow> client_step b b' \<Longrightarrow> flags_ok b'"
  by (erule client_step.cases) (auto simp: flags_ok_def step_simps)

lemma flags_internal: "flags_ok b \<Longrightarrow> internal_step b b' \<Longrightarrow> flags_ok b'"
  by (erule internal_step.cases) (auto simp: flags_ok_def step_simps)

lemma flags: "broker_reaches b \<Longrightarrow> flags_ok b"
  by (induction rule: reachable_invariant) (auto intro: flags_start flags_client flags_internal)

section \<open>The stop handshake\<close>

fun stop_stage :: "handler_phase \<Rightarrow> nat" where
  "stop_stage StoppingRequested = 1"
| "stop_stage StoppingShutdown = 2"
| "stop_stage StoppingSend = 3"
| "stop_stage StoppingComplete = 4"
| "stop_stage StoppingRemoved = 5"
| "stop_stage StoppingResponse = 6"
| "stop_stage StoppingAcknowledge = 7"
| "stop_stage _ = 0"

definition phase_ok :: "broker \<Rightarrow> handler_phase \<Rightarrow> bool" where
  "phase_ok b p \<longleftrightarrow> (2 \<le> stop_stage p \<longrightarrow> stop_requested b) \<and> (3 \<le> stop_stage p \<longrightarrow> shutdown b) \<and>
     (5 \<le> stop_stage p \<longrightarrow> complete b) \<and> (6 \<le> stop_stage p \<longrightarrow> socket_removed b) \<and>
     (7 \<le> stop_stage p \<longrightarrow> stop_answered b \<noteq> [])"

definition stops_ok :: "broker \<Rightarrow> bool" where
  "stops_ok b \<longleftrightarrow> (\<forall>i. phase_ok b (handlers b i)) \<and>
     (stop_answered b \<noteq> [] \<longrightarrow> complete b \<and> socket_removed b) \<and>
     (stop_acknowledged b \<longrightarrow> stop_answered b \<noteq> [])"

text \<open>No step clears a flag.\<close>

lemma client_flags:
  assumes "client_step b b'"
  shows "stop_requested b' = stop_requested b" "shutdown b' = shutdown b" "complete b' = complete b"
    "socket_removed b' = socket_removed b" "stop_answered b' = stop_answered b" "stop_acknowledged b' = stop_acknowledged b"
  using assms by (auto elim!: client_step.cases simp: step_simps)

lemma internal_flags:
  assumes "internal_step b b'"
  shows "stop_requested b \<Longrightarrow> stop_requested b'" "shutdown b \<Longrightarrow> shutdown b'" "complete b \<Longrightarrow> complete b'"
    "socket_removed b \<Longrightarrow> socket_removed b'" "stop_answered b \<noteq> [] \<Longrightarrow> stop_answered b' \<noteq> []"
    "stop_acknowledged b \<Longrightarrow> stop_acknowledged b'"
  using assms by (auto elim!: internal_step.cases simp: step_simps)

lemma phase_ok_client: "phase_ok b p \<Longrightarrow> client_step b b' \<Longrightarrow> phase_ok b' p"
  unfolding phase_ok_def by (simp add: client_flags)

lemma phase_ok_internal: "phase_ok b p \<Longrightarrow> internal_step b b' \<Longrightarrow> phase_ok b' p"
  unfolding phase_ok_def using internal_flags by blast

text \<open>A step moves at most one handler along, and drops queued requests at the end.\<close>

lemma client_moves:
  assumes "client_step b b'"
  shows "handlers b' i = handlers b i \<or> stop_stage (handlers b' i) \<le> 1"
  using assms by cases (auto simp: step_simps)

lemma internal_moves:
  assumes "internal_step b b'" and "phase_ok b (handlers b i)"
  shows "handlers b' i = handlers b i \<or> phase_ok b' (handlers b' i)"
  using assms by cases (auto simp: step_simps phase_ok_def)

lemma stops_client:
  assumes "stops_ok b" and step: "client_step b b'"
  shows "stops_ok b'"
proof -
  have "phase_ok b' (handlers b' i)" for i
  proof -
    have "phase_ok b' (handlers b i)" using assms(1) phase_ok_client [OF _ step] by (simp add: stops_ok_def)
    moreover have "phase_ok b' p" if "stop_stage p \<le> 1" for p using that by (simp add: phase_ok_def)
    ultimately show ?thesis using client_moves [OF step, of i] by metis
  qed
  with assms(1) client_flags [OF step] show ?thesis by (simp add: stops_ok_def)
qed

lemma answer_internal:
  assumes "internal_step b b'"
  shows "stop_answered b' \<noteq> stop_answered b \<Longrightarrow> \<exists>i. handlers b i = StoppingResponse"
    and "stop_acknowledged b' \<Longrightarrow> \<not> stop_acknowledged b \<Longrightarrow> \<exists>i. handlers b i = StoppingAcknowledge"
  using assms by (auto elim!: internal_step.cases simp: step_simps)

lemma stops_internal:
  assumes "stops_ok b" and step: "internal_step b b'"
  shows "stops_ok b'"
proof -
  have all: "\<forall>i. phase_ok b (handlers b i)" using assms(1) by (simp add: stops_ok_def)
  have "phase_ok b' (handlers b' i)" for i
    using internal_moves [OF step, of i] phase_ok_internal [OF _ step] all by metis
  moreover have "complete b \<and> socket_removed b" if "stop_answered b' \<noteq> []"
  proof (cases "stop_answered b' = stop_answered b")
    case True
    with assms(1) that show ?thesis by (simp add: stops_ok_def)
  next
    case False
    with answer_internal(1) [OF step] obtain i where "handlers b i = StoppingResponse" by blast
    with all have "phase_ok b StoppingResponse" by metis
    then show ?thesis by (simp add: phase_ok_def)
  qed
  moreover have "stop_answered b' \<noteq> []" if "stop_acknowledged b'"
  proof (cases "stop_acknowledged b")
    case True
    with assms(1) internal_flags(5) [OF step] show ?thesis by (simp add: stops_ok_def)
  next
    case False
    with answer_internal(2) [OF step that] obtain i where "handlers b i = StoppingAcknowledge" by blast
    with all have "phase_ok b StoppingAcknowledge" by metis
    then show ?thesis using internal_flags(5) [OF step] by (simp add: phase_ok_def)
  qed
  ultimately show ?thesis using internal_flags(3,4) [OF step] by (simp add: stops_ok_def)
qed

lemma stops: "broker_reaches b \<Longrightarrow> stops_ok b"
proof (induction rule: reachable_invariant)
  case start
  show ?case by (simp add: stops_ok_def phase_ok_def broker_start_def)
qed (blast intro: stops_client stops_internal)+

section \<open>The channel\<close>

fun senders :: "queued list \<Rightarrow> nat list" where
  "senders [] = []"
| "senders (QueuedRequest i first # ms) = i # senders ms"
| "senders (QueuedStop i # ms) = i # senders ms"
| "senders (QueuedMainStop # ms) = senders ms"

lemma senders_append [simp]: "senders (xs @ ys) = senders xs @ senders ys"
  by (induction xs rule: senders.induct) auto

lemma set_senders: "i \<in> set (senders ms) \<longleftrightarrow> (\<exists>first. QueuedRequest i first \<in> set ms) \<or> QueuedStop i \<in> set ms"
  by (induction ms rule: senders.induct) auto

text \<open>
  Each handler has at most one message in the channel, and waits for what becomes of it; only a stop message can outlive
  its handler, and then no connection is accepted any more.
\<close>

definition channel_ok :: "broker \<Rightarrow> bool" where
  "channel_ok b \<longleftrightarrow> distinct (senders (queue b)) \<and>
     (\<forall>i first. QueuedRequest i first \<in> set (queue b) \<longrightarrow> handlers b i = Awaiting first) \<and>
     (\<forall>i. QueuedStop i \<in> set (queue b) \<longrightarrow> i < accepted b \<and>
        (4 \<le> stop_stage (handlers b i) \<or> handlers b i = Absent \<and> socket_removed b)) \<and>
     (\<forall>i first. executor b = Serving i first \<longrightarrow> handlers b i = Awaiting first \<and> i \<notin> set (senders (queue b))) \<and>
     (\<forall>i\<ge>accepted b. handlers b i = Absent)"

lemma channel_client:
  assumes "channel_ok b" and "client_step b b'"
  shows "channel_ok b'"
  using assms(2,1)
proof cases
  case accept
  with assms(1) show ?thesis by (auto simp: channel_ok_def less_Suc_eq)
qed (fastforce simp: channel_ok_def not_le [symmetric])+

lemma not_sending:
  assumes "channel_ok b" and "\<And>first. handlers b i \<noteq> Awaiting first" and "stop_stage (handlers b i) < 4"
    and "handlers b i \<noteq> Absent"
  shows "i \<notin> set (senders (queue b))" and "\<And>first. executor b \<noteq> Serving i first"
  using assms unfolding channel_ok_def set_senders by fastforce+

lemma present_accepted: "channel_ok b \<Longrightarrow> handlers b i \<noteq> Absent \<Longrightarrow> i < accepted b"
  unfolding channel_ok_def by (meson not_le)

lemma channel_internal:
  assumes ok: "channel_ok b" and stops: "stops_ok b" and step: "internal_step b b'"
  shows "channel_ok b'"
  using step
proof cases
  case (submit_sent i first)
  have "i \<notin> set (senders (queue b))" "executor b \<noteq> Serving i f" for f
    using not_sending [OF ok, of i] submit_sent by auto
  with present_accepted [OF ok, of i] ok submit_sent show ?thesis
    by (auto simp: channel_ok_def set_senders)
next
  case (stop_send i)
  have "i \<notin> set (senders (queue b))" "executor b \<noteq> Serving i f" for f
    using not_sending [OF ok, of i] stop_send by auto
  with present_accepted [OF ok, of i] ok stop_send show ?thesis
    by (auto simp: channel_ok_def set_senders)
next
  case (stop_acknowledge i)
  have "phase_ok b (handlers b i)" using stops by (simp add: stops_ok_def)
  then have "socket_removed b" using stop_acknowledge by (simp add: phase_ok_def)
  with present_accepted [OF ok, of i] ok stop_acknowledge show ?thesis
    by (auto simp: channel_ok_def)
next
  case (executor_request i first ms)
  with ok show ?thesis by (auto simp: channel_ok_def)
next
  case (executor_stop m ms i)
  with ok show ?thesis by (auto simp: channel_ok_def)
next
  case (executor_drain_stop m ms i)
  with ok show ?thesis by (auto simp: channel_ok_def)
next
  case (executor_reply i first)
  with ok present_accepted [OF ok, of i] show ?thesis by (auto simp: channel_ok_def set_senders)
next
  case (executor_no_reply i first)
  with ok present_accepted [OF ok, of i] show ?thesis by (auto simp: channel_ok_def set_senders)
next
  case (executor_drain i first ms)
  with ok present_accepted [OF ok, of i] show ?thesis by (auto simp: channel_ok_def set_senders)
next
  case executor_gone
  with ok show ?thesis by (auto simp: channel_ok_def step_simps)
qed (use ok present_accepted [OF ok] in \<open>fastforce simp: channel_ok_def\<close>)+

lemma channel: "broker_reaches b \<Longrightarrow> channel_ok b"
proof (induction rule: reachable_invariant)
  case start
  show ?case by (simp add: channel_ok_def broker_start_def)
qed (blast intro: channel_client channel_internal stops)+

section \<open>Room in the channel\<close>

definition live :: "(nat \<Rightarrow> handler_phase) \<Rightarrow> nat set" where
  "live hs = {i. hs i \<noteq> Absent}"

lemma live_simps [simp]:
  "live (hs(i := Absent)) = live hs - {i}" "p \<noteq> Absent \<Longrightarrow> live (hs(i := p)) = insert i (live hs)"
  by (auto simp: live_def)

definition main_stops :: "queued list \<Rightarrow> nat" where
  "main_stops ms = length (filter (\<lambda>m. m = QueuedMainStop) ms)"

lemma length_queue: "length ms = length (senders ms) + main_stops ms"
  by (induction ms rule: senders.induct) (auto simp: main_stops_def)

lemma main_stops_simps [simp]:
  "main_stops [] = 0" "main_stops (xs @ ys) = main_stops xs + main_stops ys"
  "main_stops (QueuedMainStop # ms) = Suc (main_stops ms)" "main_stops (QueuedStop i # ms) = main_stops ms"
  "main_stops (QueuedRequest i first # ms) = main_stops ms"
  by (simp_all add: main_stops_def)

text \<open>The main thread has failed: only then it sends a message of its own.\<close>

definition main_failed :: "main_phase \<Rightarrow> bool" where
  "main_failed p \<longleftrightarrow> p \<in> {Returning, Exited False}"

definition charged :: "broker \<Rightarrow> nat set" where
  "charged b = live (handlers b) \<union> set (senders (queue b))"

definition room_ok :: "broker \<Rightarrow> bool" where
  "room_ok b \<longleftrightarrow> finite (live (handlers b)) \<and> active b = card (live (handlers b)) \<and>
     card (charged b) \<le> MAX_CONNECTIONS \<and> main_stops (queue b) \<le> (if main_failed (main b) then 1 else 0) \<and>
     (\<forall>i first. handlers b i = Refused first \<longrightarrow> main_failed (main b))"

lemma finite_charged: "room_ok b \<Longrightarrow> finite (charged b)"
  by (simp add: room_ok_def charged_def)

lemma room_shrinks:
  assumes "room_ok b" and "charged b' \<subseteq> charged b"
  shows "card (charged b') \<le> MAX_CONNECTIONS"
  using card_mono [OF finite_charged [OF assms(1)] assms(2)] assms(1) by (simp add: room_ok_def)

lemma liveI: "handlers b i = p \<Longrightarrow> p \<noteq> Absent \<Longrightarrow> i \<in> live (handlers b)"
  by (simp add: live_def)

lemma senders_live:
  assumes "channel_ok b" and "\<not> socket_removed b"
  shows "set (senders (queue b)) \<subseteq> live (handlers b)"
proof
  fix i assume "i \<in> set (senders (queue b))"
  then have "handlers b i \<noteq> Absent"
    using assms unfolding channel_ok_def set_senders by fastforce
  then show "i \<in> live (handlers b)" by (simp add: live_def)
qed

text \<open>A handler ends, a handler moves on, or nothing that counts changes.\<close>

lemma room_end:
  assumes "room_ok b" and "handlers b i \<noteq> Absent" and "handlers b' = (handlers b)(i := Absent)" and "active b' = active b - 1"
    and "queue b' = queue b" and "main b' = main b"
  shows "room_ok b'"
proof -
  have "card (charged b') \<le> MAX_CONNECTIONS"
    using assms by (intro room_shrinks [OF assms(1)]) (auto simp: charged_def)
  with assms liveI [OF refl assms(2)] show ?thesis by (auto simp: room_ok_def card_Diff_singleton)
qed

lemma room_move:
  assumes "room_ok b" and "handlers b i \<noteq> Absent" and "handlers b' = (handlers b)(i := p)" and "p \<noteq> Absent"
    and "\<And>first. p = Refused first \<Longrightarrow> main_failed (main b)" and "active b' = active b" and "main b' = main b"
    and "set (senders (queue b')) \<subseteq> insert i (set (senders (queue b)))" and "main_stops (queue b') \<le> main_stops (queue b)"
  shows "room_ok b'"
proof -
  have i: "i \<in> live (handlers b)" using liveI [OF refl assms(2)] .
  have live: "live (handlers b') = live (handlers b)" using assms(3,4) i by (auto simp: live_def)
  have "card (charged b') \<le> MAX_CONNECTIONS"
    using assms(8) i live by (intro room_shrinks [OF assms(1)]) (auto simp: charged_def)
  moreover have "main_failed (main b')" if "handlers b' j = Refused first" for j first
    using that assms(1,3,5,7) by (cases "j = i") (auto simp: room_ok_def)
  ultimately show ?thesis using assms(1,6,7,9) live by (auto simp: room_ok_def)
qed

lemma room_same:
  assumes "room_ok b" and "handlers b' = handlers b" and "active b' = active b"
    and "set (senders (queue b')) \<subseteq> set (senders (queue b))" and "main_stops (queue b') \<le> main_stops (queue b)"
    and "main_failed (main b) \<Longrightarrow> main_failed (main b')"
  shows "room_ok b'"
proof -
  have "card (charged b') \<le> MAX_CONNECTIONS"
    using assms by (intro room_shrinks [OF assms(1)]) (auto simp: charged_def)
  with assms show ?thesis by (auto simp: room_ok_def split: if_splits)
qed

lemma room_client:
  assumes room: "room_ok b" and channel: "channel_ok b" and flags: "flags_ok b" and step: "client_step b b'"
  shows "room_ok b'"
  using step
proof cases
  case accept
  have "accepted b \<notin> live (handlers b)" using channel by (simp add: live_def channel_ok_def)
  moreover have "set (senders (queue b)) \<subseteq> live (handlers b)"
    using senders_live [OF channel] flags accept by (simp add: flags_ok_def)
  then have "charged b' = insert (accepted b) (live (handlers b))" using accept by (auto simp: charged_def)
  ultimately show ?thesis
    using room accept by (auto simp: room_ok_def main_failed_def)
next
  case (read_nothing i)
  then show ?thesis by (intro room_end [OF room, of i]) auto
next
  case (respond_last i first)
  then show ?thesis by (intro room_end [OF room, of i]) auto
next
  case (reread_nothing i)
  then show ?thesis by (intro room_end [OF room, of i]) auto
next
  case (read_stop i)
  then show ?thesis by (intro room_move [OF room, of i]) auto
next
  case (read_request i first)
  then show ?thesis by (intro room_move [OF room, of i]) auto
next
  case (respond_warning i)
  then show ?thesis by (intro room_move [OF room, of i]) auto
next
  case (reread_request i)
  then show ?thesis by (intro room_move [OF room, of i]) auto
qed (auto intro: room_same [OF room] simp: main_failed_def)

lemma room_for_one:
  assumes room: "room_ok b" and channel: "channel_ok b" and i: "handlers b i = Submitting first"
    and full: "MAX_CONNECTIONS \<le> length (queue b)"
  shows "main_failed (main b)"
proof -
  have "i \<notin> set (senders (queue b))" using not_sending [OF channel, of i] i by auto
  then have "insert i (set (senders (queue b))) \<subseteq> charged b" "i \<in> charged b"
    using liveI [OF i] by (auto simp: charged_def)
  then have "Suc (card (set (senders (queue b)))) \<le> card (charged b)"
    using card_mono [OF finite_charged [OF room]] \<open>i \<notin> set (senders (queue b))\<close>
    by (metis List.finite_set card_insert_disjoint)
  then have "length (senders (queue b)) < MAX_CONNECTIONS"
    using room channel distinct_card [of "senders (queue b)"] by (simp add: room_ok_def channel_ok_def)
  then have "0 < main_stops (queue b)" using full length_queue [of "queue b"] by linarith
  with room show ?thesis by (auto simp: room_ok_def split: if_splits)
qed

lemma room_internal:
  assumes room: "room_ok b" and channel: "channel_ok b" and flags: "flags_ok b" and step: "internal_step b b'"
  shows "room_ok b'"
  using step
proof cases
  case main_fail_send
  then show ?thesis using room by (auto simp: room_ok_def main_failed_def charged_def)
next
  case (submit_full i first)
  with room_for_one [OF room channel] show ?thesis by (intro room_move [OF room, of i]) auto
next
  case (submit_sent i first)
  then show ?thesis by (intro room_move [OF room, of i]) auto
next
  case (submit_nothing i first)
  then show ?thesis by (intro room_end [OF room, of i]) auto
next
  case (handler_dropped i)
  then show ?thesis by (intro room_end [OF room, of i]) auto
next
  case (stop_flag i)
  then show ?thesis by (intro room_move [OF room, of i]) auto
next
  case (stop_shutdown i)
  then show ?thesis by (intro room_move [OF room, of i]) auto
next
  case (stop_send i)
  then show ?thesis by (intro room_move [OF room, of i]) auto
next
  case (stop_complete i)
  then show ?thesis by (intro room_move [OF room, of i]) auto
next
  case (stop_removed i)
  then show ?thesis by (intro room_move [OF room, of i]) auto
next
  case (stop_respond i)
  then show ?thesis by (intro room_move [OF room, of i]) auto
next
  case (stop_acknowledge i)
  then show ?thesis by (intro room_end [OF room, of i]) auto
next
  case (executor_reply i first)
  with channel show ?thesis by (intro room_move [OF room, of i]) (auto simp: channel_ok_def)
next
  case (executor_no_reply i first)
  with channel show ?thesis by (intro room_move [OF room, of i]) (auto simp: channel_ok_def)
next
  case (executor_drain i first ms)
  with channel show ?thesis by (intro room_move [OF room, of i]) (auto simp: channel_ok_def)
next
  case executor_gone
  have "live (handlers b') = live (handlers b)"
    using executor_gone channel by (auto simp: live_def drop_queued_def channel_ok_def)
  moreover have "card (charged b') \<le> MAX_CONNECTIONS"
    using calculation executor_gone by (intro room_shrinks [OF room]) (auto simp: charged_def)
  ultimately show ?thesis using room executor_gone by (auto simp: room_ok_def drop_queued_def)
next
  case (executor_request i first ms)
  then show ?thesis by (intro room_same [OF room]) auto
next
  case (executor_stop m ms i)
  then show ?thesis by (intro room_same [OF room]) auto
next
  case (executor_drain_stop m ms i)
  then show ?thesis by (intro room_same [OF room]) auto
qed (auto intro: room_same [OF room] simp: main_failed_def split: if_splits)

lemma room: "broker_reaches b \<Longrightarrow> room_ok b"
proof (induction rule: reachable_invariant)
  case start
  show ?case by (simp add: room_ok_def broker_start_def live_def charged_def)
qed (blast intro: room_client room_internal channel flags)+

section \<open>Who acknowledges\<close>

text \<open>Somebody will acknowledge: a handler that announced a stop is still on its way to that.\<close>

definition stop_pending :: "broker \<Rightarrow> bool" where
  "stop_pending b \<longleftrightarrow> stop_requested b \<longrightarrow> stop_acknowledged b \<or> (\<exists>i. 2 \<le> stop_stage (handlers b i))"

lemma stop_pendingI:
  assumes "stop_pending b" and "stop_requested b' \<Longrightarrow> stop_requested b \<or> (\<exists>i. 2 \<le> stop_stage (handlers b' i))"
    and "stop_acknowledged b \<Longrightarrow> stop_acknowledged b'"
    and "\<And>i. 2 \<le> stop_stage (handlers b i) \<Longrightarrow> 2 \<le> stop_stage (handlers b' i) \<or> stop_acknowledged b'"
  shows "stop_pending b'"
  using assms unfolding stop_pending_def by blast

lemma client_keeps_stopping:
  assumes "client_step b b'" and "2 \<le> stop_stage (handlers b i)" and "handlers b (accepted b) = Absent"
  shows "2 \<le> stop_stage (handlers b' i)"
  using assms by cases (auto simp: step_simps)

lemma waiting_not_stopping:
  assumes "channel_ok b"
  shows "executor b = Serving i first \<Longrightarrow> stop_stage (handlers b i) = 0"
    and "QueuedRequest i first \<in> set (queue b) \<Longrightarrow> stop_stage (handlers b i) = 0"
  using assms by (simp_all add: channel_ok_def)

lemma internal_keeps_stopping:
  assumes "internal_step b b'" and "2 \<le> stop_stage (handlers b i)" and "channel_ok b"
  shows "2 \<le> stop_stage (handlers b' i) \<or> stop_acknowledged b'"
  using assms(1,2)
proof cases
  case (executor_drain j first ms)
  then show ?thesis using assms(2) waiting_not_stopping(2) [OF assms(3), of j first] by auto
qed (auto simp: step_simps dest: waiting_not_stopping [OF assms(3)])

lemma internal_announces:
  assumes "internal_step b b'" and "stop_requested b'" and "\<not> stop_requested b"
  shows "\<exists>i. 2 \<le> stop_stage (handlers b' i)"
  using assms by cases (auto intro: exI [where x = "i" for i])

lemma pending: "broker_reaches b \<Longrightarrow> stop_pending b"
proof (induction b rule: reachable_invariant)
  case start
  show ?case by (simp add: stop_pending_def broker_start_def)
next
  case (client b b')
  have "handlers b (accepted b) = Absent" using channel [OF client(1)] by (simp add: channel_ok_def)
  then show ?case
    using client_flags [OF client(3)] client_keeps_stopping [OF client(3)]
    by (intro stop_pendingI [OF client(4)]) auto
next
  case (internal b b')
  show ?case
    using internal_announces [OF internal(3)] internal_flags(6) [OF internal(3)]
      internal_keeps_stopping [OF internal(3) _ channel [OF internal(1)]]
    by (intro stop_pendingI [OF internal(4)]) auto
qed

section \<open>The end\<close>

text \<open>Once the flag is set, the executor can always go on until it is gone.\<close>

lemma executor_goes_on:
  assumes "shutdown b" and "executor b \<noteq> Gone"
  shows "\<exists>b'. internal_step b b'"
proof (cases "executor b")
  case Draining
  show ?thesis
  proof (cases "queue b")
    case (Cons m ms)
    with Draining show ?thesis
      by (cases m) (blast intro: internal_step.executor_drain internal_step.executor_drain_stop)+
  qed (blast intro: Draining internal_step.executor_drained)
qed (use assms in \<open>blast intro: internal_step.intros\<close>)+

lemma acknowledgement_goes_on:
  assumes "2 \<le> stop_stage (handlers b i)" and "complete b" and "socket_removed b" and "executor b = Gone"
  shows "\<exists>b'. internal_step b b'"
proof (cases "handlers b i")
  case StoppingSend
  then show ?thesis using internal_step.stop_send [of b i] assms(4) by (auto simp: can_send_def)
qed (use assms in \<open>auto intro: internal_step.intros\<close>)

lemma goes_on:
  assumes "broker_reaches b" and shut: "shutdown b" and "\<forall>ok. main b \<noteq> Exited ok"
  shows "\<exists>b'. internal_step b b'"
proof (cases "executor b = Gone")
  case False
  with shut show ?thesis by (rule executor_goes_on)
next
  case gone: True
  show ?thesis
  proof (cases "main b")
    case AwaitingAcknowledged
    then have "complete b" "socket_removed b" "stop_requested b"
      using flags [OF assms(1)] by (auto simp: flags_ok_def)
    moreover have "stop_acknowledged b \<or> (\<exists>i. 2 \<le> stop_stage (handlers b i))"
      using pending [OF assms(1)] \<open>stop_requested b\<close> by (simp add: stop_pending_def)
    ultimately show ?thesis
      using AwaitingAcknowledged gone acknowledgement_goes_on by (blast intro: internal_step.main_acknowledged)
  next
    case AwaitingComplete
    moreover have "complete b" using flags [OF assms(1)] gone by (simp add: flags_ok_def)
    ultimately show ?thesis by (blast intro: internal_step.main_complete)
  next
    case FailingSend
    moreover have "can_send b" using gone by (simp add: can_send_def)
    ultimately show ?thesis by (blast intro: internal_step.main_fail_send)
  qed (use gone assms(3) in \<open>blast intro: internal_step.intros\<close>)+
qed

section \<open>How many steps are left\<close>

text \<open>
  A step of any thread lowers this weight, except that an idle main thread without the flag goes round its loop. A
  request carried by the channel counts 2, and a handler counts what it can still do.
\<close>

fun handler_weight :: "handler_phase \<Rightarrow> nat" where
  "handler_weight Absent = 0"
| "handler_weight Reading = 12"
| "handler_weight (Submitting first) = (if first then 11 else 5)"
| "handler_weight (Awaiting first) = (if first then 8 else 2)"
| "handler_weight (Answered first) = (if first then 7 else 1)"
| "handler_weight (Refused first) = 1"
| "handler_weight Dropped = 1"
| "handler_weight Rereading = 6"
| "handler_weight StoppingRequested = 9"
| "handler_weight StoppingShutdown = 8"
| "handler_weight StoppingSend = 7"
| "handler_weight StoppingComplete = 4"
| "handler_weight StoppingRemoved = 3"
| "handler_weight StoppingResponse = 2"
| "handler_weight StoppingAcknowledge = 1"

fun main_weight :: "main_phase \<Rightarrow> nat" where
  "main_weight Polling = 21"
| "main_weight Checking = 8"
| "main_weight Closing = 7"
| "main_weight Unlinking = 6"
| "main_weight FlaggingRemoved = 5"
| "main_weight AwaitingComplete = 4"
| "main_weight LoadingStop = 3"
| "main_weight AwaitingAcknowledged = 2"
| "main_weight Joining = 1"
| "main_weight FailingShutdown = 5"
| "main_weight FailingSend = 4"
| "main_weight Returning = 1"
| "main_weight (Exited ok) = 0"

fun executor_weight :: "executor_phase \<Rightarrow> nat" where
  "executor_weight (Serving i first) = 6"
| "executor_weight Looping = 5"
| "executor_weight LeavingLoop = 4"
| "executor_weight Draining = 3"
| "executor_weight Clearing = 2"
| "executor_weight Completed = 1"
| "executor_weight Gone = 0"

definition handlers_weight :: "(nat \<Rightarrow> handler_phase) \<Rightarrow> nat \<Rightarrow> nat" where
  "handlers_weight hs n = (\<Sum>i<n. handler_weight (hs i))"

definition weight :: "broker \<Rightarrow> nat" where
  "weight b = main_weight (main b) + executor_weight (executor b) + 2 * length (queue b) +
     handlers_weight (handlers b) (accepted b)"

lemma handlers_weight_update:
  assumes "i < n"
  shows "handlers_weight (hs(i := p)) n + handler_weight (hs i) = handlers_weight hs n + handler_weight p"
proof -
  have split: "(\<Sum>j<n. f j) = f i + (\<Sum>j\<in>{..<n} - {i}. f j)" for f :: "nat \<Rightarrow> nat"
    using assms by (simp add: sum.remove)
  show ?thesis unfolding handlers_weight_def by (simp add: split)
qed

lemma handlers_weight_mono:
  assumes "\<And>i. handler_weight (hs' i) \<le> handler_weight (hs i)"
  shows "handlers_weight hs' n \<le> handlers_weight hs n"
  unfolding handlers_weight_def using assms by (rule sum_mono)

lemma weight_moves:
  assumes "channel_ok b" and "handlers b i \<noteq> Absent" and "handlers b' = (handlers b)(i := p)"
    and "accepted b' = accepted b"
    and "main_weight (main b') + executor_weight (executor b') + 2 * length (queue b') + handler_weight p
      < main_weight (main b) + executor_weight (executor b) + 2 * length (queue b) + handler_weight (handlers b i)"
  shows "weight b' < weight b"
  using handlers_weight_update [OF present_accepted [OF assms(1,2)], of "handlers b" p] assms(3-5)
  unfolding weight_def by simp

lemma weight_client:
  assumes channel: "channel_ok b" and step: "client_step b b'"
  shows "weight b' < weight b"
  using step
proof cases
  case accept
  have "handlers_weight ((handlers b)(accepted b := Reading)) (accepted b) = handlers_weight (handlers b) (accepted b)"
    by (simp add: handlers_weight_def)
  with accept show ?thesis by (simp add: weight_def handlers_weight_def)
next
  case (read_nothing i)
  then show ?thesis by (intro weight_moves [OF channel, of i]) auto
next
  case (respond_last i first)
  then show ?thesis by (intro weight_moves [OF channel, of i]) auto
next
  case (reread_nothing i)
  then show ?thesis by (intro weight_moves [OF channel, of i]) auto
next
  case (read_stop i)
  then show ?thesis by (intro weight_moves [OF channel, of i]) auto
next
  case (read_request i first)
  then show ?thesis by (intro weight_moves [OF channel, of i]) auto
next
  case (respond_warning i)
  then show ?thesis by (intro weight_moves [OF channel, of i]) auto
next
  case (reread_request i)
  then show ?thesis by (intro weight_moves [OF channel, of i]) auto
qed (simp_all add: weight_def)

lemma weight_internal:
  assumes channel: "channel_ok b" and step: "internal_step b b'" and "shutdown b"
  shows "weight b' < weight b"
  using step
proof cases
  case (submit_sent i first)
  then show ?thesis by (intro weight_moves [OF channel, of i]) auto
next
  case (submit_full i first)
  then show ?thesis by (intro weight_moves [OF channel, of i]) auto
next
  case (submit_nothing i first)
  then show ?thesis by (intro weight_moves [OF channel, of i]) auto
next
  case (handler_dropped i)
  then show ?thesis by (intro weight_moves [OF channel, of i]) auto
next
  case (stop_flag i)
  then show ?thesis by (intro weight_moves [OF channel, of i]) auto
next
  case (stop_shutdown i)
  then show ?thesis by (intro weight_moves [OF channel, of i]) auto
next
  case (stop_send i)
  then show ?thesis by (intro weight_moves [OF channel, of i]) auto
next
  case (stop_complete i)
  then show ?thesis by (intro weight_moves [OF channel, of i]) auto
next
  case (stop_removed i)
  then show ?thesis by (intro weight_moves [OF channel, of i]) auto
next
  case (stop_respond i)
  then show ?thesis by (intro weight_moves [OF channel, of i]) auto
next
  case (stop_acknowledge i)
  then show ?thesis by (intro weight_moves [OF channel, of i]) auto
next
  case (executor_reply i first)
  with channel show ?thesis by (intro weight_moves [OF channel, of i]) (auto simp: channel_ok_def)
next
  case (executor_no_reply i first)
  with channel show ?thesis by (intro weight_moves [OF channel, of i]) (auto simp: channel_ok_def)
next
  case (executor_drain i first ms)
  with channel show ?thesis by (intro weight_moves [OF channel, of i]) (auto simp: channel_ok_def)
next
  case executor_gone
  have "handler_weight (drop_queued (queue b) (handlers b) i) \<le> handler_weight (handlers b i)" for i
    using channel by (auto simp: drop_queued_def channel_ok_def)
  then have "handlers_weight (handlers b') (accepted b) \<le> handlers_weight (handlers b) (accepted b)"
    using executor_gone by (auto intro: handlers_weight_mono)
  with executor_gone show ?thesis by (simp add: weight_def)
qed (use \<open>shutdown b\<close> in \<open>auto simp: weight_def\<close>)

lemma weight_step: "broker_reaches b \<Longrightarrow> shutdown b \<Longrightarrow> broker_step b b' \<Longrightarrow> weight b' < weight b"
  unfolding broker_step_def by (blast intro: weight_client weight_internal channel)

lemma shutdown_step: "shutdown b \<Longrightarrow> broker_step b b' \<Longrightarrow> shutdown b'"
  unfolding broker_step_def using client_flags(2) internal_flags(2) by blast

text \<open>The weight of a reachable state is bounded by what 64 connections can hold.\<close>

lemma handler_weight_bound: "handler_weight p \<le> 12"
  by (cases p) auto

lemma weight_bound:
  assumes "broker_reaches b"
  shows "weight b \<le> 925"
proof -
  have room: "room_ok b" and channel: "channel_ok b" using room channel assms by blast+
  have live: "card (live (handlers b)) \<le> 64" "length (senders (queue b)) \<le> 64" "main_stops (queue b) \<le> 1"
  proof -
    have "card (live (handlers b)) \<le> card (charged b)" "card (set (senders (queue b))) \<le> card (charged b)"
      using finite_charged [OF room] by (auto intro!: card_mono simp: charged_def)
    with room channel show "card (live (handlers b)) \<le> 64" "length (senders (queue b)) \<le> 64"
      using distinct_card [of "senders (queue b)"] by (simp_all add: room_ok_def channel_ok_def MAX_CONNECTIONS_def)
    show "main_stops (queue b) \<le> 1" using room by (auto simp: room_ok_def split: if_splits)
  qed
  have "handlers_weight (handlers b) (accepted b) \<le> (\<Sum>i<accepted b. if i \<in> live (handlers b) then 12 else 0)"
    unfolding handlers_weight_def
    by (rule sum_mono) (use handler_weight_bound in \<open>auto simp: live_def split: if_splits\<close>)
  also have "\<dots> = 12 * card ({..<accepted b} \<inter> live (handlers b))"
    by (simp add: sum.If_cases)
  also have "\<dots> \<le> 12 * card (live (handlers b))"
    using room by (auto intro!: card_mono simp: room_ok_def)
  finally have "handlers_weight (handlers b) (accepted b) \<le> 768" using live(1) by linarith
  moreover have "main_weight (main b) \<le> 21" by (cases "main b") auto
  moreover have "executor_weight (executor b) \<le> 6" by (cases "executor b") auto
  moreover have "length (queue b) \<le> 65" using length_queue [of "queue b"] live by linarith
  ultimately show ?thesis unfolding weight_def by linarith
qed

section \<open>What holds\<close>

text \<open>
  C29: The channel between the connection handlers and the executor never overflows while the broker runs: in every
  reachable state in which a handler was refused because the channel is full, the main thread has already failed.
\<close>

lemma channel_has_room:
  assumes "broker_reaches b" and "handlers b i = Refused first"
  shows "main b \<in> {Returning, Exited False}"
  using room [OF assms(1)] assms(2) by (auto simp: room_ok_def main_failed_def)


lemma exits_from:
  assumes "broker_reaches b" and "shutdown b"
  shows "\<exists>b' ok. internal_step\<^sup>*\<^sup>* b b' \<and> main b' = Exited ok"
  using assms
proof (induction "weight b" arbitrary: b rule: less_induct)
  case less
  show ?case
  proof (cases "\<exists>ok. main b = Exited ok")
    case False
    then obtain b1 where step: "internal_step b b1" using goes_on [OF less.prems] by auto
    then have "broker_step b b1" using False by (simp add: broker_step_def)
    then have "broker_reaches b1" "shutdown b1" "weight b1 < weight b"
      using less.prems by (blast intro: broker_reaches.step shutdown_step weight_step)+
    with less.hyps step show ?thesis by (meson converse_rtranclp_into_rtranclp)
  qed blast
qed

lemma steps_left:
  assumes "(broker_step ^^ n) b b'" and "broker_reaches b" and "shutdown b"
  shows "broker_reaches b' \<and> shutdown b' \<and> weight b' + n \<le> weight b"
  using assms(1)
proof (induction n arbitrary: b')
  case (Suc n)
  then obtain c where c: "(broker_step ^^ n) b c" and step: "broker_step c b'" by auto
  from Suc.IH [OF c] have c: "broker_reaches c" "shutdown c" "weight c + n \<le> weight b" by simp_all
  then show ?case using weight_step [OF c(1,2) step] shutdown_step [OF c(2) step] broker_reaches.step [OF c(1) step] by simp
qed (use assms in simp)

text \<open>
  C27: Once the shutdown flag is set, whatever the clients do, the threads of the broker take at most 925 more steps on
  the shared state before the process exits, and they are never stuck: from every state on the way the broker's own
  steps alone reach the exit.
\<close>

lemma shutdown_exits:
  assumes "broker_reaches b" and "shutdown b" and "(broker_step ^^ n) b b'"
  shows "n \<le> 925 \<and> (\<exists>b'' ok. internal_step\<^sup>*\<^sup>* b' b'' \<and> main b'' = Exited ok)"
  using steps_left [OF assms(3,1,2)] weight_bound [OF assms(1)] exits_from by auto

section \<open>Two stops at once\<close>

text \<open>A state with two connections, by what the shutdown changes.\<close>

definition two ::
  "main_phase \<Rightarrow> executor_phase \<Rightarrow> handler_phase \<Rightarrow> handler_phase \<Rightarrow> nat \<Rightarrow> nat \<Rightarrow> queued list \<Rightarrow> bool \<Rightarrow> bool \<Rightarrow> bool
    \<Rightarrow> bool \<Rightarrow> bool \<Rightarrow> nat list \<Rightarrow> broker" where
  "two m e p q n a ms sr sd cp rm ack ans =
     \<lparr>main = m, executor = e, handlers = (\<lambda>_. Absent)(0 := p, 1 := q), accepted = n, active = a, queue = ms,
      shutdown = sd, stop_requested = sr, complete = cp, socket_removed = rm, stop_acknowledged = ack,
      listening_socket = main_stage m \<le> 1, stop_answered = ans\<rparr>"

lemma two_simps [simp]:
  "main (two m e p q n a ms sr sd cp rm ack ans) = m" "executor (two m e p q n a ms sr sd cp rm ack ans) = e"
  "handlers (two m e p q n a ms sr sd cp rm ack ans) = (\<lambda>_. Absent)(0 := p, 1 := q)"
  "queue (two m e p q n a ms sr sd cp rm ack ans) = ms" "shutdown (two m e p q n a ms sr sd cp rm ack ans) = sd"
  "complete (two m e p q n a ms sr sd cp rm ack ans) = cp"
  "socket_removed (two m e p q n a ms sr sd cp rm ack ans) = rm"
  "stop_acknowledged (two m e p q n a ms sr sd cp rm ack ans) = ack"
  "stop_requested (two m e p q n a ms sr sd cp rm ack ans) = sr"
  "active (two m e p q n a ms sr sd cp rm ack ans) = a" "accepted (two m e p q n a ms sr sd cp rm ack ans) = n"
  by (simp_all add: two_def)

lemmas two_eq = two_def move_handler_def end_handler_def enqueue_def send_stop_def can_send_def drop_queued_def
  MAX_CONNECTIONS_def fun_upd_twist fun_eq_iff numeral_2_eq_2

lemma drop_nothing [simp]: "drop_queued [] hs = hs"
  by (simp add: drop_queued_def fun_eq_iff)

lemma internal_reaches:
  "broker_reaches b \<Longrightarrow> internal_step b b' \<Longrightarrow> (\<And>ok. main b \<noteq> Exited ok) \<Longrightarrow> broker_reaches b'"
  by (blast intro: broker_reaches.step broker_step_def [THEN iffD2])

lemma client_reaches:
  "broker_reaches b \<Longrightarrow> client_step b b' \<Longrightarrow> (\<And>ok. main b \<noteq> Exited ok) \<Longrightarrow> broker_reaches b'"
  by (blast intro: broker_reaches.step broker_step_def [THEN iffD2])

lemma both_stops_sent: "broker_reaches
  (two Checking Looping StoppingComplete StoppingComplete 2 2 [QueuedStop 0, QueuedStop 1] True True False False False [])"
proof -
  have "broker_reaches (two Checking Looping Absent Absent 0 0 [] False False False False False [])"
    using broker_reaches.start by (simp add: two_def broker_start_def fun_upd_idem)
  from internal_reaches [OF this internal_step.main_check]
  have "broker_reaches (two Polling Looping Absent Absent 0 0 [] False False False False False [])" by (simp add: two_eq)
  from client_reaches [OF this client_step.accept]
  have "broker_reaches (two Checking Looping Reading Absent 1 1 [] False False False False False [])" by (simp add: two_eq)
  from internal_reaches [OF this internal_step.main_check]
  have "broker_reaches (two Polling Looping Reading Absent 1 1 [] False False False False False [])" by (simp add: two_eq)
  from client_reaches [OF this client_step.accept]
  have "broker_reaches (two Checking Looping Reading Reading 2 2 [] False False False False False [])" by (simp add: two_eq)
  from client_reaches [OF this client_step.read_stop [where i = 0]]
  have "broker_reaches (two Checking Looping StoppingRequested Reading 2 2 [] False False False False False [])" by (simp add: two_eq)
  from client_reaches [OF this client_step.read_stop [where i = 1]]
  have "broker_reaches (two Checking Looping StoppingRequested StoppingRequested 2 2 [] False False False False False [])" by (simp add: two_eq)
  from internal_reaches [OF this internal_step.stop_flag [where i = 0]]
  have "broker_reaches (two Checking Looping StoppingShutdown StoppingRequested 2 2 [] True False False False False [])" by (simp add: two_eq)
  from internal_reaches [OF this internal_step.stop_flag [where i = 1]]
  have "broker_reaches (two Checking Looping StoppingShutdown StoppingShutdown 2 2 [] True False False False False [])" by (simp add: two_eq)
  from internal_reaches [OF this internal_step.stop_shutdown [where i = 0]]
  have "broker_reaches (two Checking Looping StoppingSend StoppingShutdown 2 2 [] True True False False False [])" by (simp add: two_eq)
  from internal_reaches [OF this internal_step.stop_shutdown [where i = 1]]
  have "broker_reaches (two Checking Looping StoppingSend StoppingSend 2 2 [] True True False False False [])" by (simp add: two_eq)
  from internal_reaches [OF this internal_step.stop_send [where i = 0]]
  have "broker_reaches (two Checking Looping StoppingComplete StoppingSend 2 2 [QueuedStop 0] True True False False False [])" by (simp add: two_eq)
  from internal_reaches [OF this internal_step.stop_send [where i = 1]]
  have "broker_reaches (two Checking Looping StoppingComplete StoppingComplete 2 2 [QueuedStop 0, QueuedStop 1] True True False False False [])" by (simp add: two_eq)
  then show ?thesis .
qed

lemma executor_over_and_closed: "broker_reaches
  (two AwaitingComplete Gone StoppingComplete StoppingComplete 2 2 [] True True True True False [])"
proof -
  note both_stops_sent
  from internal_reaches [OF this internal_step.executor_stop]
  have "broker_reaches (two Checking LeavingLoop StoppingComplete StoppingComplete 2 2 [QueuedStop 1] True True False False False [])" by (simp add: two_eq)
  from internal_reaches [OF this internal_step.executor_leave]
  have "broker_reaches (two Checking Draining StoppingComplete StoppingComplete 2 2 [QueuedStop 1] True True False False False [])" by (simp add: two_eq)
  from internal_reaches [OF this internal_step.executor_drain_stop]
  have "broker_reaches (two Checking Draining StoppingComplete StoppingComplete 2 2 [] True True False False False [])" by (simp add: two_eq)
  from internal_reaches [OF this internal_step.executor_drained]
  have "broker_reaches (two Checking Clearing StoppingComplete StoppingComplete 2 2 [] True True False False False [])" by (simp add: two_eq)
  from internal_reaches [OF this internal_step.executor_complete]
  have "broker_reaches (two Checking Completed StoppingComplete StoppingComplete 2 2 [] True True True False False [])" by (simp add: two_eq)
  from internal_reaches [OF this internal_step.executor_gone]
  have "broker_reaches (two Checking Gone StoppingComplete StoppingComplete 2 2 [] True True True False False [])" by (simp add: two_eq)
  from internal_reaches [OF this internal_step.main_check]
  have "broker_reaches (two Closing Gone StoppingComplete StoppingComplete 2 2 [] True True True False False [])" by (simp add: two_eq)
  from internal_reaches [OF this internal_step.main_close]
  have "broker_reaches (two Unlinking Gone StoppingComplete StoppingComplete 2 2 [] True True True False False [])" by (simp add: two_eq)
  from internal_reaches [OF this internal_step.main_unlink]
  have "broker_reaches (two FlaggingRemoved Gone StoppingComplete StoppingComplete 2 2 [] True True True False False [])" by (simp add: two_eq)
  from internal_reaches [OF this internal_step.main_flag]
  have "broker_reaches (two AwaitingComplete Gone StoppingComplete StoppingComplete 2 2 [] True True True True False [])" by (simp add: two_eq)
  then show ?thesis .
qed

lemma first_stop_answered: "broker_reaches
  (two (Exited True) Gone Absent StoppingResponse 2 1 [] True True True True True [0])"
proof -
  note executor_over_and_closed
  from internal_reaches [OF this internal_step.main_complete]
  have "broker_reaches (two LoadingStop Gone StoppingComplete StoppingComplete 2 2 [] True True True True False [])" by (simp add: two_eq)
  from internal_reaches [OF this internal_step.main_load_stop]
  have "broker_reaches (two AwaitingAcknowledged Gone StoppingComplete StoppingComplete 2 2 [] True True True True False [])" by (simp add: two_eq)
  from internal_reaches [OF this internal_step.stop_complete [where i = 0]]
  have "broker_reaches (two AwaitingAcknowledged Gone StoppingRemoved StoppingComplete 2 2 [] True True True True False [])" by (simp add: two_eq)
  from internal_reaches [OF this internal_step.stop_removed [where i = 0]]
  have "broker_reaches (two AwaitingAcknowledged Gone StoppingResponse StoppingComplete 2 2 [] True True True True False [])" by (simp add: two_eq)
  from internal_reaches [OF this internal_step.stop_respond [where i = 0]]
  have "broker_reaches (two AwaitingAcknowledged Gone StoppingAcknowledge StoppingComplete 2 2 [] True True True True False [0])" by (simp add: two_eq)
  from internal_reaches [OF this internal_step.stop_acknowledge [where i = 0]]
  have "broker_reaches (two AwaitingAcknowledged Gone Absent StoppingComplete 2 1 [] True True True True True [0])" by (simp add: two_eq)
  from internal_reaches [OF this internal_step.stop_complete [where i = 1]]
  have "broker_reaches (two AwaitingAcknowledged Gone Absent StoppingRemoved 2 1 [] True True True True True [0])" by (simp add: two_eq)
  from internal_reaches [OF this internal_step.stop_removed [where i = 1]]
  have "broker_reaches (two AwaitingAcknowledged Gone Absent StoppingResponse 2 1 [] True True True True True [0])" by (simp add: two_eq)
  from internal_reaches [OF this internal_step.main_acknowledged]
  have "broker_reaches (two Joining Gone Absent StoppingResponse 2 1 [] True True True True True [0])" by (simp add: two_eq)
  from internal_reaches [OF this internal_step.main_join]
  have "broker_reaches (two (Exited True) Gone Absent StoppingResponse 2 1 [] True True True True True [0])" by (simp add: two_eq)
  then show ?thesis .
qed


lemma shutdown_exits_witness:
  "\<exists>b ok. internal_step\<^sup>*\<^sup>* (two Checking Looping StoppingComplete StoppingComplete 2 2 [QueuedStop 0, QueuedStop 1]
     True True False False False []) b \<and> main b = Exited ok"
  using shutdown_exits [OF both_stops_sent, of 0] by simp

section \<open>A full channel\<close>

text \<open>Handlers \<open>0\<close> to \<open>n - 1\<close> wait for what they have queued, in this order; the executor has not run yet.\<close>

definition waiting :: "nat \<Rightarrow> handler_phase \<Rightarrow> nat \<Rightarrow> handler_phase" where
  "waiting n p i = (if i < n then Awaiting False else if i = n then p else Absent)"

lemma waiting_simps [simp]:
  "(waiting n p)(n := q) = waiting n q" "waiting n p n = p" "waiting n (Awaiting False) = waiting (Suc n) Absent"
  by (auto simp: waiting_def fun_eq_iff)

definition all_waiting :: "main_phase \<Rightarrow> nat \<Rightarrow> nat \<Rightarrow> handler_phase \<Rightarrow> queued list \<Rightarrow> bool \<Rightarrow> broker" where
  "all_waiting m n n' p extra sd =
     \<lparr>main = m, executor = Looping, handlers = waiting n p, accepted = n', active = n',
      queue = map (\<lambda>i. QueuedRequest i False) [0..<n] @ extra, shutdown = sd, stop_requested = False, complete = False,
      socket_removed = False, stop_acknowledged = False, listening_socket = True, stop_answered = []\<rparr>"

lemmas all_waiting_eq = all_waiting_def move_handler_def enqueue_def send_stop_def can_send_def MAX_CONNECTIONS_def

lemma one_accepted:
  assumes "broker_reaches (all_waiting Checking n n Absent [] False)" and "n < 64"
  shows "broker_reaches (all_waiting Checking n (Suc n) (Submitting False) [] False)"
proof -
  from internal_reaches [OF assms(1) internal_step.main_check]
  have "broker_reaches (all_waiting Polling n n Absent [] False)" by (simp add: all_waiting_eq)
  from client_reaches [OF this client_step.accept] assms(2)
  have "broker_reaches (all_waiting Checking n (Suc n) Reading [] False)" by (simp add: all_waiting_eq)
  from client_reaches [OF this client_step.read_request [where i = n and first = False]]
  show ?thesis by (simp add: all_waiting_eq)
qed

lemma many_waiting: "n \<le> 64 \<Longrightarrow> broker_reaches (all_waiting Checking n n Absent [] False)"
proof (induction n)
  case 0
  have "waiting 0 Absent = (\<lambda>_. Absent)" by (simp add: waiting_def fun_eq_iff)
  then show ?case using broker_reaches.start by (simp add: all_waiting_eq broker_start_def)
next
  case (Suc n)
  then have "broker_reaches (all_waiting Checking n (Suc n) (Submitting False) [] False)" by (intro one_accepted) simp_all
  from internal_reaches [OF this internal_step.submit_sent [where i = n and first = False]] Suc.prems
  show ?case by (simp add: all_waiting_eq)
qed

lemma one_refused: "broker_reaches (all_waiting Returning 63 64 (Refused False) [QueuedMainStop] True)"
proof -
  have "broker_reaches (all_waiting Checking 63 64 (Submitting False) [] False)"
    using one_accepted [OF many_waiting, of 63] by simp
  from internal_reaches [OF this internal_step.main_check]
  have "broker_reaches (all_waiting Polling 63 64 (Submitting False) [] False)" by (simp add: all_waiting_eq)
  from internal_reaches [OF this internal_step.main_accept_error]
  have "broker_reaches (all_waiting FailingShutdown 63 64 (Submitting False) [] False)" by (simp add: all_waiting_eq)
  from internal_reaches [OF this internal_step.main_fail_shutdown]
  have "broker_reaches (all_waiting FailingSend 63 64 (Submitting False) [] True)" by (simp add: all_waiting_eq)
  from internal_reaches [OF this internal_step.main_fail_send]
  have "broker_reaches (all_waiting Returning 63 64 (Submitting False) [QueuedMainStop] True)" by (simp add: all_waiting_eq)
  from internal_reaches [OF this internal_step.submit_full [where i = 63 and first = False]]
  show ?thesis by (simp add: all_waiting_eq)
qed

lemma channel_has_room_witness:
  "let b = all_waiting Returning 63 64 (Refused False) [QueuedMainStop] True in
     handlers b 63 = Refused False \<and> main b \<in> {Returning, Exited False}"
  using channel_has_room [OF one_refused, of 63 False] by (simp add: all_waiting_def)

text \<open>
  C33: When two clients ask the broker to stop at the same time, the process may exit after acknowledging the first, with
  the second handler still about to write its response: the main thread waits for one acknowledgement, not for every
  handler that announced a stop.
\<close>

lemma second_stop_unanswered:
  "\<exists>b. broker_reaches b \<and> main b = Exited True \<and> handlers b 1 = StoppingResponse \<and> 1 \<notin> set (stop_answered b) \<and>
     (\<forall>b'. \<not> broker_step b b')"
  using first_stop_answered by (intro exI conjI) (auto simp: broker_step_def two_def)

end
