(* ===== verification/Binary64.thy ===== *)
theory Binary64
  imports Prelude
begin

text \<open>
  The non-negative part of IEEE 754 binary64, as far as \<^verbatim>\<open>src/cli.rs\<close> computes with \<^verbatim>\<open>f64\<close>: conversion of an unsigned
  integer, multiplication, division and the truncating cast back. A finite value is a mantissa below
  \<open>2 ^ 53\<close> times a power of two; every operation is the exact result rounded to nearest, ties to even,
  with gradual underflow and overflow to infinity.
\<close>

datatype f64 = F64 nat int | Infinity | NaN

text \<open>The number of binary digits.\<close>

fun bits :: "nat \<Rightarrow> nat" where
  "bits n = (if n = 0 then 0 else Suc (bits (n div 2)))"

declare bits.simps [simp del]

text \<open>\<open>n / d\<close> rounded to the nearest integer, ties to the even one.\<close>

definition round_even :: "nat \<Rightarrow> nat \<Rightarrow> nat" where
  "round_even n d =
     (let q = n div d; r = n mod d in
      if 2 * r < d \<or> (2 * r = d \<and> even q) then q else Suc q)"

text \<open>The numerator and the denominator of \<open>n / d * 2 ^ s\<close>.\<close>

definition shift_num :: "nat \<Rightarrow> int \<Rightarrow> nat" where
  "shift_num n s = n * 2 ^ nat s"

definition shift_den :: "nat \<Rightarrow> int \<Rightarrow> nat" where
  "shift_den d s = d * 2 ^ nat (- s)"

text \<open>
  The scale that brings \<open>n / d\<close> between \<open>2 ^ 52\<close> and \<open>2 ^ 53\<close>, or at most the one of subnormal numbers.
\<close>

definition scale_of :: "nat \<Rightarrow> nat \<Rightarrow> int" where
  "scale_of n d =
     (let s = 53 - (int (bits n) - int (bits d));
          t = (if 2 ^ 53 * shift_den d s \<le> shift_num n s then s - 1 else s)
      in min t 1074)"

definition round_f64 :: "nat \<Rightarrow> nat \<Rightarrow> f64" where
  "round_f64 n d =
     (if n = 0 then F64 0 0
      else
        (let s = scale_of n d;
             m = round_even (shift_num n s) (shift_den d s)
         in if 2 ^ 1024 * 2 ^ nat s \<le> m * 2 ^ nat (- s) then Infinity else F64 m (- s)))"

definition f64_of_nat :: "nat \<Rightarrow> f64" where
  "f64_of_nat n = round_f64 n 1"

fun f64_mul :: "f64 \<Rightarrow> f64 \<Rightarrow> f64" where
  "f64_mul (F64 m e) (F64 n f) = round_f64 (shift_num (m * n) (e + f)) (shift_den 1 (e + f))"
| "f64_mul NaN y = NaN"
| "f64_mul x NaN = NaN"
| "f64_mul Infinity (F64 n f) = (if n = 0 then NaN else Infinity)"
| "f64_mul (F64 m e) Infinity = (if m = 0 then NaN else Infinity)"
| "f64_mul Infinity Infinity = Infinity"

fun f64_div :: "f64 \<Rightarrow> f64 \<Rightarrow> f64" where
  "f64_div (F64 m e) (F64 n f) =
     (if n = 0 then (if m = 0 then NaN else Infinity)
      else round_f64 (shift_num m (e - f)) (shift_den n (e - f)))"
| "f64_div NaN y = NaN"
| "f64_div x NaN = NaN"
| "f64_div Infinity (F64 n f) = Infinity"
| "f64_div (F64 m e) Infinity = F64 0 0"
| "f64_div Infinity Infinity = NaN"

text \<open>\<^verbatim>\<open>x.trunc() as u128\<close>: saturating, and 0 for a value that is not a number.\<close>

fun f64_to_u128 :: "f64 \<Rightarrow> nat" where
  "f64_to_u128 (F64 m e) = min (shift_num m e div shift_den 1 e) (2 ^ 128 - 1)"
| "f64_to_u128 Infinity = 2 ^ 128 - 1"
| "f64_to_u128 NaN = 0"

end
