(* ===== verification/Duration.thy ===== *)
theory Duration
  imports Clock Utf8 Binary64
begin

text \<open>
  The duration syntax of \<^verbatim>\<open>--timeout\<close> (\<^verbatim>\<open>parse_duration\<close> in \<^verbatim>\<open>src/cli.rs\<close>). A position in the string is the list of
  the bytes from there on.
\<close>

section \<open>The parser\<close>

definition is_ascii_digit :: "byte \<Rightarrow> bool" where
  "is_ascii_digit b \<longleftrightarrow> 48 \<le> b \<and> b \<le> 57"

definition digit_value :: "byte \<Rightarrow> nat" where
  "digit_value b = unat (b - 48)"

definition checked_add_u128 :: "nat \<Rightarrow> nat \<Rightarrow> nat option" where
  "checked_add_u128 a b = (if a + b < 2 ^ 128 then Some (a + b) else None)"

definition checked_mul_u128 :: "nat \<Rightarrow> nat \<Rightarrow> nat option" where
  "checked_mul_u128 a b = (if a * b < 2 ^ 128 then Some (a * b) else None)"

fun accumulate_integer :: "nat \<Rightarrow> bytes \<Rightarrow> nat option" where
  "accumulate_integer v [] = Some v"
| "accumulate_integer v (d # ds) =
     Option.bind (checked_mul_u128 v 10) (\<lambda>w.
     Option.bind (checked_add_u128 w (digit_value d)) (\<lambda>w'. accumulate_integer w' ds))"

definition parse_ascii_integer :: "bytes \<Rightarrow> nat option" where
  "parse_ascii_integer digits = accumulate_integer 0 digits"

text \<open>One digit of a fraction: the value so far, its scale, and whether a digit no longer fitted.\<close>

definition fraction_step :: "nat \<times> f64 \<times> bool \<Rightarrow> byte \<Rightarrow> nat \<times> f64 \<times> bool" where
  "fraction_step st d =
     (case st of (v, scale, overflow) \<Rightarrow>
        if overflow then st
        else if v > (2 ^ 63 - 1) div 10 then (v, scale, True)
        else
          (let n = v * 10 + digit_value d in
           if n > 2 ^ 63 then (v, scale, True) else (n, f64_mul scale (f64_of_nat 10), overflow)))"

definition parse_ascii_fraction :: "bytes \<Rightarrow> nat \<times> f64" where
  "parse_ascii_fraction digits =
     (case foldl fraction_step (0, f64_of_nat 1, False) digits of (v, scale, _) \<Rightarrow> (v, scale))"

definition duration_units :: "(bytes \<times> nat) list" where
  "duration_units =
     [(ascii ''ns'', 1), (ascii ''us'', 1000), ([194, 181, 115], 1000), ([206, 188, 115], 1000),
      (ascii ''ms'', 1000000), (ascii ''s'', 1000000000), (ascii ''m'', 60000000000), (ascii ''h'', 3600000000000)]"

definition fractional_nanos :: "bytes \<Rightarrow> nat \<Rightarrow> nat" where
  "fractional_nanos digits unit_nanos =
     (case parse_ascii_fraction digits of (fraction, scale) \<Rightarrow>
        f64_to_u128 (f64_mul (f64_of_nat fraction) (f64_div (f64_of_nat unit_nanos) scale)))"

abbreviation dot :: byte where "dot \<equiv> 46"

text \<open>The digits after a point, if there is a point, and what follows.\<close>

definition split_fraction :: "bytes \<Rightarrow> bytes \<times> bytes" where
  "split_fraction bs =
     (case bs of
        [] \<Rightarrow> ([], [])
      | b # r \<Rightarrow> if b = dot then (takeWhile is_ascii_digit r, dropWhile is_ascii_digit r) else ([], bs))"

text \<open>One round of the loop: the new total and the bytes after the segment.\<close>

definition parse_segment :: "bytes \<Rightarrow> nat \<Rightarrow> (nat \<times> bytes) option" where
  "parse_segment bs acc =
     (let integer_digits = takeWhile is_ascii_digit bs;
          (fraction_digits, units) = split_fraction (dropWhile is_ascii_digit bs)
      in
      if integer_digits = [] \<and> fraction_digits = [] then None
      else
        Option.bind (find (\<lambda>(u, _). starts_with units u) duration_units) (\<lambda>(unit_text, unit_nanos).
        Option.bind (parse_ascii_integer integer_digits) (\<lambda>integer.
        Option.bind (checked_mul_u128 integer unit_nanos) (\<lambda>nanos.
        Option.bind (checked_add_u128 acc nanos) (\<lambda>acc1.
        Option.bind
          (if fraction_digits = [] then Some acc1
           else checked_add_u128 acc1 (fractional_nanos fraction_digits unit_nanos)) (\<lambda>acc2.
          Some (acc2, drop (length unit_text) units)))))))"

lemma split_fraction_shorter: "length (snd (split_fraction bs)) \<le> length bs"
  using length_dropWhile_le [of is_ascii_digit "tl bs"]
  by (cases bs) (auto simp: split_fraction_def)

lemma find_found: "find P xs = Some x \<Longrightarrow> x \<in> set xs \<and> P x"
  by (induction xs) (auto split: if_splits)

lemma unit_nonempty: "(u, n) \<in> set duration_units \<Longrightarrow> u \<noteq> []"
  by (auto simp: duration_units_def ascii_def)

lemma parse_segment_shorter:
  assumes "parse_segment bs acc = Some (acc', rest)"
  shows "length rest < length bs"
proof -
  obtain fd units where split: "split_fraction (dropWhile is_ascii_digit bs) = (fd, units)" by fastforce
  with assms obtain u n where "find (\<lambda>(u, _). starts_with units u) duration_units = Some (u, n)"
    and rest: "rest = drop (length u) units"
    by (auto simp: parse_segment_def Let_def bind_eq_Some_conv split: if_splits)
  then have "u \<noteq> []" "starts_with units u" using find_found unit_nonempty by fastforce+
  then have "length rest < length units" unfolding rest by (cases units; cases u) auto
  also have "\<dots> \<le> length bs"
    using split_fraction_shorter [of "dropWhile is_ascii_digit bs"] length_dropWhile_le [of is_ascii_digit bs]
    unfolding split by simp
  finally show ?thesis .
qed

function parse_segments :: "bytes \<Rightarrow> nat \<Rightarrow> nat \<Rightarrow> (nat \<times> nat) option" where
  "parse_segments bs acc segments =
     (if bs = [] then Some (acc, segments)
      else
        (case parse_segment bs acc of
           None \<Rightarrow> None
         | Some (acc', rest) \<Rightarrow> parse_segments rest acc' (Suc segments)))"
  by pat_completeness auto
termination
  by (relation "measure (\<lambda>(bs, _, _). length bs)") (auto dest: parse_segment_shorter)

declare parse_segments.simps [simp del]

definition MIN_DURATION :: nat where "MIN_DURATION = 1000000000"
definition MAX_DURATION :: nat where "MAX_DURATION = 600000000000"

definition parse_duration :: "bytes \<Rightarrow> duration option" where
  "parse_duration value =
     (let (negative, index) =
        (case value of
           [] \<Rightarrow> (False, 0)
         | b # _ \<Rightarrow> if b = 45 then (True, 1) else if b = 43 then (False, 1) else (False, 0))
      in
      if negative \<or> index = length value then None
      else
        Option.bind (parse_segments (drop index value) 0 0) (\<lambda>(acc, segments).
          if segments = 0 \<or> \<not> (MIN_DURATION \<le> acc \<and> acc \<le> MAX_DURATION) then None
          else if acc < 2 ^ 64 then Some acc else None))"

section \<open>The grammar\<close>

text \<open>
  What a duration is, with unbounded numbers: segments of digits, perhaps a point and more digits, and a unit. Only the
  contribution of the digits after the point is taken from the code.
\<close>

record segment =
  integer_part :: bytes
  fraction_part :: "bytes option"
  unit_part :: "bytes \<times> nat"

definition digits_ok :: "bytes \<Rightarrow> bool" where
  "digits_ok ds \<longleftrightarrow> list_all is_ascii_digit ds"

definition segment_ok :: "segment \<Rightarrow> bool" where
  "segment_ok sg \<longleftrightarrow> digits_ok (integer_part sg) \<and> pred_option digits_ok (fraction_part sg) \<and>
     (integer_part sg \<noteq> [] \<or> fraction_part sg \<notin> {None, Some []}) \<and> unit_part sg \<in> set duration_units"

definition segment_text :: "segment \<Rightarrow> bytes" where
  "segment_text sg =
     integer_part sg @ (case fraction_part sg of None \<Rightarrow> [] | Some ds \<Rightarrow> dot # ds) @ fst (unit_part sg)"

definition decimal :: "bytes \<Rightarrow> nat" where
  "decimal ds = foldl (\<lambda>v d. v * 10 + digit_value d) 0 ds"

definition segment_nanos :: "segment \<Rightarrow> nat" where
  "segment_nanos sg =
     decimal (integer_part sg) * snd (unit_part sg) +
     (case fraction_part sg of
        None \<Rightarrow> 0
      | Some ds \<Rightarrow> if ds = [] then 0 else fractional_nanos ds (snd (unit_part sg)))"

text \<open>The checked arithmetic is exact as long as the result is small.\<close>

lemma decimal_snoc: "decimal (ds @ [d]) = decimal ds * 10 + digit_value d"
  by (simp add: decimal_def)

lemma accumulate_integer_iff:
  assumes "v < 2 ^ 128"
  shows "accumulate_integer v ds = Some n \<longleftrightarrow> n = foldl (\<lambda>v d. v * 10 + digit_value d) v ds \<and> n < 2 ^ 128"
  using assms
proof (induction ds arbitrary: v)
  case Nil
  then show ?case by auto
next
  case (Cons d ds)
  let ?w = "v * 10 + digit_value d"
  have grows: "w \<le> foldl (\<lambda>v d. v * 10 + digit_value d) w ds" for w
  proof (induction ds arbitrary: w)
    case (Cons e es)
    have "w \<le> w * 10 + digit_value e" by simp
    also have "\<dots> \<le> foldl (\<lambda>v d. v * 10 + digit_value d) (w * 10 + digit_value e) es" by (rule Cons)
    finally show ?case by simp
  qed simp
  show ?case
  proof (cases "?w < 2 ^ 128")
    case True
    then show ?thesis using Cons.IH [OF True] by (simp add: checked_mul_u128_def checked_add_u128_def)
  next
    case False
    then have "\<not> foldl (\<lambda>v d. v * 10 + digit_value d) ?w ds < 2 ^ 128"
      using grows [of ?w] by linarith
    with False show ?thesis
      by (auto simp: checked_mul_u128_def checked_add_u128_def bind_eq_Some_conv split: if_splits)
  qed
qed

lemma parse_ascii_integer_iff: "parse_ascii_integer ds = Some n \<longleftrightarrow> n = decimal ds \<and> n < 2 ^ 128"
  by (simp add: parse_ascii_integer_def accumulate_integer_iff decimal_def)

text \<open>A text starts with at most one unit when a digit, a point or nothing follows it.\<close>

definition segment_start :: "bytes \<Rightarrow> bool" where
  "segment_start bs \<longleftrightarrow> (case bs of [] \<Rightarrow> True | b # _ \<Rightarrow> is_ascii_digit b \<or> b = dot)"

lemma unit_start: "(u, n) \<in> set duration_units \<Longrightarrow> \<exists>b r. u = b # r \<and> \<not> is_ascii_digit b \<and> b \<noteq> dot"
  by (auto simp: duration_units_def ascii_def is_ascii_digit_def)

lemma duration_units_eq:
  "duration_units = [([110, 115], 1), ([117, 115], 1000), ([194, 181, 115], 1000), ([206, 188, 115], 1000),
     ([109, 115], 1000000), ([115], 1000000000), ([109], 60000000000), ([104], 3600000000000)]"
  by (simp add: duration_units_def ascii_def)

lemma find_unit:
  assumes "(u, n) \<in> set duration_units" and "segment_start rest"
  shows "find (\<lambda>(v, _). starts_with (u @ rest) v) duration_units = Some (u, n)"
proof -
  have "\<not> starts_with rest [115]"
    using assms(2) by (cases rest) (simp_all add: segment_start_def is_ascii_digit_def, auto)
  then show ?thesis using assms(1) unfolding duration_units_eq by (simp, elim disjE conjE) simp_all
qed

lemma digits_ok_prefix:
  assumes "digits_ok ds"
  shows "takeWhile is_ascii_digit (ds @ rest) = ds @ takeWhile is_ascii_digit rest"
    and "dropWhile is_ascii_digit (ds @ rest) = dropWhile is_ascii_digit rest"
  using assms by (simp_all add: digits_ok_def list_all_iff)

lemma dot_not_digit [simp]: "\<not> is_ascii_digit dot"
  by (simp add: is_ascii_digit_def)

text \<open>The bytes in front of the unit, split as the parser splits them.\<close>

lemma split_numeral:
  assumes "segment_ok sg"
  shows "takeWhile is_ascii_digit (segment_text sg @ rest) = integer_part sg"
    and "split_fraction (dropWhile is_ascii_digit (segment_text sg @ rest))
      = (case fraction_part sg of None \<Rightarrow> [] | Some ds \<Rightarrow> ds, fst (unit_part sg) @ rest)"
proof -
  obtain u n where unit: "unit_part sg = (u, n)" "(u, n) \<in> set duration_units"
    using assms by (cases "unit_part sg") (auto simp: segment_ok_def)
  then obtain b r where u: "u = b # r" "\<not> is_ascii_digit b" "b \<noteq> dot" using unit_start by blast
  have ip: "digits_ok (integer_part sg)" and fp: "\<And>ds. fraction_part sg = Some ds \<Longrightarrow> digits_ok ds"
    using assms by (simp_all add: segment_ok_def)
  have tail: "takeWhile is_ascii_digit (u @ rest) = []" "dropWhile is_ascii_digit (u @ rest) = u @ rest"
    using u(1,2) by simp_all
  show "takeWhile is_ascii_digit (segment_text sg @ rest) = integer_part sg"
    using tail unit(1) by (cases "fraction_part sg") (auto simp: segment_text_def digits_ok_prefix [OF ip])
  show "split_fraction (dropWhile is_ascii_digit (segment_text sg @ rest))
      = (case fraction_part sg of None \<Rightarrow> [] | Some ds \<Rightarrow> ds, fst (unit_part sg) @ rest)"
  proof (cases "fraction_part sg")
    case None
    then show ?thesis
      using tail u(1,3) unit(1) by (auto simp: segment_text_def digits_ok_prefix [OF ip] split_fraction_def)
  next
    case (Some ds)
    then show ?thesis
      using tail unit(1)
      by (auto simp: segment_text_def digits_ok_prefix [OF ip] digits_ok_prefix [OF fp [OF Some]] split_fraction_def)
  qed
qed

lemma parse_segment_complete:
  assumes "segment_ok sg" and "segment_start rest" and "acc + segment_nanos sg < 2 ^ 128"
  shows "parse_segment (segment_text sg @ rest) acc = Some (acc + segment_nanos sg, rest)"
proof -
  obtain u n where unit: "unit_part sg = (u, n)" "(u, n) \<in> set duration_units"
    using assms(1) by (cases "unit_part sg") (auto simp: segment_ok_def)
  define f where "f = (case fraction_part sg of None \<Rightarrow> [] | Some ds \<Rightarrow> ds)"
  have nanos: "segment_nanos sg = decimal (integer_part sg) * n + (if f = [] then 0 else fractional_nanos f n)"
    using unit(1) by (simp add: segment_nanos_def f_def split: option.splits)
  have "0 < n" using unit(2) by (auto simp: duration_units_def)
  then have "decimal (integer_part sg) \<le> decimal (integer_part sg) * n" by simp
  moreover have mul: "decimal (integer_part sg) * n < 2 ^ 128" using assms(3) nanos by simp
  ultimately have "parse_ascii_integer (integer_part sg) = Some (decimal (integer_part sg))"
    by (simp only: parse_ascii_integer_iff) (rule conjI [OF refl le_less_trans])
  moreover have "integer_part sg \<noteq> [] \<or> f \<noteq> []"
    using assms(1) by (cases "fraction_part sg") (auto simp: segment_ok_def f_def)
  ultimately show ?thesis
    using assms(3) unit(1) mul find_unit [OF unit(2) assms(2)]
    by (auto simp: parse_segment_def Let_def split_numeral [OF assms(1)] checked_mul_u128_def checked_add_u128_def
        nanos f_def [symmetric] add.assoc split: if_splits)
qed

lemma parse_segment_sound:
  assumes "parse_segment bs acc = Some (acc', rest)"
  shows "\<exists>sg. segment_ok sg \<and> bs = segment_text sg @ rest \<and> acc' = acc + segment_nanos sg"
proof -
  let ?ip = "takeWhile is_ascii_digit bs"
  define r where "r = dropWhile is_ascii_digit bs"
  obtain fd units where split: "split_fraction r = (fd, units)" by fastforce
  obtain u n where find: "find (\<lambda>(u, _). starts_with units u) duration_units = Some (u, n)"
    and rest: "rest = drop (length u) units" and some: "?ip \<noteq> [] \<or> fd \<noteq> []"
    and acc: "acc' = acc + decimal ?ip * n + (if fd = [] then 0 else fractional_nanos fd n)"
    using assms split
    by (auto simp: parse_segment_def Let_def bind_eq_Some_conv parse_ascii_integer_iff checked_mul_u128_def
        checked_add_u128_def r_def [symmetric] split: if_splits)
  then have u: "(u, n) \<in> set duration_units" "units = u @ rest"
    using find_found [OF find] by (auto simp: starts_with_iff)
  define fp where "fp = (case r of [] \<Rightarrow> None | b # _ \<Rightarrow> if b = dot then Some fd else None)"
  let ?sg = "\<lparr>integer_part = ?ip, fraction_part = fp, unit_part = (u, n)\<rparr>"
  have digits: "digits_ok (takeWhile is_ascii_digit xs)" for xs
    by (simp add: digits_ok_def list_all_iff) (metis set_takeWhileD)
  have "r = (case fp of None \<Rightarrow> [] | Some ds \<Rightarrow> dot # ds) @ units \<and> pred_option digits_ok fp \<and>
      (fp = None \<longrightarrow> fd = []) \<and> (\<forall>ds. fp = Some ds \<longrightarrow> ds = fd)"
    using split digits by (cases r) (auto simp: fp_def split_fraction_def split: if_splits)
  then have r: "r = (case fp of None \<Rightarrow> [] | Some ds \<Rightarrow> dot # ds) @ units" "pred_option digits_ok fp"
    "fp = None \<Longrightarrow> fd = []" "\<And>ds. fp = Some ds \<Longrightarrow> ds = fd" by blast+
  have "segment_ok ?sg" using digits r u(1) some by (cases fp) (auto simp: segment_ok_def)
  moreover have "bs = segment_text ?sg @ rest"
    using takeWhile_dropWhile_id [of is_ascii_digit bs, folded r_def] r(1) u(2) by (simp add: segment_text_def)
  moreover have "acc' = acc + segment_nanos ?sg"
    using acc r(3,4) by (cases fp) (auto simp: segment_nanos_def)
  ultimately show ?thesis by blast
qed

lemma segment_text_start: "segment_ok sg \<Longrightarrow> segment_start (segment_text sg @ rest) \<and> segment_text sg \<noteq> []"
  by (cases "integer_part sg"; cases "fraction_part sg")
    (auto simp: segment_ok_def segment_text_def segment_start_def digits_ok_def)

definition segments_text :: "segment list \<Rightarrow> bytes" where
  "segments_text sgs = concat (map segment_text sgs)"

lemma segments_text_start: "list_all segment_ok sgs \<Longrightarrow> segment_start (segments_text sgs)"
  using segment_text_start
  by (cases sgs) (auto simp: segments_text_def segment_start_def)

lemma parse_segments_complete:
  assumes "list_all segment_ok sgs" and "acc + sum_list (map segment_nanos sgs) < 2 ^ 128"
  shows "parse_segments (segments_text sgs) acc n = Some (acc + sum_list (map segment_nanos sgs), n + length sgs)"
  using assms
proof (induction sgs arbitrary: acc n)
  case Nil
  then show ?case by (simp add: segments_text_def parse_segments.simps)
next
  case (Cons sg sgs)
  have "parse_segment (segment_text sg @ segments_text sgs) acc = Some (acc + segment_nanos sg, segments_text sgs)"
    using Cons.prems by (intro parse_segment_complete segments_text_start) auto
  moreover have "segment_text sg @ segments_text sgs \<noteq> []" using segment_text_start Cons.prems(1) by auto
  ultimately show ?case
    using Cons.IH [of "acc + segment_nanos sg" "Suc n"] Cons.prems
    by (subst parse_segments.simps) (simp add: segments_text_def add.assoc)
qed

lemma parse_segments_sound:
  "parse_segments bs acc n = Some (t, k) \<Longrightarrow>
    \<exists>sgs. list_all segment_ok sgs \<and> bs = segments_text sgs \<and> t = acc + sum_list (map segment_nanos sgs) \<and>
      k = n + length sgs"
proof (induction bs acc n arbitrary: t k rule: parse_segments.induct)
  case (1 bs acc n)
  show ?case
  proof (cases "bs = []")
    case True
    with 1(2) show ?thesis by (intro exI [of _ "[]"]) (simp add: parse_segments.simps segments_text_def)
  next
    case False
    then obtain acc' rest where step: "parse_segment bs acc = Some (acc', rest)"
      and more_segments: "parse_segments rest acc' (Suc n) = Some (t, k)"
      using 1(2) by (subst (asm) parse_segments.simps) (auto split: option.splits)
    from parse_segment_sound [OF step] obtain sg where "segment_ok sg" "bs = segment_text sg @ rest"
      "acc' = acc + segment_nanos sg" by blast
    moreover from 1(1) [OF False step refl more_segments] obtain sgs where "list_all segment_ok sgs"
      "rest = segments_text sgs" "t = acc' + sum_list (map segment_nanos sgs)" "k = Suc n + length sgs" by blast
    ultimately show ?thesis by (intro exI [of _ "sg # sgs"]) (simp add: segments_text_def)
  qed
qed

text \<open>
  C39: What a timeout is. \<^verbatim>\<open>parse_duration\<close> accepts a text exactly if it is an optional plus sign and one or more
  segments of the grammar whose sum, computed with unbounded integers, is between one second and ten minutes, and that
  sum in nanoseconds is the result: overflow, on the way or at the end, never changes it.
\<close>

theorem parse_duration_grammar:
  "parse_duration value = Some t \<longleftrightarrow>
    (\<exists>sign sgs. value = sign @ segments_text sgs \<and> sign \<in> {[], ascii ''+''} \<and> sgs \<noteq> [] \<and> list_all segment_ok sgs \<and>
      t = sum_list (map segment_nanos sgs) \<and> 1000000000 \<le> t \<and> t \<le> 600000000000)"
    (is "_ \<longleftrightarrow> ?R")
proof
  assume parsed: "parse_duration value = Some t"
  have "\<exists>sign bs k. value = sign @ bs \<and> sign \<in> {[], ascii ''+''} \<and> parse_segments bs 0 0 = Some (t, k) \<and> 0 < k \<and>
      1000000000 \<le> t \<and> t \<le> 600000000000"
  proof (cases "value")
    case (Cons b bs)
    show ?thesis
    proof (cases "b = 43")
      case True
      with parsed Cons show ?thesis
        by (intro exI [of _ "ascii ''+''"] exI [of _ bs])
          (auto simp: parse_duration_def ascii_def MIN_DURATION_def MAX_DURATION_def bind_eq_Some_conv split: if_splits)
    next
      case False
      with parsed Cons show ?thesis
        by (intro exI [of _ "[]"] exI [of _ "b # bs"])
          (auto simp: parse_duration_def MIN_DURATION_def MAX_DURATION_def bind_eq_Some_conv split: if_splits)
    qed
  qed (use parsed in \<open>simp add: parse_duration_def\<close>)
  then show ?R using parse_segments_sound by fastforce
next
  assume ?R
  then obtain sign sgs where r: "value = sign @ segments_text sgs" "sign \<in> {[], ascii ''+''}" "sgs \<noteq> []"
    "list_all segment_ok sgs" "t = sum_list (map segment_nanos sgs)" "1000000000 \<le> t" "t \<le> 600000000000" by blast
  then have "parse_segments (segments_text sgs) 0 0 = Some (t, length sgs)"
    using parse_segments_complete [of sgs 0 0] by simp
  moreover obtain b bs where "segments_text sgs = b # bs" "is_ascii_digit b \<or> b = dot"
  proof (cases "segments_text sgs")
    case Nil
    then show ?thesis using r(3,4) segment_text_start by (cases sgs) (auto simp: segments_text_def)
  next
    case (Cons b bs)
    then show ?thesis using that segments_text_start [OF r(4)] by (simp add: segment_start_def)
  qed
  ultimately show "parse_duration value = Some t"
    using r by (auto simp: parse_duration_def ascii_def MIN_DURATION_def MAX_DURATION_def is_ascii_digit_def)
qed

end
