(* ===== verification/Cli.thy ===== *)
theory Cli
  imports Duration Account Messages
begin

text \<open>
  \<^verbatim>\<open>src/cli.rs\<close>: what the arguments of the process ask for. An argument is an \<^verbatim>\<open>OsString\<close>, any bytes; parsing has no effects,
  and \<open>run\<close> says what the process then does. The durations are in \<open>Duration\<close>, the client commands in \<open>Client\<close>.
\<close>

section \<open>Texts\<close>

definition newline :: bytes where "newline = [10]"

definition START_HELP :: bytes where
  "START_HELP = ascii ''Usage: opp start [--account ACCOUNT] [--op ABSOLUTE_PATH]'' @ newline"
definition STATUS_HELP :: bytes where
  "STATUS_HELP = ascii ''Usage: opp status [--account ACCOUNT]'' @ newline"
definition STOP_HELP :: bytes where
  "STOP_HELP = ascii ''Usage: opp stop'' @ newline"
definition EXEC_HELP :: bytes where
  "EXEC_HELP = ascii ''Usage: opp exec [--account ACCOUNT] [--timeout DURATION] -- [OP_ARGUMENT...]'' @ newline"

definition ROOT_HELP :: bytes where
  "ROOT_HELP = concat (map (\<lambda>line. ascii line @ newline)
     [''Usage:'', ''  opp --help'', ''  opp --version'', ''  opp start [--account ACCOUNT] [--op ABSOLUTE_PATH]'',
      ''  opp status [--account ACCOUNT]'', ''  opp stop'',
      ''  opp exec [--account ACCOUNT] [--timeout DURATION] -- [OP_ARGUMENT...]''])"

definition INTERNAL_BROKER_ARGUMENT :: bytes where
  "INTERNAL_BROKER_ARGUMENT = ascii ''__opp_internal_broker_v1''"

section \<open>Parsing\<close>

datatype action =
    Help bytes
  | Version
  | StartAction "bytes option" "bytes option"
  | StatusAction "bytes option"
  | StopAction
  | ExecAction "bytes option" duration "bytes list"

text \<open>\<^verbatim>\<open>arguments[index].to_str()\<close> compared with an option.\<close>

definition is_option :: "bytes \<Rightarrow> string \<Rightarrow> bool" where
  "is_option argument option \<longleftrightarrow> to_str argument = Some (ascii option)"

definition has_help :: "bytes list \<Rightarrow> bool" where
  "has_help arguments \<longleftrightarrow> list_ex (\<lambda>argument. argument = ascii ''--help'') arguments"

fun start_options :: "bytes option \<Rightarrow> bytes option \<Rightarrow> bytes list \<Rightarrow> string + action" where
  "start_options account op [] = Inr (StartAction account op)"
| "start_options account op (argument # rest) =
     (if is_option argument ''--account'' \<and> account = None then
        (case rest of
           [] \<Rightarrow> Inl ''--account requires a value''
         | v # rest' \<Rightarrow> start_options (Some v) op rest')
      else if is_option argument ''--op'' \<and> op = None then
        (case rest of
           [] \<Rightarrow> Inl ''--op requires a value''
         | v # rest' \<Rightarrow> start_options account (Some v) rest')
      else Inl ''invalid start option'')"

definition parse_start :: "bytes list \<Rightarrow> string + action" where
  "parse_start arguments =
     (if has_help arguments then Inr (Help START_HELP) else start_options None None arguments)"

definition parse_status :: "bytes list \<Rightarrow> string + action" where
  "parse_status arguments =
     (if has_help arguments then Inr (Help STATUS_HELP)
      else
        (case arguments of
           [] \<Rightarrow> Inr (StatusAction None)
         | [option, v] \<Rightarrow>
             if option = ascii ''--account'' then Inr (StatusAction (Some v)) else Inl ''invalid status option''
         | _ \<Rightarrow> Inl ''invalid status option''))"

definition parse_stop :: "bytes list \<Rightarrow> string + action" where
  "parse_stop arguments =
     (if has_help arguments then Inr (Help STOP_HELP)
      else if arguments = [] then Inr StopAction
      else Inl ''stop accepts no options'')"

text \<open>The options of \<^verbatim>\<open>exec\<close>, those before the separator; \<open>timeout\<close> is absent until it is set.\<close>

definition DEFAULT_TIMEOUT :: duration where "DEFAULT_TIMEOUT = from_secs 120"

fun exec_options ::
  "bytes option \<Rightarrow> duration option \<Rightarrow> bytes list \<Rightarrow> string + (bytes option \<times> duration option)" where
  "exec_options account timeout [] = Inr (account, timeout)"
| "exec_options account timeout (argument # rest) =
     (if is_option argument ''--account'' \<and> account = None then
        (case rest of
           [] \<Rightarrow> Inl ''--account requires a value''
         | v # rest' \<Rightarrow> exec_options (Some v) timeout rest')
      else if is_option argument ''--timeout'' \<and> timeout = None then
        (case rest of
           [] \<Rightarrow> Inl ''--timeout requires a value''
         | v # rest' \<Rightarrow>
             (case to_str v of
                None \<Rightarrow> Inl ''timeout must be valid UTF-8''
              | Some text \<Rightarrow>
                  (case parse_duration text of
                     None \<Rightarrow> Inl ''invalid timeout duration''
                   | Some d \<Rightarrow> exec_options account (Some d) rest')))
      else Inl ''invalid exec option'')"

text \<open>The proxied arguments: none has a NUL, and the sum of their lengths.\<close>

fun proxied_bytes :: "nat \<Rightarrow> bytes list \<Rightarrow> string + nat" where
  "proxied_bytes sum_bytes [] = Inr sum_bytes"
| "proxied_bytes sum_bytes (argument # rest) =
     (if 0 \<in> set argument then Inl ''op arguments must not contain NUL''
      else proxied_bytes (saturating_add_usize sum_bytes (length argument)) rest)"

fun reject_account_override :: "bytes list \<Rightarrow> string + unit" where
  "reject_account_override [] = Inr ()"
| "reject_account_override (argument # rest) =
     (if argument = ascii ''--'' then Inr ()
      else if argument = ascii ''--account'' \<or> starts_with argument (ascii ''--account='')
      then Inl ''proxied op arguments may not override the selected account''
      else reject_account_override rest)"

definition parse_exec :: "bytes list \<Rightarrow> string + action" where
  "parse_exec arguments =
     (case position (\<lambda>argument. argument = ascii ''--'') arguments of
        None \<Rightarrow>
          if has_help arguments then Inr (Help EXEC_HELP) else Inl ''exec requires the -- separator''
      | Some separator \<Rightarrow>
          if has_help (take separator arguments) then Inr (Help EXEC_HELP)
          else
            bind_result (exec_options None None (take separator arguments)) (\<lambda>(account, timeout).
              let raw = drop (separator + 1) arguments in
              if length raw > 256 then Inl ''exec accepts at most 256 op arguments''
              else
                bind_result (proxied_bytes 0 raw) (\<lambda>sum_bytes.
                  if sum_bytes > 65536 then Inl ''op arguments exceed 65,536 bytes''
                  else
                    bind_result (reject_account_override raw) (\<lambda>_.
                      Inr (ExecAction account
                        (case timeout of None \<Rightarrow> DEFAULT_TIMEOUT | Some d \<Rightarrow> d) raw)))))"

definition parse :: "bytes list \<Rightarrow> string + action" where
  "parse arguments =
     (case arguments of
        [] \<Rightarrow> Inl ''a command is required''
      | command # rest \<Rightarrow>
          if command = ascii ''--help'' \<and> rest = [] then Inr (Help ROOT_HELP)
          else if command = ascii ''--version'' \<and> rest = [] then Inr Version
          else if is_option command ''start'' then parse_start rest
          else if is_option command ''status'' then parse_status rest
          else if is_option command ''stop'' then parse_stop rest
          else if is_option command ''exec'' then parse_exec rest
          else Inl ''unknown command or option'')"

section \<open>What the process does\<close>

text \<open>Everything but the client commands and the internal broker is decided here.\<close>

datatype task =
    RunBroker
  | Exit i32
  | Print bytes
  | UsageError string
  | ClientStart account "bytes option"
  | ClientStatus account
  | ClientStop
  | ClientExecute account duration "bytes list"

definition selected :: "string + account \<Rightarrow> (account \<Rightarrow> task) \<Rightarrow> task" where
  "selected chosen go = (case chosen of Inl message \<Rightarrow> UsageError message | Inr account \<Rightarrow> go account)"

text \<open>
  \<open>argv\<close> is the whole argument list, with the program's name; \<open>op_account\<close> the value of \<^verbatim>\<open>OP_ACCOUNT\<close>; \<open>version\<close> is set
  by the build.
\<close>

definition run :: "bytes \<Rightarrow> bytes option \<Rightarrow> bytes list \<Rightarrow> task" where
  "run version op_account argv =
     (let arguments = tl argv in
      if arguments \<noteq> [] \<and> hd arguments = INTERNAL_BROKER_ARGUMENT then
        (if length arguments = 1 then RunBroker else Exit 2)
      else
        (case parse arguments of
           Inr (Help text) \<Rightarrow> Print text
         | Inr Version \<Rightarrow> Print (ascii ''opp '' @ version @ newline)
         | Inr (StartAction account op) \<Rightarrow> selected (select account op_account) (\<lambda>a. ClientStart a op)
         | Inr (StatusAction account) \<Rightarrow> selected (select account op_account) ClientStatus
         | Inr StopAction \<Rightarrow> ClientStop
         | Inr (ExecAction account timeout arguments) \<Rightarrow>
             selected (select account op_account) (\<lambda>a. ClientExecute a timeout arguments)
         | Inl message \<Rightarrow> UsageError message))"

section \<open>The syntax of exec\<close>

lemma is_option_iff [simp]:
  "is_option x ''--account'' \<longleftrightarrow> x = ascii ''--account''" "is_option x ''--timeout'' \<longleftrightarrow> x = ascii ''--timeout''"
  "is_option x ''--op'' \<longleftrightarrow> x = ascii ''--op''" "is_option x ''start'' \<longleftrightarrow> x = ascii ''start''"
  "is_option x ''status'' \<longleftrightarrow> x = ascii ''status''" "is_option x ''stop'' \<longleftrightarrow> x = ascii ''stop''"
  "is_option x ''exec'' \<longleftrightarrow> x = ascii ''exec''"
  by (auto simp: is_option_def to_str_def ascii_def split: if_splits)

lemma options_distinct [simp]:
  "ascii ''--account'' \<noteq> ascii ''--timeout''" "ascii ''--timeout'' \<noteq> ascii ''--account''"
  "ascii ''exec'' \<noteq> ascii ''--help''" "ascii ''exec'' \<noteq> ascii ''--version''" "ascii ''exec'' \<noteq> ascii ''start''"
  "ascii ''exec'' \<noteq> ascii ''status''" "ascii ''exec'' \<noteq> ascii ''stop''" "ascii ''exec'' \<noteq> INTERNAL_BROKER_ARGUMENT"
  by (simp_all add: ascii_def INTERNAL_BROKER_ARGUMENT_def)

text \<open>Each option at most once, in any order, with its value.\<close>

definition account_words :: "bytes option \<Rightarrow> bytes list" where
  "account_words account = (case account of None \<Rightarrow> [] | Some v \<Rightarrow> [ascii ''--account'', v])"

definition timeout_words :: "duration option \<Rightarrow> bytes list \<Rightarrow> bool" where
  "timeout_words timeout ws =
     (case timeout of
        None \<Rightarrow> ws = []
      | Some d \<Rightarrow> \<exists>text. ws = [ascii ''--timeout'', text] \<and> utf8_valid text \<and> parse_duration text = Some d)"

definition exec_syntax :: "bytes list \<Rightarrow> bytes option \<Rightarrow> duration option \<Rightarrow> bool" where
  "exec_syntax options account timeout \<longleftrightarrow>
     (\<exists>ws. timeout_words timeout ws \<and>
        (options = account_words account @ ws \<or> options = ws @ account_words account))"

lemma exec_options_both: "exec_options (Some a) (Some t) options = Inr r \<longleftrightarrow> options = [] \<and> r = (Some a, Some t)"
  by (cases options) auto

lemma exec_options_account:
  "exec_options (Some a) None options = Inr (account, timeout) \<longleftrightarrow>
    account = Some a \<and> timeout_words timeout options"
  by (cases "(Some a, None :: duration option, options)" rule: exec_options.cases)
    (auto simp: timeout_words_def to_str_def exec_options_both split: list.splits option.splits if_splits)

lemma exec_options_timeout:
  "exec_options None (Some t) options = Inr (account, timeout) \<longleftrightarrow>
    timeout = Some t \<and> options = account_words account"
  by (cases "(None :: bytes option, Some t, options)" rule: exec_options.cases)
    (auto simp: account_words_def exec_options_both split: list.splits option.splits if_splits)

lemma exec_options_iff:
  "exec_options None None options = Inr (account, timeout) \<longleftrightarrow> exec_syntax options account timeout"
proof (cases options)
  case Nil
  then show ?thesis
    by (auto simp: exec_syntax_def account_words_def timeout_words_def split: option.splits)
next
  case (Cons x rest)
  show ?thesis
  proof (cases rest)
    case Nil
    with Cons show ?thesis
      by (auto simp: exec_syntax_def account_words_def timeout_words_def split: option.splits)
  next
    case (Cons v rest')
    with \<open>options = x # rest\<close> show ?thesis
      by (cases account; cases timeout)
        (auto simp: exec_syntax_def account_words_def timeout_words_def to_str_def exec_options_account
          exec_options_timeout split: option.splits if_splits)
  qed
qed

section \<open>The proxied arguments\<close>

definition overrides_account :: "bytes list \<Rightarrow> bool" where
  "overrides_account xs \<longleftrightarrow>
     (\<exists>x\<in>set (takeWhile (\<lambda>x. x \<noteq> ascii ''--'') xs).
        x = ascii ''--account'' \<or> starts_with x (ascii ''--account=''))"

lemma overrides_account_Cons [simp]:
  "\<not> overrides_account []"
  "overrides_account (x # xs) \<longleftrightarrow>
    x \<noteq> ascii ''--'' \<and> (x = ascii ''--account'' \<or> starts_with x (ascii ''--account='') \<or> overrides_account xs)"
  unfolding overrides_account_def by simp (cases "x = ascii ''--''"; simp)

lemma reject_account_override_iff: "reject_account_override xs = Inr u \<longleftrightarrow> \<not> overrides_account xs"
  by (induction xs) simp_all

lemma proxied_bytes_iff:
  "proxied_bytes n xs = Inr m \<longleftrightarrow> list_all argument_ok xs \<and> m = foldl (\<lambda>t a. saturating_add_usize t (length a)) n xs"
  by (induction xs arbitrary: n) (auto simp: argument_ok_def)

lemma proxied_bytes_0: "proxied_bytes 0 xs = Inr m \<longleftrightarrow> list_all argument_ok xs \<and> m = total_bytes xs"
  by (simp add: proxied_bytes_iff total_bytes_def)

lemma position_eq_Some_iff:
  "position P xs = Some i \<longleftrightarrow>
    (\<exists>ys y zs. xs = ys @ y # zs \<and> P y \<and> (\<forall>x\<in>set ys. \<not> P x) \<and> i = length ys)"
proof
  assume "position P xs = Some i"
  from position_Some [OF this] show "\<exists>ys y zs. xs = ys @ y # zs \<and> P y \<and> (\<forall>x\<in>set ys. \<not> P x) \<and> i = length ys"
    by (intro exI [of _ "take i xs"] exI [of _ "xs ! i"] exI [of _ "drop (Suc i) xs"])
      (auto simp: id_take_nth_drop [symmetric] in_set_conv_nth)
next
  have "position P (ys @ y # zs) = Some (length ys)" if "P y" "\<forall>x\<in>set ys. \<not> P x" for ys y zs
    using that by (induction ys) auto
  then show "\<exists>ys y zs. xs = ys @ y # zs \<and> P y \<and> (\<forall>x\<in>set ys. \<not> P x) \<and> i = length ys \<Longrightarrow> position P xs = Some i"
    by blast
qed

lemma has_help_iff [simp]: "has_help xs \<longleftrightarrow> ascii ''--help'' \<in> set xs"
  by (auto simp: has_help_def list_ex_iff)

lemma parse_exec_iff:
  "parse_exec arguments = Inr (ExecAction account t xs) \<longleftrightarrow>
    (\<exists>options timeout. arguments = options @ ascii ''--'' # xs \<and> ascii ''--'' \<notin> set options \<and>
      ascii ''--help'' \<notin> set options \<and> exec_syntax options account timeout \<and>
      t = (case timeout of None \<Rightarrow> DEFAULT_TIMEOUT | Some d \<Rightarrow> d) \<and> arguments_ok xs \<and> \<not> overrides_account xs)"
    (is "?L \<longleftrightarrow> ?R")
proof
  assume L: ?L
  then obtain i where pos: "position (\<lambda>x. x = ascii ''--'') arguments = Some i"
    by (auto simp: parse_exec_def split: option.splits if_splits)
  then obtain options rest where split: "arguments = options @ ascii ''--'' # rest" "ascii ''--'' \<notin> set options"
    "i = length options" by (auto simp: position_eq_Some_iff)
  with L pos show ?R
    by (auto simp: parse_exec_def result_simps exec_options_iff proxied_bytes_0 reject_account_override_iff
        total_bytes_bound [unfolded not_less] arguments_ok_def Let_def not_less split: if_splits)
next
  assume ?R
  then obtain options timeout where R: "arguments = options @ ascii ''--'' # xs" "ascii ''--'' \<notin> set options"
    "ascii ''--help'' \<notin> set options" "exec_syntax options account timeout"
    "t = (case timeout of None \<Rightarrow> DEFAULT_TIMEOUT | Some d \<Rightarrow> d)" "arguments_ok xs" "\<not> overrides_account xs" by blast
  then have "position (\<lambda>x. x = ascii ''--'') arguments = Some (length options)" by (auto simp: position_eq_Some_iff)
  moreover have "exec_options None None options = Inr (account, timeout)" using R by (simp add: exec_options_iff)
  ultimately show ?L
    using R by (auto simp: parse_exec_def result_simps proxied_bytes_0 reject_account_override_iff Let_def
        total_bytes_bound [unfolded not_less] arguments_ok_def not_less)
qed

lemma run_exec_iff:
  "run version op_account argv = ClientExecute a t xs \<longleftrightarrow>
    (\<exists>prog arguments account. argv = prog # ascii ''exec'' # arguments \<and>
      parse_exec arguments = Inr (ExecAction account t xs) \<and> select account op_account = Inr a)"
proof (cases "\<exists>prog arguments. argv = prog # ascii ''exec'' # arguments")
  case True
  then obtain prog arguments where "argv = prog # ascii ''exec'' # arguments" by blast
  then show ?thesis
    by (auto simp: run_def parse_def selected_def split: sum.splits action.splits)
next
  case False
  have "parse (tl argv) \<noteq> Inr (ExecAction account t' xs')" for account t' xs'
  proof (cases "tl argv")
    case (Cons command rest)
    with False have "command \<noteq> ascii ''exec''" by (cases argv) auto
    have "start_options x y rest \<noteq> Inr (ExecAction account t' xs')" for x y
      by (induction x y rest rule: start_options.induct) (auto split: list.splits)
    with Cons \<open>command \<noteq> ascii ''exec''\<close> show ?thesis
      by (auto simp: parse_def parse_start_def parse_status_def parse_stop_def split: list.splits if_splits)
  qed (simp add: parse_def)
  then have "run version op_account argv \<noteq> ClientExecute a t xs"
    by (auto simp: run_def selected_def Let_def split: sum.splits action.splits if_splits)
  with False show ?thesis by auto
qed

text \<open>
  C37: What \<^verbatim>\<open>opp exec\<close> accepts. The process goes on to ask the broker exactly if its arguments are \<^verbatim>\<open>exec\<close>, then at most one
  account and one valid timeout in any order and no help request, then the separator, then at most 256 arguments of at
  most 65,536 bytes without NUL, none of which selects another account before a separator of its own; and if the selected
  account is valid UTF-8. It then uses exactly these arguments, that account, and two minutes where no timeout is given.
\<close>

theorem exec_command_line:
  "run version op_account argv = ClientExecute a t xs \<longleftrightarrow>
    (\<exists>prog options account timeout. argv = prog # ascii ''exec'' # options @ ascii ''--'' # xs \<and>
      ascii ''--'' \<notin> set options \<and> ascii ''--help'' \<notin> set options \<and> exec_syntax options account timeout \<and>
      t = (case timeout of None \<Rightarrow> 120000000000 | Some d \<Rightarrow> d) \<and> select account op_account = Inr a \<and>
      length xs \<le> 256 \<and> sum_list (map length xs) \<le> 65536 \<and> list_all (\<lambda>x. 0 \<notin> set x) xs \<and> \<not> overrides_account xs)"
proof -
  have limits: "arguments_ok xs \<longleftrightarrow>
      length xs \<le> 256 \<and> sum_list (map length xs) \<le> 65536 \<and> list_all (\<lambda>x. 0 \<notin> set x) xs"
    by (auto simp: arguments_ok_def argument_ok_def [abs_def])
  have default: "DEFAULT_TIMEOUT = 120000000000" by (simp add: DEFAULT_TIMEOUT_def from_secs_def)
  show ?thesis unfolding run_exec_iff parse_exec_iff limits default by blast
qed

lemma duration_bounds: "parse_duration text = Some t \<Longrightarrow> 1000000000 \<le> t \<and> t \<le> 600000000000"
  by (auto simp: parse_duration_def MIN_DURATION_def MAX_DURATION_def Let_def bind_eq_Some_conv
      split: if_splits prod.splits)


text \<open>\<^verbatim>\<open>opp exec --account a -- whoami\<close>.\<close>

definition example_argv :: "bytes list" where
  "example_argv = map ascii [''opp'', ''exec'', ''--account'', ''a'', ''--'', ''whoami'']"

lemma example_run:
  "run version None example_argv = ClientExecute (Account (Some (ascii ''a''))) 120000000000 [ascii ''whoami'']"
  unfolding exec_command_line
  by (rule exI [of _ "ascii ''opp''"], rule exI [of _ "map ascii [''--account'', ''a'']"],
      rule exI [of _ "Some (ascii ''a'')"], rule exI [of _ None])
    (simp add: example_argv_def exec_syntax_def account_words_def timeout_words_def select_def filter_nonempty_def
      utf8_def to_str_def overrides_account_def ascii_def)


end
