(* ===== verification/Streams.thy ===== *)
theory Streams
  imports Prelude
begin

text \<open>
  The loops that only move bytes: the thread that drains the broker's terminal (\<^verbatim>\<open>drain_terminal\<close> in \<^verbatim>\<open>src/darwin.rs\<close>), the
  readers of a probe's output (\<^verbatim>\<open>discard\<close> in \<^verbatim>\<open>src/process.rs\<close>) and the copying threads of \<^verbatim>\<open>opp exec\<close> (\<^verbatim>\<open>copy_stdin\<close>,
  \<^verbatim>\<open>copy_stdout\<close>, \<^verbatim>\<open>copy_stderr\<close> and \<^verbatim>\<open>join_copy_thread\<close> in \<^verbatim>\<open>src/client.rs\<close>). What the \<open>n\<close>-th read of a descriptor answers is
  an argument; an empty answer is the end of the file. The source bounds none of these loops, so they are runs of one
  partial function, whose value is \<open>None\<close> when the loop does not end.
\<close>

section \<open>A loop of rounds\<close>

text \<open>Each round either goes on, leaving a trace of what it did, or ends the loop with a result.\<close>

partial_function (option) run_rounds :: "(nat \<Rightarrow> 'a + 'r) \<Rightarrow> nat \<Rightarrow> 'a list \<Rightarrow> ('a list \<times> 'r) option" where
  "run_rounds body n trace =
     (case body n of Inl x \<Rightarrow> run_rounds body (Suc n) (trace @ [x]) | Inr r \<Rightarrow> Some (trace, r))"

lemma run_rounds_end:
  assumes returns: "run_rounds body n trace = Some y"
  shows "\<exists>m r. body (n + m) = Inr r"
proof (rule run_rounds.raw_induct [OF _ returns, where P = "\<lambda>body n trace x. \<exists>m r. body (n + m) = Inr r"])
  fix run body n trace y
  assume IH: "\<And>body n trace y. run body n trace = Some y \<Longrightarrow> \<exists>m r. body (n + m) = Inr r"
    and step: "(case body n of Inl x \<Rightarrow> run body (Suc n) (trace @ [x]) | Inr r \<Rightarrow> Some (trace, r)) = Some y"
  show "\<exists>m r. body (n + m) = Inr r"
  proof (cases "body n")
    case (Inl x)
    with step IH obtain m r where "body (Suc n + m) = Inr r" by fastforce
    then show ?thesis by (intro exI [of _ "Suc m"]) auto
  qed (intro exI [of _ 0], simp)
qed

definition keeps_going :: "(nat \<Rightarrow> 'a + 'r) \<Rightarrow> nat \<Rightarrow> nat \<Rightarrow> bool" where
  "keeps_going body n m \<longleftrightarrow> (\<forall>i<m. \<exists>x. body (n + i) = Inl x)"

definition traces :: "(nat \<Rightarrow> 'a + 'r) \<Rightarrow> nat \<Rightarrow> nat \<Rightarrow> 'a list" where
  "traces body n m = map (\<lambda>i. projl (body (n + i))) [0..<m]"

lemma run_rounds_after: "keeps_going body n m \<Longrightarrow> run_rounds body n trace = run_rounds body (n + m) (trace @ traces body n m)"
proof (induction m)
  case (Suc m)
  then obtain x where x: "body (n + m) = Inl x" by (auto simp: keeps_going_def)
  have "run_rounds body (n + m) ys = run_rounds body (Suc (n + m)) (ys @ [x])" for ys
    by (subst run_rounds.simps) (simp add: x)
  with Suc x show ?case by (simp add: keeps_going_def traces_def)
qed (simp add: traces_def)

lemma first_end:
  assumes "body (n + k) = Inr r"
  shows "\<exists>m r. keeps_going body n m \<and> body (n + m) = Inr r"
proof -
  define m where "m = (LEAST m. \<exists>r. body (n + m) = Inr r)"
  have "\<exists>r. body (n + k) = Inr r" using assms by blast
  then have "\<exists>r. body (n + m) = Inr r" unfolding m_def by (rule LeastI)
  moreover have "\<exists>x. body (n + i) = Inl x" if "i < m" for i
  proof -
    have "\<not> (\<exists>r. body (n + i) = Inr r)" using that unfolding m_def by (rule not_less_Least)
    then show ?thesis by (cases "body (n + i)") auto
  qed
  ultimately show ?thesis unfolding keeps_going_def by blast
qed

lemma keeps_going_unique:
  "keeps_going body n k \<Longrightarrow> body (n + k) = Inr r \<Longrightarrow> keeps_going body n m \<Longrightarrow> body (n + m) = Inr q \<Longrightarrow> k = m"
  unfolding keeps_going_def by (cases k m rule: linorder_cases) auto

text \<open>A loop is decided by the first round that ends it.\<close>

theorem run_rounds_iff:
  "run_rounds body n trace = Some (ys, r) \<longleftrightarrow>
    (\<exists>m. keeps_going body n m \<and> body (n + m) = Inr r \<and> ys = trace @ traces body n m)"
proof
  assume run: "run_rounds body n trace = Some (ys, r)"
  from run_rounds_end [OF run] first_end obtain m q where m: "keeps_going body n m" "body (n + m) = Inr q" by metis
  with run show "\<exists>m. keeps_going body n m \<and> body (n + m) = Inr r \<and> ys = trace @ traces body n m"
    by (intro exI [of _ m]) (simp add: run_rounds_after [OF m(1)] run_rounds.simps [of body "n + m"])
next
  assume "\<exists>m. keeps_going body n m \<and> body (n + m) = Inr r \<and> ys = trace @ traces body n m"
  then show "run_rounds body n trace = Some (ys, r)" by (auto simp: run_rounds_after run_rounds.simps [of body "n + m" for m])
qed

corollary run_rounds_returns: "(\<exists>y. run_rounds body n trace = Some y) \<longleftrightarrow> (\<exists>m r. body (n + m) = Inr r)"
  using run_rounds_end first_end unfolding split_paired_Ex run_rounds_iff by metis

section \<open>The threads that read and forget\<close>

text \<open>
  One round of \<^verbatim>\<open>drain_terminal\<close>: it looks at the stop flag, reads, and either goes on, having dropped what it read or
  slept for ten milliseconds, or breaks.
\<close>

datatype drain_round = ReadAndDropped bytes | Slept nat

definition drain_body :: "(nat \<Rightarrow> bool) \<Rightarrow> (nat \<Rightarrow> errno + bytes) \<Rightarrow> nat \<Rightarrow> drain_round + unit" where
  "drain_body stop master n =
     (if stop n then Inr ()
      else
        (case master n of
           Inr bs \<Rightarrow> if bs = [] then Inr () else Inl (ReadAndDropped bs)
         | Inl e \<Rightarrow>
             if error_kind (RawOs e) = WouldBlock then Inl (Slept 10000000)
             else if e = EIO then Inl (Slept 10000000)
             else Inr ()))"

definition drain_terminal :: "(nat \<Rightarrow> bool) \<Rightarrow> (nat \<Rightarrow> errno + bytes) \<Rightarrow> (drain_round list \<times> unit) option" where
  "drain_terminal stop master = run_rounds (drain_body stop master) 0 []"

text \<open>
  The join of \<^verbatim>\<open>Terminal::shutdown\<close> waits for this thread: it ends, at the latest, in the first round that sees the
  stop flag, and before that only at the end of the file or at an error other than \<^verbatim>\<open>EWOULDBLOCK\<close> and \<^verbatim>\<open>EIO\<close>.
\<close>

theorem drain_terminal_returns:
  "(\<exists>trace. drain_terminal stop master = Some trace) \<longleftrightarrow>
    (\<exists>n. stop n \<or> master n = Inr [] \<or> (\<exists>e. master n = Inl e \<and> e \<notin> {EAGAIN, EIO}))"
proof -
  have kind: "error_kind (RawOs e) = WouldBlock \<longleftrightarrow> e = EAGAIN" for e by (cases e) simp_all
  have "(\<exists>r. drain_body stop master n = Inr r) \<longleftrightarrow>
      stop n \<or> master n = Inr [] \<or> (\<exists>e. master n = Inl e \<and> e \<notin> {EAGAIN, EIO})" for n
    by (auto simp: drain_body_def kind split: sum.splits if_splits)
  then show ?thesis unfolding drain_terminal_def run_rounds_returns by (metis add_0)
qed

definition discard_body :: "(nat \<Rightarrow> errno + bytes) \<Rightarrow> nat \<Rightarrow> bytes + unit" where
  "discard_body file n =
     (case file n of Inl _ \<Rightarrow> Inr () | Inr bs \<Rightarrow> if bs = [] then Inr () else Inl bs)"

definition discard :: "(nat \<Rightarrow> errno + bytes) \<Rightarrow> (bytes list \<times> unit) option" where
  "discard file = run_rounds (discard_body file) 0 []"

theorem discard_returns:
  "(\<exists>trace. discard file = Some trace) \<longleftrightarrow> (\<exists>n. file n = Inr [] \<or> (\<exists>e. file n = Inl e))"
proof -
  have "(\<exists>r. discard_body file n = Inr r) \<longleftrightarrow> file n = Inr [] \<or> (\<exists>e. file n = Inl e)" for n
    by (auto simp: discard_body_def split: sum.splits if_splits)
  then show ?thesis unfolding discard_def run_rounds_returns by (metis add_0)
qed

text \<open>
  The thread of a probe: it waits for both streams of the child's output to end and then closes the probe's streams,
  which is what the polling loop waits for after the child is gone.
\<close>

definition probe_drain :: "(nat \<Rightarrow> errno + bytes) \<Rightarrow> (nat \<Rightarrow> errno + bytes) \<Rightarrow> unit option" where
  "probe_drain stdout_read stderr_read =
     Option.bind (discard stdout_read) (\<lambda>_. Option.bind (discard stderr_read) (\<lambda>_. Some ()))"

corollary probe_drain_returns:
  "probe_drain out err = Some () \<longleftrightarrow>
    (\<exists>n. out n = Inr [] \<or> (\<exists>e. out n = Inl e)) \<and> (\<exists>n. err n = Inr [] \<or> (\<exists>e. err n = Inl e))"
  unfolding probe_drain_def discard_returns [symmetric] by (auto simp: bind_eq_Some_conv)

section \<open>The threads that copy\<close>

text \<open>
  \<^verbatim>\<open>std::io::copy\<close>: it reads until the end of the file, starts a read again that a signal interrupted, and
  writes everything it reads. The trace holds the bytes that were written.
\<close>

definition EINTR :: errno where "EINTR = Errno 4"

definition copy_body :: "(nat \<Rightarrow> errno + bytes) \<Rightarrow> (nat \<Rightarrow> bytes \<Rightarrow> errno option) \<Rightarrow> nat \<Rightarrow> bytes + unit io_result" where
  "copy_body source sink n =
     (case source n of
        Inl e \<Rightarrow> if e = EINTR then Inl [] else Inr (Inl (RawOs e))
      | Inr bs \<Rightarrow>
          if bs = [] then Inr (Inr ())
          else (case sink n bs of None \<Rightarrow> Inl bs | Some e \<Rightarrow> Inr (Inl (RawOs e))))"

definition io_copy :: "(nat \<Rightarrow> errno + bytes) \<Rightarrow> (nat \<Rightarrow> bytes \<Rightarrow> errno option) \<Rightarrow> (bytes list \<times> unit io_result) option" where
  "io_copy source sink = run_rounds (copy_body source sink) 0 []"

definition copy_stdin :: "(nat \<Rightarrow> errno + bytes) \<Rightarrow> (nat \<Rightarrow> bytes \<Rightarrow> errno option) \<Rightarrow> (bytes list \<times> unit io_result) option" where
  "copy_stdin own_stdin descriptor = io_copy own_stdin descriptor"

definition copy_stdout :: "(nat \<Rightarrow> errno + bytes) \<Rightarrow> (nat \<Rightarrow> bytes \<Rightarrow> errno option) \<Rightarrow> (bytes list \<times> unit io_result) option" where
  "copy_stdout descriptor own_stdout = io_copy descriptor own_stdout"

definition copy_stderr :: "(nat \<Rightarrow> errno + bytes) \<Rightarrow> (nat \<Rightarrow> bytes \<Rightarrow> errno option) \<Rightarrow> (bytes list \<times> unit io_result) option" where
  "copy_stderr descriptor own_stderr = io_copy descriptor own_stderr"

text \<open>The bytes a source delivers in its first \<open>m\<close> answers.\<close>

definition delivered :: "(nat \<Rightarrow> errno + bytes) \<Rightarrow> nat \<Rightarrow> bytes" where
  "delivered source m = concat (map (\<lambda>i. case source i of Inl _ \<Rightarrow> [] | Inr bs \<Rightarrow> bs) [0..<m])"

lemma copied_delivered: "keeps_going (copy_body source sink) 0 m \<Longrightarrow> concat (traces (copy_body source sink) 0 m) = delivered source m"
proof (induction m)
  case (Suc m)
  then obtain x where "copy_body source sink m = Inl x" by (auto simp: keeps_going_def)
  then have "projl (copy_body source sink m) = (case source m of Inl _ \<Rightarrow> [] | Inr bs \<Rightarrow> bs)"
    by (auto simp: copy_body_def split: sum.splits if_splits option.splits)
  with Suc show ?case by (simp add: keeps_going_def traces_def delivered_def)
qed (simp add: traces_def delivered_def)

text \<open>
  A copy that reports success has written exactly the bytes the source delivered before the end of the file, in
  order.
\<close>

theorem io_copy_complete:
  assumes "io_copy source sink = Some (written, Inr u)"
  shows "\<exists>m. source m = Inr [] \<and> concat written = delivered source m"
proof -
  from assms obtain m where m: "keeps_going (copy_body source sink) 0 m" "copy_body source sink m = Inr (Inr u)"
    "written = traces (copy_body source sink) 0 m" by (auto simp: io_copy_def run_rounds_iff)
  then have "source m = Inr []" by (auto simp: copy_body_def split: sum.splits if_splits option.splits)
  with m copied_delivered show ?thesis by blast
qed

text \<open>What joining a thread can find; \<^verbatim>\<open>thread?.join().map_err(..)?\<close>.\<close>

datatype join_outcome = NotStarted errno | Panicked | Joined "unit io_result"

definition join_copy_thread :: "join_outcome \<Rightarrow> string \<Rightarrow> unit io_result" where
  "join_copy_thread thread panic_message =
     (case thread of
        NotStarted e \<Rightarrow> Inl (RawOs e)
      | Panicked \<Rightarrow> Inl (Simple OtherKind panic_message)
      | Joined r \<Rightarrow> r)"

text \<open>
  A copying thread of \<^verbatim>\<open>opp exec\<close>: whether it could be started, whether it panics, and its two ends. Joining it gives
  \<open>None\<close> if its copy never ends.
\<close>

record copy_thread =
  ct_start :: "errno option"
  ct_panics :: bool
  ct_source :: "nat \<Rightarrow> errno + bytes"
  ct_sink :: "nat \<Rightarrow> bytes \<Rightarrow> errno option"

definition copy_thread_outcome ::
  "((nat \<Rightarrow> errno + bytes) \<Rightarrow> (nat \<Rightarrow> bytes \<Rightarrow> errno option) \<Rightarrow> (bytes list \<times> unit io_result) option) \<Rightarrow>
    copy_thread \<Rightarrow> join_outcome option" where
  "copy_thread_outcome copy t =
     (case ct_start t of
        Some e \<Rightarrow> Some (NotStarted e)
      | None \<Rightarrow>
          if ct_panics t then Some Panicked
          else (case copy (ct_source t) (ct_sink t) of None \<Rightarrow> None | Some (_, r) \<Rightarrow> Some (Joined r)))"

text \<open>The source of a copying thread ends, with the end of the file or an error.\<close>

definition source_ends :: "copy_thread \<Rightarrow> bool" where
  "source_ends t \<longleftrightarrow> (\<exists>n. ct_source t n = Inr [] \<or> (\<exists>e. ct_source t n = Inl e \<and> e \<noteq> EINTR))"

lemma io_copy_returns:
  assumes "source_ends t"
  shows "\<exists>y. io_copy (ct_source t) (ct_sink t) = Some y"
proof -
  from assms obtain n where "ct_source t n = Inr [] \<or> (\<exists>e. ct_source t n = Inl e \<and> e \<noteq> EINTR)"
    unfolding source_ends_def by blast
  then have "\<exists>r. copy_body (ct_source t) (ct_sink t) (0 + n) = Inr r" by (auto simp: copy_body_def)
  then show ?thesis unfolding io_copy_def run_rounds_returns by blast
qed

lemma copy_thread_returns:
  assumes "source_ends t"
  shows "\<exists>y. copy_thread_outcome copy_stdout t = Some y" "\<exists>y. copy_thread_outcome copy_stderr t = Some y"
  using io_copy_returns [OF assms]
  by (auto simp: copy_thread_outcome_def copy_stdout_def copy_stderr_def split: option.splits)

end
