(* ===== verification/Client.thy ===== *)
theory Client
  imports Cli Server Streams
begin

text \<open>
  \<^verbatim>\<open>src/client.rs\<close>: the commands \<^verbatim>\<open>start\<close>, \<^verbatim>\<open>status\<close>, \<^verbatim>\<open>stop\<close> and \<^verbatim>\<open>exec\<close>, each up to its exit code. What the client's own
  process and the kernel answer is the record \<open>host\<close>, an argument; the answers are numbered in the order of
  the questions. What the client does is its log. The socket is the one of \<open>Frames\<close>: the incoming
  bytes of a connection are everything the broker will send on it.
\<close>

section \<open>The invoking process\<close>

text \<open>
  The signal thread of \<^verbatim>\<open>execute\<close>: it may take one termination signal, before or after the output streams are closed, or
  too late for the exit code.
\<close>

datatype signal_arrival = NoSignal | SignalEarly i32 | SignalLate i32

record host =
  h_user :: "effective_user io_result"
  h_socket :: socket
  h_connect :: "nat \<Rightarrow> bytes \<Rightarrow> stream io_result"
  h_now :: "nat \<Rightarrow> nat"
  h_stderr :: "nat \<Rightarrow> bytes \<Rightarrow> bool"
  h_stdout :: "nat \<Rightarrow> bytes \<Rightarrow> bool"
  h_current_dir :: "bytes io_result"
  h_vars :: env_vars
  h_path :: "bytes option"
  h_canonicalize :: "bytes \<Rightarrow> bytes io_result"
  h_metadata :: "nat \<Rightarrow> bytes \<Rightarrow> metadata io_result"
  h_pair :: "stream io_result"
  h_pair_timeouts :: "errno option"
  h_current_exe :: "bytes io_result"
  h_spawn :: "bytes \<Rightarrow> bytes list \<Rightarrow> errno option"
  h_pipe :: "nat \<Rightarrow> (fd \<times> fd) io_result"
  h_block_signals :: bool
  h_clone :: "errno option"
  h_signal :: signal_arrival
  h_stdout_thread :: copy_thread
  h_stderr_thread :: copy_thread

datatype deed =
    Stderr bytes bool
  | Stdout bytes bool
  | Connect bytes
  | SpawnBroker bytes "bytes list"
  | SendRequest request
  | SendEvent client_event
  | SendStop

record client =
  asked :: nat
  deeds :: "deed list"

type_synonym 'a client_act = "client \<Rightarrow> 'a \<times> client"

definition client_start :: client where
  "client_start = \<lparr>asked = 0, deeds = []\<rparr>"

definition consult :: "(nat \<Rightarrow> 'a) \<Rightarrow> 'a client_act" where
  "consult f c = (f (asked c), c\<lparr>asked := Suc (asked c)\<rparr>)"

definition perform :: "deed \<Rightarrow> client \<Rightarrow> client" where
  "perform d c = c\<lparr>deeds := deeds c @ [d]\<rparr>"

definition write_stderr :: "host \<Rightarrow> bytes \<Rightarrow> bool client_act" where
  "write_stderr h bs c = (case consult (\<lambda>n. h_stderr h n bs) c of (ok, c') \<Rightarrow> (ok, perform (Stderr bs ok) c'))"

definition write_stdout :: "host \<Rightarrow> bytes \<Rightarrow> bool client_act" where
  "write_stdout h bs c = (case consult (\<lambda>n. h_stdout h n bs) c of (ok, c') \<Rightarrow> (ok, perform (Stdout bs ok) c'))"

section \<open>Messages and exit codes\<close>

definition line :: "string \<Rightarrow> bytes" where
  "line s = ascii s @ newline"

definition WARNING :: bytes where
  "WARNING = line (''opp: warning: the broker gives every process that can reach its socket the full authorized ''
     @ ''1Password CLI authority for every account added to it, including same-user command execution through ''
     @ [CHR 0x27] @ ''op run'' @ [CHR 0x27] @ ''.'')"

definition AUTHORIZATION_REQUIRED :: bytes where
  "AUTHORIZATION_REQUIRED = line (''opp: the selected 1Password account requires authorization. Stop and inform the user. ''
     @ ''Wait for the user to run '' @ [CHR 0x27] @ ''opp start'' @ [CHR 0x27]
     @ '' with the same account selection and confirm completion. Do not retry or run ''
     @ [CHR 0x27] @ ''opp start'' @ [CHR 0x27] @ '' yourself.'')"

definition INCOMPATIBLE :: bytes where
  "INCOMPATIBLE = line (''opp: incompatible broker protocol; run '' @ [CHR 0x27] @ ''opp stop'' @ [CHR 0x27]
     @ '' and restart the broker.'')"

definition lifecycle_error :: "host \<Rightarrow> bytes \<Rightarrow> i32 client_act" where
  "lifecycle_error h message c = (1, snd (write_stderr h message c))"

definition exec_error :: "host \<Rightarrow> i32 \<Rightarrow> bytes \<Rightarrow> i32 client_act" where
  "exec_error h code message c = (code, snd (write_stderr h message c))"

definition authorization_required :: "host \<Rightarrow> i32 client_act" where
  "authorization_required h c = (77, snd (write_stderr h AUTHORIZATION_REQUIRED c))"

definition lifecycle_response :: "host \<Rightarrow> response \<Rightarrow> i32 client_act" where
  "lifecycle_response h response c =
     (case response of
        RespOk \<Rightarrow> (0, c)
      | RespError AuthorizationFailed \<Rightarrow>
          lifecycle_error h (line ''opp: 1Password authorization failed or was cancelled.'') c
      | RespError OpPathMismatch \<Rightarrow>
          lifecycle_error h (line (''opp: the running broker uses a different '' @ [CHR 0x27] @ ''op'' @ [CHR 0x27]
            @ '' executable; stop it first.'')) c
      | RespError _ \<Rightarrow> lifecycle_error h (line ''opp: broker operation failed.'') c
      | _ \<Rightarrow> lifecycle_error h (line ''opp: invalid broker response.'') c)"

text \<open>\<^verbatim>\<open>error.kind() == ErrorKind::Unsupported\<close> or another error.\<close>

definition lifecycle_failure :: "host \<Rightarrow> string \<Rightarrow> io_error \<Rightarrow> i32 client_act" where
  "lifecycle_failure h message e =
     (if error_kind e = Unsupported then lifecycle_error h INCOMPATIBLE else lifecycle_error h (line message))"

section \<open>Finding op\<close>

definition EXECUTE_BITS :: u32 where "EXECUTE_BITS = 73"

definition executable_file :: "metadata \<Rightarrow> bool" where
  "executable_file m \<longleftrightarrow> file_type m = RegularFile \<and> and (mode m) EXECUTE_BITS \<noteq> 0"

definition is_file :: "host \<Rightarrow> bytes \<Rightarrow> bool client_act" where
  "is_file h p c =
     (case consult (\<lambda>n. h_metadata h n p) c of (m, c') \<Rightarrow>
        (case m of Inl _ \<Rightarrow> False | Inr m \<Rightarrow> file_type m = RegularFile, c'))"

definition is_executable :: "host \<Rightarrow> bytes \<Rightarrow> bool client_act" where
  "is_executable h p c =
     (case consult (\<lambda>n. h_metadata h n p) c of (m, c') \<Rightarrow>
        (case m of Inl _ \<Rightarrow> False | Inr m \<Rightarrow> executable_file m, c'))"

text \<open>\<^verbatim>\<open>std::env::split_paths\<close>: the components between colons.\<close>

fun split_paths :: "bytes \<Rightarrow> bytes list" where
  "split_paths [] = [[]]"
| "split_paths (b # bs) =
     (if b = 58 then [] # split_paths bs
      else (case split_paths bs of [] \<Rightarrow> [[b]] | p # ps \<Rightarrow> (b # p) # ps))"

fun find_candidate :: "host \<Rightarrow> bytes \<Rightarrow> bytes list \<Rightarrow> bytes io_result client_act" where
  "find_candidate h name [] c = (Inl (Simple NotFound ''op not found''), c)"
| "find_candidate h name (dir # rest) c =
     (let candidate = path_join dir name in
      case is_file h candidate c of
        (False, c1) \<Rightarrow> find_candidate h name rest c1
      | (True, c1) \<Rightarrow>
          (case is_executable h candidate c1 of
             (False, c2) \<Rightarrow> find_candidate h name rest c2
           | (True, c2) \<Rightarrow> (Inr candidate, c2)))"

definition find_in_path :: "host \<Rightarrow> bytes \<Rightarrow> bytes io_result client_act" where
  "find_in_path h name c =
     (case h_path h of
        None \<Rightarrow> (Inl (Simple NotFound ''PATH is not set''), c)
      | Some path \<Rightarrow> find_candidate h name (split_paths path) c)"

definition canonical_executable :: "host \<Rightarrow> bytes \<Rightarrow> bytes io_result client_act" where
  "canonical_executable h path c =
     (case h_canonicalize h path of
        Inl e \<Rightarrow> (Inl e, c)
      | Inr p \<Rightarrow>
          (case consult (\<lambda>n. h_metadata h n p) c of
             (Inl e, c') \<Rightarrow> (Inl e, c')
           | (Inr m, c') \<Rightarrow>
               if \<not> executable_file m
               then (Inl (Simple PermissionDenied ''op is not a regular executable''), c')
               else
                 (case to_str p of
                    None \<Rightarrow> (Inl (invalid ''op path is not UTF-8''), c')
                  | Some s \<Rightarrow> (Inr s, c'))))"

definition resolve_op :: "host \<Rightarrow> bytes option \<Rightarrow> bytes io_result client_act" where
  "resolve_op h explicit_op c =
     (case explicit_op of
        Some path \<Rightarrow>
          if \<not> is_absolute path
          then (Inl (Simple InvalidInput ''explicit op path is not absolute''), c)
          else canonical_executable h path c
      | None \<Rightarrow>
          (case find_in_path h (ascii ''op'') c of
             (Inl e, c') \<Rightarrow> (Inl e, c')
           | (Inr path, c') \<Rightarrow> canonical_executable h path c'))"

section \<open>Connecting\<close>

definition load_paths :: "host \<Rightarrow> runtime_paths io_result" where
  "load_paths h = bind_result (h_user h) (\<lambda>user. Inr (for_user user))"

text \<open>\<^verbatim>\<open>UnixStream::connect\<close>.\<close>

definition connect_socket :: "host \<Rightarrow> runtime_paths \<Rightarrow> stream io_result client_act" where
  "connect_socket h paths c =
     (case consult (\<lambda>n. h_connect h n (socket_path paths)) c of (r, c') \<Rightarrow>
        (r, perform (Connect (socket_path paths)) c'))"

definition connect :: "host \<Rightarrow> runtime_paths \<Rightarrow> stream option io_result client_act" where
  "connect h paths c =
     (case connect_socket h paths c of
        (Inr st, c') \<Rightarrow> (bind_result (client_negotiate (h_socket h) st) (\<lambda>st'. Inr (Some st')), c')
      | (Inl e, c') \<Rightarrow> (if is_absent_socket_error e then Inr None else Inl e, c'))"

text \<open>The loop ends when a broker answers, at the deadline, or on another error.\<close>

partial_function (option) connect_until ::
  "host \<Rightarrow> runtime_paths \<Rightarrow> nat \<Rightarrow> client \<Rightarrow> (stream io_result \<times> client) option" where
  "connect_until h paths deadline c =
     (case connect h paths c of
        (Inr (Some st), c') \<Rightarrow> Some (Inr st, c')
      | (Inl e, c') \<Rightarrow> Some (Inl e, c')
      | (Inr None, c') \<Rightarrow>
          (case consult (h_now h) c' of (now, c'') \<Rightarrow>
             if now < deadline then connect_until h paths deadline c''
             else Some (Inl (Simple TimedOut ''broker startup timed out''), c'')))"

definition connect_soon :: "host \<Rightarrow> runtime_paths \<Rightarrow> client \<Rightarrow> (stream io_result \<times> client) option" where
  "connect_soon h paths c =
     (case consult (h_now h) c of (now, c') \<Rightarrow> connect_until h paths (now + from_secs 5) c')"

text \<open>
  The broker is started with its own end of a socket pair as standard input, an empty environment and nothing else of the
  client's.
\<close>

definition spawn_broker ::
  "host \<Rightarrow> runtime_paths \<Rightarrow> bytes \<Rightarrow> client \<Rightarrow> (unit io_result \<times> client) option" where
  "spawn_broker h paths op_path c =
     (let parent_end = bind_result (h_pair h) (\<lambda>parent.
            bind_result (raw_unit (h_pair_timeouts h)) (\<lambda>_.
            bind_result (h_current_exe h) (\<lambda>executable. Inr (parent, executable)))) in
      case parent_end of
        Inl e \<Rightarrow> Some (Inl e, c)
      | Inr (parent, executable) \<Rightarrow>
          (let c1 = perform (SpawnBroker executable [INTERNAL_BROKER_ARGUMENT]) c;
               answer =
                 bind_result (raw_unit (h_spawn h executable [INTERNAL_BROKER_ARGUMENT])) (\<lambda>_.
                 bind_result (write_startup_configuration (h_socket h) parent op_path) read_startup_result)
           in
           case answer of
             Inl e \<Rightarrow> Some (Inl e, c1)
           | Inr (StartupReady, _) \<Rightarrow> Some (Inr (), c1)
           | Inr (StartupExisting, _) \<Rightarrow>
               map_option (\<lambda>(r, c2). (bind_result r (\<lambda>_. Inr ()), c2)) (connect_soon h paths c1)
           | Inr (StartupFailed, _) \<Rightarrow> Some (Inl (Simple OtherKind ''broker startup failed''), c1)))"

definition send :: "host \<Rightarrow> stream \<Rightarrow> request \<Rightarrow> stream io_result client_act" where
  "send h st r c = (send_request (h_socket h) st r, perform (SendRequest r) c)"

definition transact :: "host \<Rightarrow> stream \<Rightarrow> request \<Rightarrow> (response \<times> stream) io_result client_act" where
  "transact h st r c =
     (case send h st r c of (sent, c') \<Rightarrow> (bind_result sent (receive_response (h_socket h)), c'))"

section \<open>start\<close>

definition start_existing ::
  "host \<Rightarrow> stream \<Rightarrow> account \<Rightarrow> bytes \<Rightarrow> client_context \<Rightarrow> i32 client_act" where
  "start_existing h st account op_path ctx c =
     (case send h st (ReqStart False account op_path ctx) c of
        (Inl e, c1) \<Rightarrow> lifecycle_failure h ''opp: broker communication failed.'' e c1
      | (Inr st1, c1) \<Rightarrow>
          (case receive_response (h_socket h) st1 of
             Inl _ \<Rightarrow> lifecycle_error h (line ''opp: broker communication failed.'') c1
           | Inr (response, st2) \<Rightarrow>
               if response = RespNeedWarning then
                 (case write_stderr h WARNING c1 of
                    (False, c2) \<Rightarrow> (1, c2)
                  | (True, c2) \<Rightarrow>
                      (case transact h st2 (ReqStart True account op_path ctx) c2 of
                         (Inl _, c3) \<Rightarrow> lifecycle_error h (line ''opp: broker communication failed.'') c3
                       | (Inr (response', _), c3) \<Rightarrow> lifecycle_response h response' c3))
               else lifecycle_response h response c1))"

text \<open>No broker answers: the warning, a new broker, and the warned request.\<close>

definition start_new ::
  "host \<Rightarrow> runtime_paths \<Rightarrow> account \<Rightarrow> bytes \<Rightarrow> client_context \<Rightarrow> client \<Rightarrow> (i32 \<times> client) option" where
  "start_new h paths account op_path ctx c =
     (case write_stderr h WARNING c of
        (False, c1) \<Rightarrow> Some (1, c1)
      | (True, c1) \<Rightarrow>
          Option.bind (spawn_broker h paths op_path c1) (\<lambda>(spawned, c2).
            case spawned of
              Inl e \<Rightarrow> Some (lifecycle_failure h ''opp: the broker failed to start.'' e c2)
            | Inr _ \<Rightarrow>
                Option.bind (connect_soon h paths c2) (\<lambda>(connected, c3).
                  case connected of
                    Inl _ \<Rightarrow> Some (lifecycle_error h (line ''opp: the broker failed to become ready.'') c3)
                  | Inr st \<Rightarrow>
                      (case transact h st (ReqStart True account op_path ctx) c3 of
                         (Inr (response, _), c4) \<Rightarrow> Some (lifecycle_response h response c4)
                       | (Inl e, c4) \<Rightarrow> Some (lifecycle_failure h ''opp: broker communication failed.'' e c4)))))"

definition client_start_command ::
  "host \<Rightarrow> account \<Rightarrow> bytes option \<Rightarrow> client \<Rightarrow> (i32 \<times> client) option" where
  "client_start_command h account op c =
     (case resolve_op h op c of
        (Inl _, c1) \<Rightarrow> Some (lifecycle_error h (line (''opp: could not resolve a canonical executable ''
          @ [CHR 0x27] @ ''op'' @ [CHR 0x27] @ ''.'')) c1)
      | (Inr op_path, c1) \<Rightarrow>
          (case capture (h_current_dir h) (h_vars h) of
             Inl _ \<Rightarrow> Some (lifecycle_error h (line ''opp: could not read the invoking process context.'') c1)
           | Inr ctx \<Rightarrow>
               (case load_paths h of
                  Inl _ \<Rightarrow> Some (lifecycle_error h (line ''opp: could not determine the broker runtime path.'') c1)
                | Inr paths \<Rightarrow>
                    (case connect h paths c1 of
                       (Inr (Some st), c2) \<Rightarrow> Some (start_existing h st account op_path ctx c2)
                     | (Inr None, c2) \<Rightarrow> start_new h paths account op_path ctx c2
                     | (Inl e, c2) \<Rightarrow> Some (lifecycle_failure h ''opp: broker communication failed.'' e c2)))))"

section \<open>status and stop\<close>

definition write_status_object :: "host \<Rightarrow> bytes \<Rightarrow> i32 client_act" where
  "write_status_object h json c =
     (case write_stdout h (json @ newline) c of (ok, c') \<Rightarrow> (if ok then 0 else 1, c'))"

definition write_status :: "host \<Rightarrow> formatting \<Rightarrow> status \<Rightarrow> i32 client_act" where
  "write_status h fm st c =
     (case status_json fm st of
        Inr json \<Rightarrow> write_status_object h json c
      | Inl _ \<Rightarrow> lifecycle_error h (line ''opp: could not encode status.'') c)"

definition client_status_command :: "host \<Rightarrow> formatting \<Rightarrow> account \<Rightarrow> i32 client_act" where
  "client_status_command h fm account c =
     (case load_paths h of
        Inl _ \<Rightarrow> lifecycle_error h (line ''opp: could not determine the broker runtime path.'') c
      | Inr paths \<Rightarrow>
          (case connect h paths c of
             (Inr None, c1) \<Rightarrow> write_status h fm status_stopped c1
           | (Inl e, c1) \<Rightarrow> lifecycle_failure h ''opp: broker communication failed.'' e c1
           | (Inr (Some st), c1) \<Rightarrow>
               (case transact h st (ReqStatus account) c1 of
                  (Inr (RespStatus json, _), c2) \<Rightarrow>
                    if \<not> valid_json fm json
                    then lifecycle_error h (line ''opp: status request failed.'') c2
                    else write_status_object h json c2
                | (_, c2) \<Rightarrow> lifecycle_error h (line ''opp: status request failed.'') c2)))"

definition client_stop_command :: "host \<Rightarrow> i32 client_act" where
  "client_stop_command h c =
     (case load_paths h of
        Inl _ \<Rightarrow> lifecycle_error h (line ''opp: could not determine the broker runtime path.'') c
      | Inr paths \<Rightarrow>
          (case connect_socket h paths c of
             (Inl e, c1) \<Rightarrow>
               if is_absent_socket_error e then (0, c1)
               else lifecycle_error h (line ''opp: broker communication failed.'') c1
           | (Inr st, c1) \<Rightarrow>
               (let c2 = perform SendStop c1 in
                case bind_result (write_all (h_socket h) STOP_REQUEST st) (read_exact 8) of
                  Inr (response, _) \<Rightarrow>
                    if response = STOP_RESPONSE then (0, c2)
                    else lifecycle_error h (line ''opp: broker stop failed.'') c2
                | Inl _ \<Rightarrow> lifecycle_error h (line ''opp: broker stop failed.'') c2)))"

section \<open>exec\<close>

text \<open>The three pipes: the child's ends, in the order of the descriptors.\<close>

definition make_pipes :: "host \<Rightarrow> (fd \<times> fd \<times> fd) io_result client_act" where
  "make_pipes h c =
     (case consult (h_pipe h) c of (p0, c1) \<Rightarrow>
        (case p0 of
           Inl e \<Rightarrow> (Inl e, c1)
         | Inr (child_stdin, _) \<Rightarrow>
             (case consult (h_pipe h) c1 of (p1, c2) \<Rightarrow>
                (case p1 of
                   Inl e \<Rightarrow> (Inl e, c2)
                 | Inr (_, child_stdout) \<Rightarrow>
                     (case consult (h_pipe h) c2 of (p2, c3) \<Rightarrow>
                        (case p2 of
                           Inl e \<Rightarrow> (Inl e, c3)
                         | Inr (_, child_stderr) \<Rightarrow> (Inr (child_stdin, child_stdout, child_stderr), c3)))))))"

text \<open>An event whose sending fails is lost; the response is awaited anyway.\<close>

definition send_event :: "host \<Rightarrow> client_event \<Rightarrow> stream \<Rightarrow> client \<Rightarrow> stream \<times> client" where
  "send_event h event st c =
     (case send_client_event (h_socket h) st event of Inl _ \<Rightarrow> st | Inr st' \<Rightarrow> st', perform (SendEvent event) c)"

text \<open>
  The events of a run: a signal that arrives early cancels before the streams are reported closed, a late one after. The
  third component is the signal that the exit code is computed with, \<open>0\<close> if there is none.
\<close>

definition send_events :: "host \<Rightarrow> stream \<Rightarrow> client \<Rightarrow> stream \<times> client \<times> i32" where
  "send_events h st c =
     (case (if h_block_signals h then h_signal h else NoSignal) of
        NoSignal \<Rightarrow> (case send_event h StreamsClosed st c of (st1, c1) \<Rightarrow> (st1, c1, 0))
      | SignalEarly signal \<Rightarrow>
          (case send_event h (CancelEvent signal) st c of (st1, c1) \<Rightarrow>
             (case send_event h StreamsClosed st1 c1 of (st2, c2) \<Rightarrow> (st2, c2, signal)))
      | SignalLate signal \<Rightarrow>
          (case send_event h StreamsClosed st c of (st1, c1) \<Rightarrow>
             (case send_event h (CancelEvent signal) st1 c1 of (st2, c2) \<Rightarrow> (st2, c2, signal))))"

definition report_diagnostic :: "host \<Rightarrow> diagnostic \<Rightarrow> client \<Rightarrow> client" where
  "report_diagnostic h d c =
     (case d of
        DiagNone \<Rightarrow> c
      | DiagTimeout \<Rightarrow> snd (write_stderr h (line ''opp: command timed out.'') c)
      | DiagInternal \<Rightarrow> snd (write_stderr h (line ''opp: command execution failed.'') c))"

definition exec_response :: "host \<Rightarrow> i32 \<Rightarrow> response io_result \<Rightarrow> i32 client_act" where
  "exec_response h signal response c =
     (case response of
        Inr (RespExec exit_code diagnostic) \<Rightarrow> (exit_code, report_diagnostic h diagnostic c)
      | Inr (RespError AuthorizationRequired) \<Rightarrow> authorization_required h c
      | Inr (RespError Cancelled) \<Rightarrow>
          if 0 <s signal then (128 + signal, c) else exec_error h 125 (line ''opp: command was cancelled.'') c
      | Inr (RespError _) \<Rightarrow> exec_error h 125 (line ''opp: command execution failed.'') c
      | _ \<Rightarrow> exec_error h 125 (line ''opp: broker communication failed.'') c)"

text \<open>
  From the request on. The copying threads of the two output streams are joined before the streams are reported closed;
  when one of them never ends, neither does the command. An early signal is reported by its own thread meanwhile.
\<close>

definition forward_output :: "host \<Rightarrow> (unit io_result \<times> unit io_result) option" where
  "forward_output h =
     Option.bind (copy_thread_outcome copy_stdout (h_stdout_thread h)) (\<lambda>out.
     Option.bind (copy_thread_outcome copy_stderr (h_stderr_thread h)) (\<lambda>err.
       Some (join_copy_thread out ''stdout thread panicked'', join_copy_thread err ''stderr thread panicked'')))"

definition run_request :: "host \<Rightarrow> stream \<Rightarrow> request \<Rightarrow> client \<Rightarrow> (i32 \<times> client) option" where
  "run_request h st request c =
     (case send h st request c of
        (Inl _, c1) \<Rightarrow> Some (exec_error h 125 (line ''opp: broker communication failed.'') c1)
      | (Inr st1, c1) \<Rightarrow>
          (if h_clone h \<noteq> None then Some (exec_error h 125 (line ''opp: broker communication failed.'') c1)
           else
             Option.bind (forward_output h) (\<lambda>(stdout_result, stderr_result).
               case send_events h st1 c1 of (st2, c2, signal) \<Rightarrow>
                 Some
                   (if \<not> (is_ok stdout_result \<and> is_ok stderr_result)
                    then exec_error h 125 (line ''opp: standard-stream forwarding failed.'') c2
                    else exec_response h signal (map_sum id fst (receive_response (h_socket h) st2)) c2))))"

definition client_execute_command ::
  "host \<Rightarrow> account \<Rightarrow> duration \<Rightarrow> bytes list \<Rightarrow> client \<Rightarrow> (i32 \<times> client) option" where
  "client_execute_command h account timeout arguments c =
     (case load_paths h of
        Inl _ \<Rightarrow> Some (exec_error h 125 (line ''opp: could not determine the broker runtime path.'') c)
      | Inr paths \<Rightarrow>
          (case connect h paths c of
             (Inr None, c1) \<Rightarrow> Some (authorization_required h c1)
           | (Inl e, c1) \<Rightarrow>
               if error_kind e = Unsupported then Some (exec_error h 125 INCOMPATIBLE c1)
               else Some (exec_error h 125 (line ''opp: broker communication failed.'') c1)
           | (Inr (Some st), c1) \<Rightarrow>
               (case capture (h_current_dir h) (h_vars h) of
                  Inl _ \<Rightarrow> Some (exec_error h 125 (line ''opp: could not read the invoking process context.'') c1)
                | Inr ctx \<Rightarrow>
                    (case make_pipes h c1 of
                       (Inl _, c2) \<Rightarrow> Some (exec_error h 125 (line ''opp: could not create command pipes.'') c2)
                     | (Inr fds, c2) \<Rightarrow>
                         run_request h st
                           (ReqExec account (u64_from_nat_or timeout u64_max) arguments ctx fds) c2))))"

section \<open>The process\<close>

definition usage_error :: "host \<Rightarrow> string \<Rightarrow> i32 client_act" where
  "usage_error h message c =
     (2, snd (write_stderr h (line (''Try '' @ [CHR 0x27] @ ''opp --help'' @ [CHR 0x27] @ ''.''))
       (snd (write_stderr h (line (''opp: '' @ message)) c))))"

definition print_text :: "host \<Rightarrow> bytes \<Rightarrow> i32 client_act" where
  "print_text h bs c = (case write_stdout h bs c of (ok, c') \<Rightarrow> (if ok then 0 else 1, c'))"

text \<open>\<^verbatim>\<open>run_internal\<close> of \<^verbatim>\<open>src/broker.rs\<close>: the exit code of the internal broker, from the result of \<^verbatim>\<open>run_internal_result\<close>.\<close>

definition run_internal :: "unit io_result \<Rightarrow> i32" where
  "run_internal result = (case result of Inr _ \<Rightarrow> 0 | Inl _ \<Rightarrow> 1)"

text \<open>\<open>internal\<close> is the exit code of the internal broker, which is not a client.\<close>

definition perform_task :: "host \<Rightarrow> formatting \<Rightarrow> i32 \<Rightarrow> task \<Rightarrow> client \<Rightarrow> (i32 \<times> client) option" where
  "perform_task h fm internal t c =
     (case t of
        RunBroker \<Rightarrow> Some (internal, c)
      | Exit code \<Rightarrow> Some (code, c)
      | Print bs \<Rightarrow> Some (print_text h bs c)
      | UsageError message \<Rightarrow> Some (usage_error h message c)
      | ClientStart account op \<Rightarrow> client_start_command h account op c
      | ClientStatus account \<Rightarrow> Some (client_status_command h fm account c)
      | ClientStop \<Rightarrow> Some (client_stop_command h c)
      | ClientExecute account timeout arguments \<Rightarrow> client_execute_command h account timeout arguments c)"

text \<open>
  The whole process (\<^verbatim>\<open>src/lib.rs\<close> and \<^verbatim>\<open>src/main.rs\<close>): the arguments, the exit code and what the process did. Its value is
  \<open>None\<close> when the process does not exit.
\<close>

definition opp_main ::
  "host \<Rightarrow> formatting \<Rightarrow> unit io_result \<Rightarrow> bytes \<Rightarrow> bytes option \<Rightarrow> bytes list \<Rightarrow> (i32 \<times> client) option" where
  "opp_main h fm broker version op_account argv =
     perform_task h fm (run_internal broker) (Cli.run version op_account argv) client_start"

end
