(* ===== verification/Contract.thy ===== *)
theory Contract
  imports Client Transport
begin

text \<open>
  What the client commands promise: what they do to the world, in which order, and what their exit codes mean.
\<close>

section \<open>Deeds\<close>

lemma consult_eq [simp]: "consult f c = (f (asked c), c\<lparr>asked := Suc (asked c)\<rparr>)"
  by (simp add: consult_def)

lemma deeds_simps [simp]:
  "deeds (perform d c) = deeds c @ [d]" "deeds (c\<lparr>asked := n\<rparr>) = deeds c" "asked (perform d c) = asked c"
  by (simp_all add: perform_def)

lemma write_stderr_eq [simp]:
  "write_stderr h bs c =
    (h_stderr h (asked c) bs, perform (Stderr bs (h_stderr h (asked c) bs)) (c\<lparr>asked := Suc (asked c)\<rparr>))"
  by (simp add: write_stderr_def)

lemma write_stdout_eq [simp]:
  "write_stdout h bs c =
    (h_stdout h (asked c) bs, perform (Stdout bs (h_stdout h (asked c) bs)) (c\<lparr>asked := Suc (asked c)\<rparr>))"
  by (simp add: write_stdout_def)

lemma connect_deeds: "connect h paths c = (r, c') \<Longrightarrow> deeds c' = deeds c @ [Connect (socket_path paths)]"
  by (auto simp: connect_def connect_socket_def split: sum.splits)

text \<open>Only messages to the user and events to the broker.\<close>

fun minor :: "deed \<Rightarrow> bool" where
  "minor (Stderr bs ok) = True"
| "minor (SendEvent ev) = True"
| "minor _ = False"

definition adds :: "client \<Rightarrow> deed list \<Rightarrow> client \<Rightarrow> bool" where
  "adds c ds c' \<longleftrightarrow> (\<exists>es. deeds c' = deeds c @ ds @ es \<and> list_all minor es)"

lemma adds_refl [simp]: "adds c [] c"
  by (simp add: adds_def)

lemma addsI: "deeds c' = deeds c @ ds @ es \<Longrightarrow> list_all minor es \<Longrightarrow> adds c ds c'"
  by (auto simp: adds_def)

lemma adds_minor: "adds c ds c1 \<Longrightarrow> adds c1 [] c2 \<Longrightarrow> adds c ds c2"
  by (auto simp: adds_def)

lemma adds_error:
  "exec_error h n bs c = (code, c') \<Longrightarrow> code = n \<and> adds c [] c'"
  "lifecycle_error h bs c = (code, c') \<Longrightarrow> code = 1 \<and> adds c [] c'"
  "authorization_required h c = (code, c') \<Longrightarrow> code = 77 \<and> adds c [] c'"
  by (auto simp: exec_error_def lifecycle_error_def authorization_required_def adds_def)

section \<open>exec\<close>

lemma send_frame_incoming: "send_frame so st k p ds = Inr st' \<Longrightarrow> incoming st' = incoming st"
  by (auto simp: send_frame_def sendmsg_def write_all_def Let_def result_simps split: if_splits option.splits sum.splits)

lemma send_incoming:
  "send_request so st r = Inr st' \<Longrightarrow> incoming st' = incoming st"
  "send_client_event so st ev = Inr st' \<Longrightarrow> incoming st' = incoming st"
  by (auto simp: send_request_def send_client_event_def result_simps dest: send_frame_incoming)

lemma negotiate_incoming: "client_negotiate so st = Inr st' \<Longrightarrow> incoming st' = drop 8 (incoming st)"
  by (auto simp: client_negotiate_def read_exact_def write_all_def result_simps split: if_splits option.splits)

lemma send_event_eq:
  "send_event h ev st c = (st', c') \<Longrightarrow> incoming st' = incoming st \<and> adds c [] c'"
  by (auto simp: send_event_def adds_def dest: send_incoming(2) split: sum.splits)

text \<open>The signal that an exit code may be computed with.\<close>

definition signalled :: "host \<Rightarrow> i32 \<Rightarrow> bool" where
  "signalled h signal \<longleftrightarrow> h_block_signals h \<and> h_signal h \<in> {SignalEarly signal, SignalLate signal}"

lemma send_events_eq:
  assumes "send_events h st c = (st', c', signal)"
  shows "incoming st' = incoming st \<and> adds c [] c' \<and> (signal = 0 \<or> signalled h signal)"
  using assms
  by (auto simp: send_events_def signalled_def split: signal_arrival.splits prod.splits if_splits
      dest!: send_event_eq elim: adds_minor)

text \<open>What the exit code says about the broker's response.\<close>

definition answers :: "host \<Rightarrow> i32 \<Rightarrow> response \<Rightarrow> bool" where
  "answers h code r \<longleftrightarrow>
     (\<exists>d. r = RespExec code d) \<or> (r = RespError AuthorizationRequired \<and> code = 77) \<or>
     (r = RespError Cancelled \<and> (\<exists>signal. signalled h signal \<and> code = 128 + signal))"

lemma exec_response_eq:
  assumes "exec_response h signal response c = (code, c')" and "signal = 0 \<or> signalled h signal"
  shows "adds c [] c' \<and> (code = 125 \<or> (\<exists>r. response = Inr r \<and> answers h code r))"
  using assms
  by (auto simp: exec_response_def answers_def report_diagnostic_def adds_def exec_error_def authorization_required_def
      split: sum.splits response.splits error_code.splits diagnostic.splits if_splits)

lemma run_request_eq:
  assumes "run_request h st request c = Some (code, c')"
  shows "adds c [SendRequest request] c' \<and>
    (code = 125 \<or> forward_output h = Some (Inr (), Inr ()) \<and>
       (\<exists>t r t'. incoming t = incoming st \<and> receive_response (h_socket h) t = Inr (r, t') \<and> answers h code r))"
proof -
  obtain sent c1 where s: "send h st request c = (sent, c1)" by fastforce
  have c1: "adds c [SendRequest request] c1" using s by (auto simp: send_def adds_def)
  show ?thesis
  proof (cases sent)
    case (Inl e)
    with assms s c1 show ?thesis by (auto simp: run_request_def dest!: adds_error elim: adds_minor)
  next
    case (Inr st1)
    have st1: "incoming st1 = incoming st" using s Inr by (auto simp: send_def dest: send_incoming)
    obtain st2 c2 signal where ev: "send_events h st1 c1 = (st2, c2, signal)" by (cases "send_events h st1 c1") auto
    note ev' = send_events_eq [OF ev]
    show ?thesis
    proof (cases "h_clone h = None")
      case False
      with assms s Inr c1 show ?thesis by (auto simp: run_request_def dest!: adds_error elim: adds_minor)
    next
      case True
      with assms s Inr obtain out err where fwd: "forward_output h = Some (out, err)"
        by (auto simp: run_request_def bind_eq_Some_conv)
      show ?thesis
      proof (cases "is_ok out \<and> is_ok err")
        case ok: True
        then have "exec_response h signal (map_sum id fst (receive_response (h_socket h) st2)) c2 = (code, c')"
          using assms s Inr ev True fwd by (simp add: run_request_def)
        moreover have "forward_output h = Some (Inr (), Inr ())" using fwd ok by (auto simp: is_ok_def split: sum.splits)
        ultimately show ?thesis using exec_response_eq ev' c1 st1
          by (cases "receive_response (h_socket h) st2") (fastforce elim: adds_minor)+
      next
        case err: False
        then have "exec_error h 125 (line ''opp: standard-stream forwarding failed.'') c2 = (code, c')"
          using assms s Inr ev True fwd by (auto simp: run_request_def)
        with c1 ev' show ?thesis by (auto dest!: adds_error elim: adds_minor)
      qed
    qed
  qed
qed

lemma run_request_returns:
  assumes "source_ends (h_stdout_thread h)" and "source_ends (h_stderr_thread h)"
  shows "\<exists>r. run_request h st request c = Some r"
proof -
  obtain out err where "forward_output h = Some (out, err)"
    using copy_thread_returns [OF assms(1)] copy_thread_returns [OF assms(2)] by (auto simp: forward_output_def)
  then show ?thesis by (auto simp: run_request_def split: sum.splits prod.splits)
qed

lemma connect_cases:
  assumes "connect h paths c = (r, c')"
  shows "deeds c' = deeds c @ [Connect (socket_path paths)] \<and>
    (r = Inr None \<longrightarrow> (\<exists>e. h_connect h (asked c) (socket_path paths) = Inl e \<and> is_absent_socket_error e)) \<and>
    (\<forall>st. r = Inr (Some st) \<longrightarrow>
      (\<exists>conn. h_connect h (asked c) (socket_path paths) = Inr conn \<and> incoming st = drop 8 (incoming conn)))"
  using assms
  by (auto simp: connect_def connect_socket_def result_simps dest: negotiate_incoming split: sum.splits if_splits)

lemma make_pipes_deeds: "make_pipes h c = (r, c') \<Longrightarrow> deeds c' = deeds c"
  by (auto simp: make_pipes_def split: sum.splits prod.splits)

text \<open>The requests among some deeds, and what only \<^verbatim>\<open>opp start\<close> and \<^verbatim>\<open>opp stop\<close> do.\<close>

fun requests :: "deed list \<Rightarrow> request list" where
  "requests [] = []"
| "requests (SendRequest r # ds) = r # requests ds"
| "requests (_ # ds) = requests ds"

fun changes_broker :: "deed \<Rightarrow> bool" where
  "changes_broker (SpawnBroker executable arguments) = True"
| "changes_broker SendStop = True"
| "changes_broker (SendRequest (ReqStart warned account op_path ctx)) = True"
| "changes_broker _ = False"

lemma requests_append [simp]: "requests (xs @ ys) = requests xs @ requests ys"
  by (induction xs rule: requests.induct) auto

lemma minor_deeds: "list_all minor es \<Longrightarrow> requests es = [] \<and> list_ex changes_broker es = False"
  by (induction es rule: requests.induct) auto

lemma exec_deeds:
  assumes "client_execute_command h a t xs c = Some (code, c')"
  shows "\<exists>ds. deeds c' = deeds c @ ds \<and> \<not> list_ex changes_broker ds \<and>
    (requests ds = [] \<and>
       (code = 125 \<or> code = 77 \<and> (\<exists>p e. h_connect h (asked c) p = Inl e \<and> is_absent_socket_error e)) \<or>
     (\<exists>ctx fds. requests ds = [ReqExec a (u64_from_nat_or t u64_max) xs ctx fds] \<and>
       (code = 125 \<or> forward_output h = Some (Inr (), Inr ()) \<and>
        (\<exists>p conn st r st'. h_connect h (asked c) p = Inr conn \<and> incoming st = drop 8 (incoming conn) \<and>
           receive_response (h_socket h) st = Inr (r, st') \<and> answers h code r))))"
    (is "\<exists>ds. ?P ds")
proof -
  have none: "\<exists>ds. ?P ds" if "deeds c' = deeds c @ map Connect ps @ es" "list_all minor es"
    "code = 125 \<or> code = 77 \<and> (\<exists>p e. h_connect h (asked c) p = Inl e \<and> is_absent_socket_error e)" for ps es
  proof -
    have "requests (map Connect ps) = [] \<and> \<not> list_ex changes_broker (map Connect ps)" by (induction ps) auto
    with that minor_deeds [OF that(2)] show ?thesis by (intro exI [of _ "map Connect ps @ es"]) auto
  qed
  show ?thesis
  proof (cases "load_paths h")
    case (Inl e)
    with assms have "code = 125 \<and> adds c [] c'"
      by (auto simp: client_execute_command_def dest!: adds_error)
    then obtain es where "deeds c' = deeds c @ es" "list_all minor es" "code = 125" by (auto simp: adds_def)
    with none [of "[]" es] show ?thesis by simp
  next
    case paths: (Inr paths)
    obtain r c1 where connected: "connect h paths c = (r, c1)" by fastforce
    note con = connect_cases [OF connected]
    have failed: ?thesis if "adds c1 [] c'"
      "code = 125 \<or> code = 77 \<and> (\<exists>p e. h_connect h (asked c) p = Inl e \<and> is_absent_socket_error e)"
    proof -
      from that(1) obtain es where "deeds c' = deeds c1 @ es" "list_all minor es" unfolding adds_def by auto
      with none [of "[socket_path paths]" es] con that(2) show ?thesis by simp
    qed
    show ?thesis
    proof (cases "\<exists>st ctx fds c2. r = Inr (Some st) \<and> capture (h_current_dir h) (h_vars h) = Inr ctx \<and>
        make_pipes h c1 = (Inr fds, c2)")
      case False
      with assms paths connected con have "adds c1 [] c' \<and>
          (code = 125 \<or> code = 77 \<and> (\<exists>p e. h_connect h (asked c) p = Inl e \<and> is_absent_socket_error e))"
        by (auto simp: client_execute_command_def adds_def
            dest!: adds_error make_pipes_deeds split: sum.splits option.splits prod.splits if_splits)
      with failed show ?thesis by blast
    next
      case True
      then obtain st ctx fds c2 where ok: "r = Inr (Some st)" "capture (h_current_dir h) (h_vars h) = Inr ctx"
        "make_pipes h c1 = (Inr fds, c2)" by blast
      let ?request = "ReqExec a (u64_from_nat_or t u64_max) xs ctx fds"
      have "run_request h st ?request c2 = Some (code, c')"
        using assms paths connected ok by (simp add: client_execute_command_def)
      from run_request_eq [OF this] obtain es where es: "deeds c' = deeds c2 @ SendRequest ?request # es"
        "list_all minor es" and code: "code = 125 \<or> forward_output h = Some (Inr (), Inr ()) \<and>
          (\<exists>t r t'. incoming t = incoming st \<and> receive_response (h_socket h) t = Inr (r, t') \<and> answers h code r)"
        by (auto simp: adds_def)
      have "deeds c' = deeds c @ Connect (socket_path paths) # SendRequest ?request # es"
        using es(1) con make_pipes_deeds [OF ok(3)] by simp
      with es(2) code con ok(1) minor_deeds [OF es(2)] show ?thesis
        by (intro exI [of _ "Connect (socket_path paths) # SendRequest ?request # es"]) fastforce
    qed
  qed
qed

lemma exec_returns:
  assumes "source_ends (h_stdout_thread h)" and "source_ends (h_stderr_thread h)"
  shows "\<exists>r. client_execute_command h a t xs c = Some r"
  using run_request_returns [OF assms]
  by (auto simp: client_execute_command_def split: sum.splits prod.splits option.splits)


section \<open>start\<close>

text \<open>The clock of the process passes every instant.\<close>

definition host_clock_passes :: "host \<Rightarrow> bool" where
  "host_clock_passes h \<longleftrightarrow> (\<forall>deadline. \<exists>n. \<forall>m\<ge>n. deadline \<le> h_now h m)"

text \<open>Connecting only connects.\<close>

fun connecting :: "deed \<Rightarrow> bool" where
  "connecting (Connect p) = True"
| "connecting _ = False"

definition connects :: "client \<Rightarrow> client \<Rightarrow> bool" where
  "connects c c' \<longleftrightarrow> (\<exists>ds. deeds c' = deeds c @ ds \<and> list_all connecting ds)"

lemma connects_trans: "connects c c1 \<Longrightarrow> connects c1 c2 \<Longrightarrow> connects c c2"
  by (auto simp: connects_def)

lemma connects_asked [simp]: "connects c (c1\<lparr>asked := n\<rparr>) = connects c c1" "connects (c\<lparr>asked := n\<rparr>) c1 = connects c c1"
  by (simp_all add: connects_def)

lemma connect_connects: "connect h paths c = (r, c') \<Longrightarrow> connects c c' \<and> asked c' = Suc (asked c)"
  by (auto simp: connect_def connect_socket_def connects_def split: sum.splits)

lemma connect_until_returns:
  assumes "\<forall>m\<ge>n. deadline \<le> h_now h m"
  shows "\<exists>r c'. connect_until h paths deadline c = Some (r, c') \<and> connects c c'"
proof (induction "n - asked c" arbitrary: c rule: less_induct)
  case less
  obtain r c1 where con: "connect h paths c = (r, c1)" by fastforce
  note c1 = connect_connects [OF con]
  show ?case
  proof (cases "r = Inr None \<and> h_now h (asked c1) < deadline")
    case True
    let ?c2 = "c1\<lparr>asked := Suc (asked c1)\<rparr>"
    have "asked c1 < n" using assms True by (meson leD leI)
    then have "n - asked ?c2 < n - asked c" using c1 by simp
    from less [OF this] obtain r' c' where "connect_until h paths deadline ?c2 = Some (r', c')" "connects ?c2 c'" by blast
    then show ?thesis
      using con c1 True by (subst connect_until.simps) (auto intro: connects_trans)
  next
    case False
    then show ?thesis
      using con c1 by (subst connect_until.simps) (auto split: sum.splits option.splits)
  qed
qed

lemma connect_soon_returns:
  assumes "host_clock_passes h"
  obtains r c' where "connect_soon h paths c = Some (r, c')" "connects c c'"
proof -
  from assms obtain n where "\<forall>m\<ge>n. h_now h (asked c) + from_secs 5 \<le> h_now h m"
    unfolding host_clock_passes_def by blast
  from connect_until_returns [OF this, of paths "c\<lparr>asked := Suc (asked c)\<rparr>"] that show ?thesis
    by (auto simp: connect_soon_def)
qed

text \<open>
  The order that matters: a broker is spawned, and a start request that says the warning was shown is sent, only after the
  whole warning was written.
\<close>

fun warned_first :: "bool \<Rightarrow> deed list \<Rightarrow> bool" where
  "warned_first w [] = True"
| "warned_first w (Stderr bs ok # ds) = warned_first (w \<or> bs = WARNING \<and> ok) ds"
| "warned_first w (SpawnBroker executable arguments # ds) = (w \<and> warned_first w ds)"
| "warned_first w (SendRequest (ReqStart warned account op_path ctx) # ds) = ((\<not> warned \<or> w) \<and> warned_first w ds)"
| "warned_first w (_ # ds) = warned_first w ds"

lemma warned_first_True: "warned_first w ds \<Longrightarrow> warned_first True ds"
  by (induction w ds rule: warned_first.induct) auto

lemma warned_first_or: "warned_first w ds \<Longrightarrow> warned_first (w \<or> v) ds"
  by (cases v) (auto intro: warned_first_True)

lemma warned_first_append: "warned_first w xs \<Longrightarrow> warned_first w ys \<Longrightarrow> warned_first w (xs @ ys)"
  by (induction w xs rule: warned_first.induct) (auto simp: warned_first_or)

lemma warned_first_minor: "list_all minor ds \<Longrightarrow> warned_first w ds"
  by (induction w ds rule: warned_first.induct) auto

lemma warned_first_connecting: "list_all connecting ds \<Longrightarrow> warned_first w ds"
  by (induction w ds rule: warned_first.induct) auto

lemma requests_connecting: "list_all connecting ds \<Longrightarrow> requests ds = []"
  by (induction ds rule: requests.induct) auto

text \<open>The executable that a start request names was found to be one.\<close>

definition resolved :: "host \<Rightarrow> bytes \<Rightarrow> bool" where
  "resolved h p \<longleftrightarrow> (\<exists>q n m. h_canonicalize h q = Inr p \<and> h_metadata h n p = Inr m \<and> executable_file m \<and> utf8_valid p)"

lemma canonical_executable_eq:
  "canonical_executable h q c = (r, c') \<Longrightarrow> deeds c' = deeds c \<and> (\<forall>p. r = Inr p \<longrightarrow> resolved h p)"
  unfolding canonical_executable_def resolved_def
  by (fastforce simp: to_str_def split: sum.splits if_splits)

lemma find_candidate_deeds: "find_candidate h name dirs c = (r, c') \<Longrightarrow> deeds c' = deeds c"
  by (induction h name dirs c rule: find_candidate.induct)
    (auto simp: is_file_def is_executable_def Let_def split: prod.splits bool.splits)

lemma resolve_op_eq:
  assumes "resolve_op h op c = (r, c')"
  shows "deeds c' = deeds c \<and> (\<forall>p. r = Inr p \<longrightarrow> resolved h p)"
proof (cases op)
  case None
  obtain found c1 where f: "find_in_path h (ascii ''op'') c = (found, c1)" by fastforce
  then have "deeds c1 = deeds c" by (auto simp: find_in_path_def split: option.splits dest: find_candidate_deeds)
  with assms None f show ?thesis
    by (auto simp: resolve_op_def split: sum.splits dest: canonical_executable_eq)
qed (use assms in \<open>auto simp: resolve_op_def split: if_splits dest: canonical_executable_eq\<close>)

text \<open>The broker said that the account is authorized.\<close>

definition granted :: "host \<Rightarrow> bool" where
  "granted h \<longleftrightarrow> (\<exists>st st'. receive_response (h_socket h) st = Inr (RespOk, st'))"

lemma grantedI: "receive_response (h_socket h) st = Inr (RespOk, st') \<Longrightarrow> granted h"
  by (auto simp: granted_def)

lemma lifecycle_response_eq:
  "lifecycle_response h r c = (code, c') \<Longrightarrow> adds c [] c' \<and> (code = 0 \<longleftrightarrow> r = RespOk)"
  by (auto simp: lifecycle_response_def dest!: adds_error split: response.splits error_code.splits)

lemma lifecycle_failure_eq: "lifecycle_failure h m e c = (code, c') \<Longrightarrow> code = 1 \<and> adds c [] c'"
  by (auto simp: lifecycle_failure_def dest!: adds_error split: if_splits)

lemma transact_eq:
  assumes "transact h st r c = (res, c')"
  shows "deeds c' = deeds c @ [SendRequest r] \<and> (\<forall>st'. res = Inr (RespOk, st') \<longrightarrow> granted h)"
proof -
  have "granted h" if "res = Inr (RespOk, st')" for st'
    using assms that grantedI by (auto simp: transact_def send_def result_simps)
  with assms show ?thesis by (auto simp: transact_def send_def)
qed

text \<open>The last request of a start, and the message after it.\<close>

lemma start_transaction:
  assumes "transact h st r c = (res, c1)"
    and "case res of Inr (response, _) \<Rightarrow> lifecycle_response h response c1 = (code, c')
      | Inl e \<Rightarrow> code = 1 \<and> adds c1 [] c'"
  shows "\<exists>es. deeds c' = deeds c @ SendRequest r # es \<and> list_all minor es \<and> (code = 0 \<longrightarrow> granted h)"
  using assms transact_eq [OF assms(1)]
  by (auto simp: adds_def split: sum.splits dest!: lifecycle_response_eq)

lemma start_existing_eq:
  assumes "start_existing h st a p ctx c = (code, c')"
  shows "\<exists>ds. deeds c' = deeds c @ ds \<and> warned_first False ds \<and> (code = 0 \<longrightarrow> granted h) \<and>
    requests ds \<in> {[ReqStart False a p ctx], [ReqStart False a p ctx, ReqStart True a p ctx]}"
proof -
  let ?unwarned = "ReqStart False a p ctx" and ?warned = "ReqStart True a p ctx"
  obtain sent c1 where s: "send h st ?unwarned c = (sent, c1)" by fastforce
  have c1: "deeds c1 = deeds c @ [SendRequest ?unwarned]" using s by (auto simp: send_def)
  have ended: ?thesis if "adds c1 [] c'" "code = 0 \<longrightarrow> granted h"
  proof -
    from that(1) obtain es where "deeds c' = deeds c1 @ es" "list_all minor es" unfolding adds_def by auto
    with that(2) c1 minor_deeds warned_first_minor show ?thesis
      by (intro exI [of _ "SendRequest ?unwarned # es"]) auto
  qed
  show ?thesis
  proof (cases "\<exists>st1 st2 c2. sent = Inr st1 \<and> receive_response (h_socket h) st1 = Inr (RespNeedWarning, st2) \<and>
      write_stderr h WARNING c1 = (True, c2)")
    case True
    then obtain st1 st2 c2 where w: "sent = Inr st1" "receive_response (h_socket h) st1 = Inr (RespNeedWarning, st2)"
      "write_stderr h WARNING c1 = (True, c2)" by blast
    obtain res c3 where t: "transact h st2 ?warned c2 = (res, c3)" by fastforce
    have "case res of Inr (response, _) \<Rightarrow> lifecycle_response h response c3 = (code, c') | Inl e \<Rightarrow> code = 1 \<and> adds c3 [] c'"
      using assms s w t by (auto simp: start_existing_def dest!: adds_error split: sum.splits)
    from start_transaction [OF t this] obtain es where es: "deeds c' = deeds c2 @ SendRequest ?warned # es"
      "list_all minor es" "code = 0 \<longrightarrow> granted h" by blast
    have "deeds c' = deeds c @ SendRequest ?unwarned # Stderr WARNING True # SendRequest ?warned # es"
      using es(1) c1 w(3) by auto
    with es(2,3) minor_deeds [OF es(2)] warned_first_minor [OF es(2)] show ?thesis
      by (intro exI [of _ "SendRequest ?unwarned # Stderr WARNING True # SendRequest ?warned # es"]) auto
  next
    case False
    have "adds c1 [] c' \<and> (code = 0 \<longrightarrow> granted h)"
    proof (cases "\<exists>st1 r st2. sent = Inr st1 \<and> receive_response (h_socket h) st1 = Inr (r, st2)")
      case True
      then obtain st1 r st2 where "sent = Inr st1" "receive_response (h_socket h) st1 = Inr (r, st2)" by blast
      with assms s False show ?thesis
        by (auto simp: start_existing_def granted_def adds_def perform_def split: if_splits dest!: lifecycle_response_eq)
    next
      case False
      with assms s show ?thesis
        by (auto simp: start_existing_def split: sum.splits dest!: adds_error lifecycle_failure_eq)
    qed
    with ended show ?thesis by blast
  qed
qed

lemma spawn_broker_returns:
  assumes "host_clock_passes h"
  shows "\<exists>r c' ds. spawn_broker h paths p c = Some (r, c') \<and> deeds c' = deeds c @ ds \<and>
    requests ds = [] \<and> warned_first True ds"
proof -
  let ?c1 = "\<lambda>executable. perform (SpawnBroker executable [INTERNAL_BROKER_ARGUMENT]) c"
  have soon: "\<exists>r c'. connect_soon h paths (?c1 x) = Some (r, c') \<and> connects (?c1 x) c'" for x
    by (rule connect_soon_returns [OF assms, of paths "?c1 x"]) blast
  have refl: "connects (?c1 x) (?c1 x)" for x by (simp add: connects_def)
  obtain r c' where r: "spawn_broker h paths p c = Some (r, c')" "c' = c \<or> (\<exists>x. connects (?c1 x) c')"
  proof (cases "bind_result (h_pair h) (\<lambda>parent. bind_result (raw_unit (h_pair_timeouts h)) (\<lambda>_.
      bind_result (h_current_exe h) (\<lambda>executable. Inr (parent, executable))))")
    case (Inl e)
    then show ?thesis using that by (simp add: spawn_broker_def)
  next
    case (Inr pair)
    then show ?thesis
      using that soon [of "snd pair"] refl [of "snd pair"]
      by (cases pair)
        (fastforce simp: spawn_broker_def Let_def split: sum.splits startup_result.splits)
  qed
  show ?thesis
  proof (cases "c' = c")
    case True
    with r(1) show ?thesis by (intro exI [of _ r] exI [of _ c'] exI [of _ "[]"]) simp
  next
    case False
    with r(2) obtain x ds where "deeds c' = deeds c @ SpawnBroker x [INTERNAL_BROKER_ARGUMENT] # ds"
      "list_all connecting ds"
      by (auto simp: connects_def)
    with r(1) show ?thesis
      by (intro exI [of _ r] exI [of _ c'] exI [of _ "SpawnBroker x [INTERNAL_BROKER_ARGUMENT] # ds"])
        (simp add: requests_connecting warned_first_connecting)
  qed
qed

text \<open>What a run of \<^verbatim>\<open>opp start\<close> has done, and its exit code.\<close>

definition started_well :: "host \<Rightarrow> request list set \<Rightarrow> client \<Rightarrow> i32 \<times> client \<Rightarrow> bool" where
  "started_well h rs c r \<longleftrightarrow> (\<exists>ds. deeds (snd r) = deeds c @ ds \<and> warned_first False ds \<and>
     requests ds \<in> rs \<and> (fst r = 0 \<longrightarrow> granted h))"

lemma started_wellI:
  assumes "deeds (snd r) = deeds c @ ds" and "warned_first False ds" and "requests ds \<in> rs" and "fst r = 0 \<longrightarrow> granted h"
  shows "started_well h rs c r"
  using assms unfolding started_well_def by blast

lemma started_well_prefix:
  assumes "started_well h rs c1 r" and "deeds c1 = deeds c @ ds" and "requests ds = []" and "warned_first False ds"
  shows "started_well h rs c r"
proof -
  from assms(1) obtain es where "deeds (snd r) = deeds c1 @ es" "warned_first False es" "requests es \<in> rs"
    "fst r = 0 \<longrightarrow> granted h" unfolding started_well_def by blast
  with assms(2-4) show ?thesis by (intro started_wellI [of r c "ds @ es"]) (simp_all add: warned_first_append)
qed

lemma started_well_mono: "started_well h rs c r \<Longrightarrow> rs \<subseteq> rs' \<Longrightarrow> started_well h rs' c r"
  unfolding started_well_def by blast

lemma started_well_error:
  assumes "[] \<in> rs"
  shows "started_well h rs c (lifecycle_error h bs c)"
  using assms by (intro started_wellI [of _ c "[Stderr bs (h_stderr h (asked c) bs)]"]) (simp_all add: lifecycle_error_def)

lemma started_well_failure: "[] \<in> rs \<Longrightarrow> started_well h rs c (lifecycle_failure h m e c)"
  by (auto simp: lifecycle_failure_def intro: started_well_error)

lemma start_new_returns:
  assumes passes: "host_clock_passes h"
  shows "\<exists>r. start_new h paths a p ctx c = Some r \<and> started_well h {[], [ReqStart True a p ctx]} c r"
proof (cases "h_stderr h (asked c) WARNING")
  case False
  then show ?thesis
    by (auto simp: start_new_def intro!: started_wellI [of _ c "[Stderr WARNING False]"])
next
  case True
  let ?request = "ReqStart True a p ctx"
  let ?rs = "{[], [?request]}"
  define c1 where "c1 = snd (write_stderr h WARNING c)"
  have c1: "write_stderr h WARNING c = (True, c1)" "deeds c1 = deeds c @ [Stderr WARNING True]"
    using True by (auto simp: c1_def)
  from spawn_broker_returns [OF passes] obtain spawned c2 ds where s: "spawn_broker h paths p c1 = Some (spawned, c2)"
    "deeds c2 = deeds c1 @ ds" "requests ds = []" "warned_first True ds" by blast
  obtain connected c3 where k: "connect_soon h paths c2 = Some (connected, c3)" "connects c2 c3"
    by (rule connect_soon_returns [OF passes])
  then obtain ks where ks: "deeds c3 = deeds c2 @ ks" "list_all connecting ks" by (auto simp: connects_def)
  have c2: "deeds c2 = deeds c @ Stderr WARNING True # ds" and
    c3: "deeds c3 = deeds c @ Stderr WARNING True # ds @ ks" using c1 s ks by simp_all
  have wk: "warned_first True (ds @ ks)" "requests (ds @ ks) = []"
    using s(3,4) ks(2) by (simp_all add: warned_first_append warned_first_connecting requests_connecting)
  have run: "start_new h paths a p ctx c =
      (case spawned of
         Inl e \<Rightarrow> Some (lifecycle_failure h ''opp: the broker failed to start.'' e c2)
       | Inr _ \<Rightarrow>
           (case connected of
              Inl _ \<Rightarrow> Some (lifecycle_error h (line ''opp: the broker failed to become ready.'') c3)
            | Inr st \<Rightarrow>
                (case transact h st ?request c3 of
                   (Inr (response, _), c4) \<Rightarrow> Some (lifecycle_response h response c4)
                 | (Inl e, c4) \<Rightarrow> Some (lifecycle_failure h ''opp: broker communication failed.'' e c4))))"
    unfolding start_new_def c1(1) by (simp add: s(1) k(1) del: write_stderr_eq split: sum.splits)
  have failed: "started_well h ?rs c (lifecycle_failure h m e c2)" "started_well h ?rs c (lifecycle_error h bs c3)" for m e bs
    using started_well_prefix [OF started_well_failure c2] started_well_prefix [OF started_well_error c3] s(3,4) wk by simp_all
  show ?thesis
  proof (cases "\<exists>u st. spawned = Inr u \<and> connected = Inr st")
    case False
    with failed run show ?thesis by (cases spawned; cases connected) auto
  next
    case True
    then obtain u st where ok: "spawned = Inr u" "connected = Inr st" by blast
    obtain res c4 where t: "transact h st ?request c3 = (res, c4)" by fastforce
    define r where "r = (case res of Inr (response, _) \<Rightarrow> lifecycle_response h response c4
      | Inl e \<Rightarrow> lifecycle_failure h ''opp: broker communication failed.'' e c4)"
    have "start_new h paths a p ctx c = Some r"
      using run ok t by (simp add: r_def split: sum.splits prod.splits)
    moreover have "case res of Inr (response, _) \<Rightarrow> lifecycle_response h response c4 = (fst r, snd r)
        | Inl e \<Rightarrow> fst r = 1 \<and> adds c4 [] (snd r)"
      using lifecycle_failure_eq [of h _ _ c4 "fst r" "snd r"] by (cases res) (simp_all add: r_def split: prod.splits)
    from start_transaction [OF t this] obtain es where es: "deeds (snd r) = deeds c3 @ SendRequest ?request # es"
      "list_all minor es" "fst r = 0 \<longrightarrow> granted h" by blast
    have "warned_first True ((ds @ ks) @ SendRequest ?request # es)"
      by (rule warned_first_append [OF wk(1)]) (simp add: warned_first_minor es(2))
    then have "started_well h ?rs c r"
      using c3 wk(2) es minor_deeds [OF es(2)]
      by (intro started_wellI [of r c "Stderr WARNING True # (ds @ ks) @ SendRequest ?request # es"]) simp_all
    ultimately show ?thesis by blast
  qed
qed


section \<open>Examples\<close>

text \<open>A process whose calls work, on a machine without a broker, where none can be started.\<close>

definition ended_stream :: copy_thread where
  "ended_stream = \<lparr>ct_start = None, ct_panics = False, ct_source = (\<lambda>n. Inr []), ct_sink = (\<lambda>n bs. None)\<rparr>"

definition example_host :: host where
  "example_host =
     \<lparr>h_user = Inr \<lparr>uid = 501, user_name = ascii ''u'', user_home = ascii ''/u''\<rparr>, h_socket = wire,
      h_connect = (\<lambda>n p. Inl (RawOs ENOENT)), h_now = (\<lambda>n. n), h_stderr = (\<lambda>n bs. True), h_stdout = (\<lambda>n bs. True),
      h_current_dir = Inr (ascii ''/''), h_vars = [], h_path = None, h_canonicalize = Inr,
      h_metadata = (\<lambda>n p. Inr \<lparr>file_type = RegularFile, owner = 0, mode = 493\<rparr>), h_pair = Inl (RawOs EIO),
      h_pair_timeouts = None, h_current_exe = Inr (ascii ''/opp''), h_spawn = (\<lambda>p xs. None), h_pipe = (\<lambda>n. Inr (3, 4)),
      h_block_signals = True, h_clone = None, h_signal = NoSignal,
      h_stdout_thread = ended_stream, h_stderr_thread = ended_stream\<rparr>"

lemma example_passes: "host_clock_passes example_host"
  by (auto simp: host_clock_passes_def example_host_def)


lemma example_absent:
  "client_execute_command example_host (Account None) 1000000000 [] client_start
    = Some (authorization_required example_host
        (perform (Connect (socket_path (for_user \<lparr>uid = 501, user_name = ascii ''u'', user_home = ascii ''/u''\<rparr>)))
          (client_start\<lparr>asked := 1\<rparr>)))"
  by (simp add: client_execute_command_def load_paths_def connect_def connect_socket_def example_host_def
      is_absent_socket_error_def client_start_def)


end
