(* ===== verification/Composition.thy ===== *)
theory Composition
  imports Guarantees Contract
begin

text \<open>
  The client and the broker together: what \<^verbatim>\<open>opp exec\<close> exits with when the broker's executor runs its request, and what the
  whole process may do to a broker.
\<close>

section \<open>From the command to the exit code\<close>

text \<open>
  The client's connection carries what the broker's handler sent: after the preamble the bytes of one response.
\<close>

definition delivers :: "host \<Rightarrow> nat \<Rightarrow> stream \<Rightarrow> stream \<Rightarrow> bool" where
  "delivers h n st st' \<longleftrightarrow>
     (\<forall>p conn. h_connect h n p = Inr conn \<longrightarrow>
       (\<exists>rest. drop 8 (incoming conn) = drop (length (outgoing st)) (outgoing st') @ rest))"


text \<open>An example: the executor of \<open>Guarantees\<close> runs \<^verbatim>\<open>op item get\<close>, which exits with 0.\<close>

definition answer :: stream where
  "answer = (case encode_response (RespExec 0 DiagNone) of (kind, payload) \<Rightarrow> quiet\<lparr>outgoing := frame_cells kind payload []\<rparr>)"

definition answered_host :: host where
  "answered_host = example_host
     \<lparr>h_connect := (\<lambda>n p. Inr (quiet\<lparr>incoming := plain (normal_preamble PROTOCOL_VERSION) @ outgoing answer\<rparr>)),
      h_current_dir := Inr (ascii ''/home''), h_vars := [(ascii ''PATH'', ascii ''/bin'')],
      h_pipe := (\<lambda>n. Inr (6 + n, 6 + n))\<rparr>"

lemma answer_sent: "send_response wire quiet (RespExec 0 DiagNone) = Inr answer"
proof -
  have "is_ok (send_response wire quiet (RespExec 0 DiagNone))"
    by (simp add: send_response_def send_frame_def MAX_PAYLOAD_def sendmsg_def wire_def write_all_def quiet_def
        u32_try_from_def Let_def literals)
  then obtain st' where s: "send_response wire quiet (RespExec 0 DiagNone) = Inr st'"
    by (cases "send_response wire quiet (RespExec 0 DiagNone)") auto
  obtain k pl where e: "encode_response (RespExec 0 DiagNone) = (k, pl)" by fastforce
  with s send_frame_sends [OF wire_works(2), of quiet k pl "[]" st'] show ?thesis
    by (simp add: send_response_def answer_def quiet_def)
qed

lemma answered_delivers: "delivers answered_host 0 quiet answer"
  by (simp add: delivers_def answered_host_def quiet_def normal_preamble_def NORMAL_MAGIC_def literals)

lemma answered_request:
  "\<exists>code c'. client_execute_command answered_host work 2000000000 item_get client_start = Some (code, c') \<and>
     requests (deeds c') = [ReqExec work 2000000000 item_get home (7, 8, 9)]"
proof -
  let ?h = answered_host and ?r = "ReqExec work 2000000000 item_get home (7, 8, 9)"
  have home: "capture (h_current_dir ?h) (h_vars ?h) = Inr home"
    by (simp add: answered_host_def example_host_def capture_def home_def is_absolute_def literals)
  have "\<exists>st c1. connect ?h (for_user \<lparr>uid = 501, user_name = ascii ''u'', user_home = ascii ''/u''\<rparr>) client_start
      = (Inr (Some st), c1) \<and> asked c1 = 1"
    by (simp add: connect_def connect_socket_def answered_host_def example_host_def client_negotiate_def wire_def
        write_all_def read_exact_def quiet_def normal_preamble_def NORMAL_MAGIC_def PROTOCOL_VERSION_def client_start_def
        be_value_def literals)
  then obtain st c1 where connected: "connect ?h (for_user \<lparr>uid = 501, user_name = ascii ''u'', user_home = ascii ''/u''\<rparr>)
      client_start = (Inr (Some st), c1)" "asked c1 = 1" by blast
  have "requests (deeds c1) = []" using connect_deeds [OF connected(1)] by (simp add: client_start_def)
  moreover have pipes: "make_pipes ?h c1 = (Inr (7, 8, 9), c1\<lparr>asked := 4\<rparr>)"
    using connected(2) by (simp add: make_pipes_def answered_host_def)
  moreover have "u64_from_nat_or 2000000000 u64_max = 2000000000" by (simp add: u64_from_nat_or_def)
  ultimately have eq: "client_execute_command ?h work 2000000000 item_get client_start = run_request ?h st ?r (c1\<lparr>asked := 4\<rparr>)"
    using connected(1) home by (simp add: client_execute_command_def load_paths_def answered_host_def example_host_def)
  obtain code c' where run: "run_request ?h st ?r (c1\<lparr>asked := 4\<rparr>) = Some (code, c')"
    using run_request_returns [of ?h st ?r "c1\<lparr>asked := 4\<rparr>"]
    by (auto simp: answered_host_def example_host_def ended_stream_def source_ends_def)
  from run_request_eq [OF run] obtain es where "deeds c' = deeds c1 @ SendRequest ?r # es" "list_all minor es"
    by (auto simp: adds_def)
  with eq run minor_deeds \<open>requests (deeds c1) = []\<close> show ?thesis by simp
qed


section \<open>The whole process\<close>

lemma status_changes_nothing:
  "client_status_command h fm account c = (code, c') \<Longrightarrow> \<exists>ds. deeds c' = deeds c @ ds \<and> \<not> list_ex changes_broker ds"
  by (auto simp: client_status_command_def connect_def connect_socket_def write_status_def write_status_object_def
      transact_def send_def lifecycle_error_def lifecycle_failure_def
      split: sum.splits prod.splits option.splits response.splits if_splits)

text \<open>Only \<^verbatim>\<open>opp start\<close> and \<^verbatim>\<open>opp stop\<close> start, stop or authorize anything.\<close>

theorem only_start_and_stop:
  assumes "opp_main h fm broker version op_account argv = Some (code, c')" and "list_ex changes_broker (deeds c')"
  shows "Cli.run version op_account argv = ClientStop \<or> (\<exists>account op. Cli.run version op_account argv = ClientStart account op)"
proof (cases "Cli.run version op_account argv")
  case (ClientStatus account)
  with assms status_changes_nothing [of h fm account client_start code c'] show ?thesis
    by (auto simp: opp_main_def perform_task_def client_start_def)
next
  case (ClientExecute account timeout arguments)
  with assms exec_deeds [of h account timeout arguments client_start code c'] show ?thesis
    by (auto simp: opp_main_def perform_task_def client_start_def)
qed (use assms in \<open>auto simp: opp_main_def perform_task_def client_start_def print_text_def usage_error_def\<close>)

end
