(* ===== verification/Accuracy.thy ===== *)
theory Accuracy
  imports Complex_Main Duration
begin

text \<open>
  How exact the fractions of a duration are. Every operation of \<open>Binary64\<close> is within a relative error of \<open>2 ^ -52\<close>, for
  results that are not tiny; so the few operations of \<^verbatim>\<open>parse_duration\<close> on a fraction miss the exact number of
  nanoseconds by less than one before they truncate.
\<close>

section \<open>Rounding\<close>

lemma round_even_error:
  assumes "0 < d"
  shows "\<bar>real (round_even n d) - real n / real d\<bar> \<le> 1 / 2"
proof -
  have n: "real n = real (n div d) * real d + real (n mod d)"
    by (metis of_nat_add of_nat_mult div_mult_mod_eq)
  have "real n / real d = real (n div d) + real (n mod d) / real d"
    using assms by (simp add: n add_divide_distrib)
  moreover have "real (n mod d) / real d \<le> 1 / 2" if "2 * (n mod d) \<le> d"
    using that assms by (simp add: field_simps)
  moreover have "1 / 2 \<le> real (n mod d) / real d" if "d \<le> 2 * (n mod d)"
    using that assms by (simp add: field_simps)
  moreover have "real (n mod d) / real d \<le> 1" using assms by (simp add: less_imp_le)
  moreover have "0 \<le> real (n mod d) / real d" by simp
  ultimately show ?thesis by (auto simp: round_even_def Let_def)
qed

lemma real_shift: "0 < d \<Longrightarrow> real (shift_num n s) / real (shift_den d s) = real n / real d * 2 powi s"
  by (cases "0 \<le> s") (simp_all add: shift_num_def shift_den_def power_int_def field_simps)

lemma shift_den_pos: "0 < d \<Longrightarrow> 0 < shift_den d s"
  by (simp add: shift_den_def)

lemma bits_bounds: "0 < n \<Longrightarrow> 2 ^ (bits n - 1) \<le> n \<and> n < 2 ^ bits n \<and> 0 < bits n"
proof (induction n rule: bits.induct)
  case (1 n)
  show ?case
  proof (cases "n div 2 = 0")
    case True
    with 1(2) have "n = 1" by simp
    then show ?thesis by (simp add: bits.simps)
  next
    case False
    then have IH: "2 ^ (bits (n div 2) - 1) \<le> n div 2" "n div 2 < 2 ^ bits (n div 2)" "0 < bits (n div 2)"
      using 1 by auto
    have "bits n = Suc (bits (n div 2))" using 1(2) by (subst bits.simps) simp
    moreover have "2 * 2 ^ (bits (n div 2) - 1) = (2 :: nat) ^ bits (n div 2)"
      using IH(3) by (metis Suc_diff_1 power_Suc)
    moreover have "2 * (n div 2) \<le> n" "n < 2 * (n div 2) + 2" by linarith+
    ultimately have "2 ^ (bits n - 1) \<le> n" "n < 2 ^ bits n"
      using IH by (simp_all, linarith+)
    with \<open>bits n = Suc (bits (n div 2))\<close> show ?thesis by simp
  qed
qed

text \<open>The scale brings the quotient to at least \<open>2 ^ 52\<close>, unless the quotient is tiny.\<close>

lemma scale_of_large:
  assumes "0 < n" and "0 < d"
  shows "scale_of n d = 1074 \<or> 2 ^ 52 \<le> real n / real d * 2 powi scale_of n d"
proof -
  define s where "s = 53 - (int (bits n) - int (bits d))"
  define z where "z = real n / real d"
  have z: "0 < z" using assms by (simp add: z_def)
  have "2 powi (int (bits n) - 1) \<le> real n" "real d \<le> 2 powi int (bits d)"
  proof -
    have "real (2 ^ (bits n - 1)) \<le> real n" using bits_bounds [OF assms(1)] of_nat_le_iff by blast
    moreover have "nat (int (bits n) - 1) = bits n - 1" by simp
    ultimately show "2 powi (int (bits n) - 1) \<le> real n"
      using bits_bounds [OF assms(1)] by (simp add: power_int_def)
    have "real d \<le> real (2 ^ bits d)" using bits_bounds [OF assms(2)] by (metis less_imp_le of_nat_le_iff)
    then show "real d \<le> 2 powi int (bits d)" by (simp add: power_int_def)
  qed
  then have "2 powi (int (bits n) - 1) / 2 powi int (bits d) \<le> z"
    unfolding z_def using assms by (intro frac_le) simp_all
  then have "2 powi (int (bits n) - 1 - int (bits d)) \<le> z" by (simp add: power_int_diff)
  then have "2 powi (int (bits n) - 1 - int (bits d)) * 2 powi s \<le> z * 2 powi s"
    by (rule mult_right_mono) simp
  moreover have "2 powi (int (bits n) - 1 - int (bits d)) * 2 powi s = (2 :: real) ^ 52"
    by (simp add: s_def flip: power_int_add)
  ultimately have low: "2 ^ 52 \<le> z * 2 powi s" by simp
  have high: "2 ^ 52 \<le> z * 2 powi (s - 1)" if "2 ^ 53 * shift_den d s \<le> shift_num n s"
  proof -
    have "real (2 ^ 53 * shift_den d s) \<le> real (shift_num n s)" using that of_nat_le_iff by blast
    then have "2 ^ 53 \<le> real (shift_num n s) / real (shift_den d s)"
      using shift_den_pos [OF assms(2), of s] by (simp add: pos_le_divide_eq)
    then have "2 ^ 53 \<le> z * 2 powi s" by (simp add: real_shift [OF assms(2)] z_def)
    then show ?thesis by (simp add: power_int_diff)
  qed
  show ?thesis
    using low high unfolding scale_of_def s_def [symmetric] z_def [symmetric] Let_def by (auto simp: min_def)
qed

section \<open>Values\<close>

fun f64_value :: "f64 \<Rightarrow> real" where
  "f64_value (F64 m e) = real m * 2 powi e"
| "f64_value _ = 0"

definition finite_f64 :: "f64 \<Rightarrow> bool" where
  "finite_f64 x \<longleftrightarrow> (\<exists>m e. x = F64 m e)"

lemma f64_value_nonneg: "0 \<le> f64_value x"
  by (cases x) simp_all

lemma f64_value_shift: "f64_value (F64 m e) = real (shift_num m e) / real (shift_den 1 e)"
  using real_shift [of 1 m e] by simp

text \<open>A rounded quotient is infinite and huge, or close to the quotient.\<close>

definition rounds :: "real \<Rightarrow> f64 \<Rightarrow> bool" where
  "rounds z x \<longleftrightarrow> (x = Infinity \<and> 2 ^ 1000 \<le> z) \<or>
     (finite_f64 x \<and> \<bar>f64_value x - z\<bar> \<le> z / 2 ^ 53 + 2 powi (-1075))"

lemma rounds_round_f64:
  assumes "0 < d" and z_def: "real n / real d = z"
  shows "rounds z (round_f64 n d)"
proof (cases "n = 0")
  case True
  with z_def show ?thesis by (simp add: round_f64_def finite_f64_def rounds_def)
next
  case False
  define s where "s = scale_of n d"
  define m where "m = round_even (shift_num n s) (shift_den d s)"
  have z: "0 < z" using False assms by auto
  have p: "0 < (2 :: real) powi s" "2 powi s * 2 powi (- s) = (1 :: real)" by (simp_all add: power_int_minus)
  have "\<bar>real m - z * 2 powi s\<bar> \<le> 1 / 2"
    using round_even_error [OF shift_den_pos [OF assms(1), of s], of "shift_num n s"]
    by (simp add: m_def real_shift [OF assms(1)] z_def)
  then have "\<bar>real m - z * 2 powi s\<bar> * 2 powi (- s) \<le> 1 / 2 * 2 powi (- s)" by (rule mult_right_mono) simp
  moreover have "\<bar>real m - z * 2 powi s\<bar> * 2 powi (- s) = \<bar>real m * 2 powi (- s) - z\<bar>"
    using p by (simp add: abs_mult_pos left_diff_distrib mult.assoc)
  ultimately have close: "\<bar>real m * 2 powi (- s) - z\<bar> \<le> 2 powi (- s) / 2" by simp
  have "2 powi (- s) / 2 \<le> z / 2 ^ 53 + 2 powi (-1075)"
  proof (cases "s = 1074")
    case True
    have "(2 :: real) powi (- 1074 - 1) = 2 powi (- 1074) / 2 powi 1" by (rule power_int_diff) simp
    with z True show ?thesis by simp
  next
    case False
    then have "2 ^ 52 \<le> z * 2 powi s" using scale_of_large [of n d] \<open>n \<noteq> 0\<close> assms z_def by (auto simp: s_def)
    then have "2 ^ 52 * 2 powi (- s) \<le> z * 2 powi s * 2 powi (- s)" by (rule mult_right_mono) simp
    then have "2 ^ 52 * 2 powi (- s) \<le> z" using p(2) by (simp add: mult.assoc)
    moreover have "0 \<le> (2 :: real) powi (-1075)" by simp
    ultimately show ?thesis by simp
  qed
  with close have near: "\<bar>real m * 2 powi (- s) - z\<bar> \<le> z / 2 ^ 53 + 2 powi (-1075)" by linarith
  show ?thesis
  proof (cases "2 ^ 1024 * 2 ^ nat s \<le> m * 2 ^ nat (- s)")
    case True
    then have "2 ^ 1024 * shift_den 1 (- s) \<le> shift_num m (- s)" by (simp add: shift_den_def shift_num_def)
    then have "real (2 ^ 1024 * shift_den 1 (- s)) \<le> real (shift_num m (- s))" using of_nat_le_iff by blast
    then have "2 ^ 1024 \<le> real (shift_num m (- s)) / real (shift_den 1 (- s))"
      using shift_den_pos [of 1 "- s"] by (simp add: pos_le_divide_eq)
    then have "2 ^ 1024 \<le> real m * 2 powi (- s)" using real_shift [of 1 m "- s"] by simp
    moreover have "(2 :: real) powi (-1075) \<le> 1" by (simp add: power_int_def power_le_one)
    ultimately have "2 ^ 1024 \<le> z + (z / 2 ^ 53 + 1)" using near by linarith
    then have "2 ^ 1000 \<le> z" by simp
    with True False show ?thesis
      by (simp add: round_f64_def Let_def s_def [symmetric] m_def [symmetric] rounds_def)
  next
    case False
    with \<open>n \<noteq> 0\<close> near show ?thesis
      by (simp add: round_f64_def Let_def s_def [symmetric] m_def [symmetric] rounds_def finite_f64_def)
  qed
qed

lemma f64_of_nat_rounds: "rounds (real n) (f64_of_nat n)"
  unfolding f64_of_nat_def by (rule rounds_round_f64) simp_all

lemma f64_mul_rounds:
  assumes "finite_f64 x" and "finite_f64 y"
  shows "rounds (f64_value x * f64_value y) (f64_mul x y)"
proof -
  obtain m e m' f where xy: "x = F64 m e" "y = F64 m' f" using assms by (auto simp: finite_f64_def)
  have "real (shift_num (m * m') (e + f)) / real (shift_den 1 (e + f)) = f64_value x * f64_value y"
    using real_shift [of 1 "m * m'" "e + f"] xy by (simp add: power_int_add)
  from rounds_round_f64 [OF shift_den_pos this] xy show ?thesis by simp
qed

lemma f64_div_rounds:
  assumes "finite_f64 x" and "finite_f64 y" and "0 < f64_value y"
  shows "rounds (f64_value x / f64_value y) (f64_div x y)"
proof -
  obtain m e m' f where xy: "x = F64 m e" "y = F64 m' f" using assms(1,2) by (auto simp: finite_f64_def)
  have pos: "0 < m'" using assms(3) xy by (cases m') auto
  have "real (shift_num m (e - f)) / real (shift_den m' (e - f)) = f64_value x / f64_value y"
    using real_shift [OF pos, of m "e - f"] xy by (simp add: power_int_diff)
  from rounds_round_f64 [OF shift_den_pos [OF pos] this] xy pos show ?thesis by simp
qed

text \<open>The relative error of one operation.\<close>

definition ulp :: real where "ulp = 1 / 2 ^ 52"

lemma ulp_bounds [simp]: "0 < ulp" "0 \<le> ulp" "ulp \<le> 1 / 1000"
  by (simp_all add: ulp_def)

lemma rounds_close:
  assumes "rounds z x" and "2 powi (-1000) \<le> z" and "z < 2 ^ 1000"
  shows "finite_f64 x \<and> \<bar>f64_value x - z\<bar> \<le> ulp * z"
proof -
  have "(2 :: real) powi (-1075) = 2 powi (-1000) * 2 powi (-75)" by (simp flip: power_int_add)
  also have "\<dots> \<le> z * 2 powi (-75)" using assms(2) by (intro mult_right_mono) simp_all
  also have "(2 :: real) powi (-75) = 1 / 2 ^ 75" by (simp add: power_int_def field_simps)
  finally have "z / 2 ^ 53 + 2 powi (-1075) \<le> z / 2 ^ 53 + z / 2 ^ 75" by simp
  also have "\<dots> \<le> ulp * z"
  proof -
    have "0 \<le> z" using assms(2) by (meson order_trans zero_le_power_int zero_le_numeral)
    then show ?thesis by (simp add: ulp_def field_simps)
  qed
  finally show ?thesis using assms(1,3) unfolding rounds_def by auto
qed

section \<open>The digits of a fraction\<close>

definition powers :: "nat \<Rightarrow> f64" where
  "powers k = ((\<lambda>scale. f64_mul scale (f64_of_nat 10)) ^^ k) (f64_of_nat 1)"

lemma digit_value_bound: "is_ascii_digit d \<Longrightarrow> digit_value d \<le> 9"
  by (auto simp: is_ascii_digit_def digit_value_def word_le_nat_alt unat_sub_if')

lemma fraction_digits:
  assumes "digits_ok ds"
  shows "\<exists>k v ov. foldl fraction_step (0, f64_of_nat 1, False) ds = (v, powers k, ov) \<and> k \<le> length ds \<and>
    v = decimal (take k ds) \<and> v \<le> 2 ^ 63 \<and> (ov \<longrightarrow> 922337203685477580 \<le> v) \<and> (\<not> ov \<longrightarrow> k = length ds)"
  using assms
proof (induction ds rule: rev_induct)
  case Nil
  have "powers 0 = f64_of_nat 1" by (simp add: powers_def)
  then show ?case by (intro exI [of _ 0] exI [of _ False]) (simp add: decimal_def)
next
  case (snoc d ds)
  then obtain k v ov where IH: "foldl fraction_step (0, f64_of_nat 1, False) ds = (v, powers k, ov)" "k \<le> length ds"
    "v = decimal (take k ds)" "v \<le> 2 ^ 63" "ov \<longrightarrow> 922337203685477580 \<le> v" "\<not> ov \<longrightarrow> k = length ds"
    by (auto simp: digits_ok_def)
  have d: "digit_value d \<le> 9" using snoc.prems by (simp add: digits_ok_def digit_value_bound)
  show ?case
  proof (cases "ov \<or> v > (2 ^ 63 - 1) div 10 \<or> v * 10 + digit_value d > 2 ^ 63")
    case True
    then have "foldl fraction_step (0, f64_of_nat 1, False) (ds @ [d]) = (v, powers k, True)"
      using IH(1) by (auto simp: fraction_step_def Let_def)
    moreover have "922337203685477580 \<le> v" using True IH(5) d by auto
    ultimately show ?thesis using IH(2-4) by (intro exI [of _ k] exI [of _ v] exI [of _ True]) simp
  next
    case False
    then have "foldl fraction_step (0, f64_of_nat 1, False) (ds @ [d])
        = (v * 10 + digit_value d, powers (Suc (length ds)), False)"
      using IH(1,6) by (simp add: fraction_step_def Let_def powers_def)
    moreover have "v * 10 + digit_value d = decimal (ds @ [d])" using IH(3,6) False by (simp add: decimal_snoc)
    ultimately show ?thesis using False
      by (intro exI [of _ "Suc (length ds)"] exI [of _ "v * 10 + digit_value d"] exI [of _ False]) simp
  qed
qed

lemma decimal_append: "decimal (xs @ ys) = decimal xs * 10 ^ length ys + decimal ys"
  by (induction ys rule: rev_induct) (simp_all add: decimal_snoc decimal_def [of "[]"] flip: append_assoc)

lemma decimal_less: "digits_ok ds \<Longrightarrow> decimal ds < 10 ^ length ds"
proof (induction ds rule: rev_induct)
  case (snoc d ds)
  then have "decimal ds + 1 \<le> 10 ^ length ds" "digit_value d \<le> 9" by (auto simp: digits_ok_def digit_value_bound)
  then show ?case by (simp add: decimal_snoc)
qed (simp add: decimal_def)

section \<open>Products of small errors\<close>

text \<open>\<open>x\<close> and \<open>a\<close> differ by a factor of at most \<open>(1 + ulp) ^ e\<close>.\<close>

definition near :: "nat \<Rightarrow> real \<Rightarrow> real \<Rightarrow> bool" where
  "near e x a \<longleftrightarrow> 0 < x \<and> 0 < a \<and> x \<le> a * (1 + ulp) ^ e \<and> a \<le> x * (1 + ulp) ^ e"

lemma near_mult:
  assumes "near m x a" and "near n y b"
  shows "near (m + n) (x * y) (a * b)"
proof -
  have "x * y \<le> (a * (1 + ulp) ^ m) * (b * (1 + ulp) ^ n)" "a * b \<le> (x * (1 + ulp) ^ m) * (y * (1 + ulp) ^ n)"
    using assms by (intro mult_mono; simp add: near_def)+
  with assms show ?thesis by (simp add: near_def power_add mult_ac)
qed

lemma near_inverse: "near n y b \<Longrightarrow> near n (1 / y) (1 / b)"
  by (auto simp: near_def field_simps)

lemma near_divide: "near m x a \<Longrightarrow> near n y b \<Longrightarrow> near (m + n) (x / y) (a / b)"
  using near_mult [OF _ near_inverse] by fastforce

lemma near_trans:
  assumes "near m x z" and "near n z a"
  shows "near (m + n) x a"
proof -
  have "x \<le> z * (1 + ulp) ^ m" "z * (1 + ulp) ^ m \<le> a * (1 + ulp) ^ n * (1 + ulp) ^ m"
    using assms unfolding near_def by (blast, intro mult_right_mono, simp_all)
  moreover have "a \<le> z * (1 + ulp) ^ n" "z * (1 + ulp) ^ n \<le> x * (1 + ulp) ^ m * (1 + ulp) ^ n"
    using assms unfolding near_def by (blast, intro mult_right_mono, simp_all)
  ultimately show ?thesis using assms unfolding near_def by (simp only: power_add mult_ac) linarith
qed

lemma power_ulp_bound:
  assumes "real n * ulp \<le> 1 / 2"
  shows "(1 + ulp) ^ n \<le> 1 + 2 * real n * ulp"
  using assms
proof (induction n)
  case (Suc n)
  have "real n * ulp \<le> real (Suc n) * ulp" by (intro mult_right_mono) simp_all
  with Suc.prems have small: "real n * ulp \<le> 1 / 2" by linarith
  have "(1 + ulp) * (1 + ulp) ^ n \<le> (1 + ulp) * (1 + 2 * real n * ulp)"
    using Suc.IH [OF small] by (intro mult_left_mono) simp_all
  also have "\<dots> = 1 + 2 * real n * ulp + ulp + 2 * (real n * ulp) * ulp" by (simp add: algebra_simps)
  also have "\<dots> \<le> 1 + 2 * real n * ulp + ulp + 1 * ulp" using small by (intro add_left_mono mult_right_mono) simp_all
  also have "\<dots> = 1 + 2 * real (Suc n) * ulp" by (simp add: algebra_simps)
  finally show ?case by simp
qed simp

lemma near_bounds:
  assumes "near e x a" and "e \<le> 300"
  shows "a / 2 \<le> x" "x \<le> 2 * a" "0 < x" "0 < a" "\<bar>x - a\<bar> \<le> 2 * a * (2 * real e * ulp)"
proof -
  have e: "2 * real e * ulp \<le> 1" using assms(2) by (simp add: ulp_def field_simps)
  have f: "(1 + ulp) ^ e \<le> 1 + 2 * real e * ulp" using e by (intro power_ulp_bound) simp
  show x: "0 < x" and a: "0 < a" using assms(1) by (simp_all add: near_def)
  have "a * (1 + ulp) ^ e \<le> a * (1 + 2 * real e * ulp)" "x * (1 + ulp) ^ e \<le> x * (1 + 2 * real e * ulp)"
    using f x a by (simp_all add: mult_left_mono)
  with assms(1) have xa: "x \<le> a + a * (2 * real e * ulp)" "a \<le> x + x * (2 * real e * ulp)"
    unfolding near_def by (simp_all only: distrib_left mult_1_right) linarith+
  have "a * (2 * real e * ulp) \<le> a * 1" "x * (2 * real e * ulp) \<le> x * 1"
    using e x a by (intro mult_left_mono; simp)+
  with xa show le: "x \<le> 2 * a" and "a / 2 \<le> x" by linarith+
  have "x * (2 * real e * ulp) \<le> 2 * a * (2 * real e * ulp)" "a * (2 * real e * ulp) \<le> 2 * a * (2 * real e * ulp)"
    using le a by (intro mult_right_mono; simp)+
  with xa show "\<bar>x - a\<bar> \<le> 2 * a * (2 * real e * ulp)" by linarith
qed

text \<open>One rounding.\<close>

lemma near_rounds:
  assumes "rounds z x" and "near e z a" and "e \<le> 300" and "2 powi (-900) \<le> a" and "a \<le> 2 ^ 900"
  shows "finite_f64 x \<and> near (e + 2) (f64_value x) a"
proof -
  note z = near_bounds [OF assms(2,3)]
  have "(2 :: real) powi (-1000) \<le> 2 powi (-901)" by (rule power_int_increasing) simp_all
  also have "(2 :: real) powi (-901) = 2 powi (-900) / 2" using power_int_diff [of "2 :: real" "-900" 1] by simp
  finally have low: "2 powi (-1000) \<le> z" using assms(4) z(1) by linarith
  have "z \<le> 2 * 2 ^ 900" using z(2) assms(5) by linarith
  also have "\<dots> < (2 :: real) ^ 1000" by simp
  finally have close: "finite_f64 x" "\<bar>f64_value x - z\<bar> \<le> ulp * z" using rounds_close [OF assms(1) low] by blast+
  have "ulp * z \<le> 1 / 1000 * z" using ulp_bounds(3) less_imp_le [OF z(3)] by (rule mult_right_mono)
  then have pos: "0 < f64_value x" using close(2) z(3) by linarith
  have up: "f64_value x \<le> z * (1 + ulp)" and low: "z * (1 - ulp) \<le> f64_value x"
    using close(2) unfolding abs_le_iff by (simp_all only: right_diff_distrib distrib_left mult.commute [of ulp]) linarith+
  have factor: "1 \<le> (1 - ulp) * (1 + ulp) ^ 2"
  proof -
    have "ulp * ulp \<le> 1 / 1000 * ulp" using ulp_bounds(3,2) by (rule mult_right_mono)
    moreover have "ulp * ulp * ulp \<le> 1 * (ulp * ulp)"
      using ulp_bounds by (simp only: mult.assoc) (intro mult_right_mono; simp)
    ultimately have "0 \<le> ulp - ulp * ulp - ulp * ulp * ulp" using ulp_bounds(1) by linarith
    then show ?thesis by (simp add: power2_eq_square algebra_simps)
  qed
  have "z * 1 \<le> z * ((1 - ulp) * (1 + ulp) ^ 2)" using z(3) factor by (intro mult_left_mono) simp_all
  also have "\<dots> = z * (1 - ulp) * (1 + ulp) ^ 2" by simp
  also have "\<dots> \<le> f64_value x * (1 + ulp) ^ 2" using low by (rule mult_right_mono) simp
  finally have down: "z \<le> f64_value x * (1 + ulp) ^ 2" by simp
  have "1 * (1 + ulp) \<le> (1 + ulp) * (1 + ulp)" by (intro mult_right_mono) simp_all
  then have "z * (1 + ulp) \<le> z * (1 + ulp) ^ 2" using z(3) by (intro mult_left_mono) (simp_all add: power2_eq_square)
  with up down pos z(3) have "near 2 (f64_value x) z" unfolding near_def by linarith
  from near_trans [OF this assms(2)] close(1) show ?thesis by (simp add: add.commute)
qed

section \<open>The powers of ten\<close>

lemma near_exact: "0 < x \<Longrightarrow> near e x x"
  by (simp add: near_def)

lemma ten: "f64_of_nat 10 = F64 5629499534213120 (-49)" and one: "f64_of_nat 1 = F64 4503599627370496 (-52)"
proof -
  have "bits 10 = 4" "bits 1 = 1" by (simp_all add: bits.simps)
  then show "f64_of_nat 10 = F64 5629499534213120 (-49)" "f64_of_nat 1 = F64 4503599627370496 (-52)"
    by (simp_all add: f64_of_nat_def round_f64_def scale_of_def shift_num_def shift_den_def round_even_def Let_def)
qed

lemma ten_value: "finite_f64 (f64_of_nat 10)" "f64_value (f64_of_nat 10) = 10"
  and one_value: "finite_f64 (f64_of_nat 1)" "f64_value (f64_of_nat 1) = 1"
  by (simp_all add: ten one [unfolded One_nat_def] finite_f64_def power_int_minus field_simps)

lemma near_powers: "k \<le> 60 \<Longrightarrow> finite_f64 (powers k) \<and> near (2 * k) (f64_value (powers k)) (10 ^ k)"
proof (induction k)
  case 0
  show ?case using one_value near_exact [of 1 0] by (simp add: powers_def)
next
  case (Suc k)
  have eq: "powers (Suc k) = f64_mul (powers k) (f64_of_nat 10)" by (simp add: powers_def)
  have r: "rounds (f64_value (powers k) * 10) (powers (Suc k))"
    using f64_mul_rounds [of "powers k" "f64_of_nat 10"] Suc ten_value unfolding eq by simp
  have n: "near (2 * k) (f64_value (powers k) * 10) (10 ^ Suc k)"
    using near_mult [OF conjunct2 [OF Suc.IH] near_exact [of 10 0]] Suc.prems by (simp add: mult.commute)
  have "(2 :: real) powi (-900) \<le> 10 ^ Suc k"
    by (rule order_trans [of _ 1]) (simp_all add: power_int_def power_le_one one_le_power del: power_Suc)
  moreover have "(10 :: real) ^ Suc k \<le> 2 ^ 900"
  proof -
    have "(10 :: real) ^ Suc k \<le> 10 ^ 60" using Suc.prems by (intro power_increasing) simp_all
    then show ?thesis by (rule order_trans) simp
  qed
  ultimately show ?case using near_rounds [OF r n] Suc.prems by simp
qed

lemma powers_large: "60 \<le> k \<Longrightarrow> powers k = Infinity \<or> finite_f64 (powers k) \<and> 10 ^ 50 \<le> f64_value (powers k)"
proof (induction k rule: dec_induct)
  case base
  have "finite_f64 (powers 60)" "near 120 (f64_value (powers 60)) (10 ^ 60)" using near_powers [of 60] by simp_all
  with near_bounds(1) [OF this(2)] show ?case by simp
next
  case (step k)
  have eq: "powers (Suc k) = f64_mul (powers k) (f64_of_nat 10)" by (simp add: powers_def)
  show ?case
  proof (cases "powers k = Infinity")
    case True
    then show ?thesis by (simp add: eq ten)
  next
    case False
    with step have pk: "finite_f64 (powers k)" "10 ^ 50 \<le> f64_value (powers k)" by blast+
    define z where "z = f64_value (powers k) * 10"
    have "rounds z (powers (Suc k))"
      using f64_mul_rounds [OF pk(1) ten_value(1)] by (simp add: eq ten_value z_def)
    moreover have "z / 2 ^ 53 \<le> z / 4" using pk(2) by (simp add: z_def)
    moreover have "(2 :: real) powi (-1075) \<le> 1" by (simp add: power_int_def power_le_one)
    ultimately show ?thesis using pk(2) unfolding rounds_def z_def by auto
  qed
qed

section \<open>The result\<close>

lemma truncation:
  assumes "finite_f64 x" and "f64_value x < 2 ^ 100"
  shows "real (f64_to_u128 x) \<le> f64_value x" "f64_value x < real (f64_to_u128 x) + 1"
proof -
  obtain m e where x: "x = F64 m e" using assms(1) by (auto simp: finite_f64_def)
  define q where "q = shift_num m e div shift_den 1 e"
  have d: "0 < shift_den 1 e" by (simp add: shift_den_def)
  have "real (q * shift_den 1 e) \<le> real (shift_num m e)" "real (shift_num m e) < real (Suc q * shift_den 1 e)"
    unfolding q_def of_nat_le_iff of_nat_less_iff using d by (simp_all add: dividend_less_div_times)
  then have q: "real q \<le> f64_value x" "f64_value x < real q + 1"
    unfolding x f64_value_shift using d by (simp_all add: pos_le_divide_eq pos_divide_less_eq algebra_simps)
  with assms(2) have "real q < real (2 ^ 100)" by simp
  then have "q < 2 ^ 100" unfolding of_nat_less_iff .
  then have "f64_to_u128 x = q" by (simp add: x q_def min_def)
  with q show "real (f64_to_u128 x) \<le> f64_value x" "f64_value x < real (f64_to_u128 x) + 1" by simp_all
qed

lemma near_of_nat:
  assumes "0 < n" and "real n \<le> 2 ^ 900"
  shows "finite_f64 (f64_of_nat n) \<and> near 2 (f64_value (f64_of_nat n)) (real n)"
proof -
  have "(2 :: real) powi (-900) \<le> 1" by (simp add: power_int_def power_le_one)
  also have "1 \<le> real n" using assms(1) by simp
  finally have low: "(2 :: real) powi (-900) \<le> real n" .
  have "near 0 (real n) (real n)" using assms(1) by (intro near_exact) simp
  from near_rounds [OF f64_of_nat_rounds this _ low assms(2)] show ?thesis unfolding add_0 by simp
qed

lemma of_nat_upper:
  assumes "real n \<le> 2 ^ 900"
  shows "finite_f64 (f64_of_nat n)" "f64_value (f64_of_nat n) \<le> 2 * real n"
proof -
  have "finite_f64 (f64_of_nat n) \<and> f64_value (f64_of_nat n) \<le> 2 * real n"
  proof (cases "n = 0")
    case True
    then show ?thesis by (simp add: f64_of_nat_def round_f64_def finite_f64_def)
  next
    case False
    then show ?thesis using near_of_nat [of n] near_bounds(2) assms by fastforce
  qed
  then show "finite_f64 (f64_of_nat n)" "f64_value (f64_of_nat n) \<le> 2 * real n" by blast+
qed

lemma rounds_small:
  assumes "rounds z x" and "z \<le> 1" and "0 \<le> z"
  shows "finite_f64 x" "f64_value x \<le> 2 * z + 1 / 2 ^ 200"
proof -
  have "(2 :: real) powi (-1075) \<le> 2 powi (-200)" by (rule power_int_increasing) simp_all
  also have "\<dots> = 1 / 2 ^ 200" by (simp add: power_int_def power_one_over)
  finally have tiny: "(2 :: real) powi (-1075) \<le> 1 / 2 ^ 200" .
  have "(1 :: real) < 2 ^ 1000" by simp
  with assms have x: "finite_f64 x" "\<bar>f64_value x - z\<bar> \<le> z / 2 ^ 53 + 2 powi (-1075)"
    unfolding rounds_def by (meson leD order_le_less_trans)+
  then show "finite_f64 x" by blast
  have "z / 2 ^ 53 \<le> z" using assms(3) by simp
  with x(2) tiny show "f64_value x \<le> 2 * z + 1 / 2 ^ 200" by linarith
qed

text \<open>The unit times the fraction \<open>v / 10 ^ k\<close>, in floating point and truncated, for the digits that fitted.\<close>

definition product :: "nat \<Rightarrow> nat \<Rightarrow> nat \<Rightarrow> f64" where
  "product v k u = f64_mul (f64_of_nat v) (f64_div (f64_of_nat u) (powers k))"

lemma unit_f64:
  assumes "0 < u" and "u \<le> 3600000000000"
  shows "finite_f64 (f64_of_nat u)" "near 2 (f64_value (f64_of_nat u)) (real u)"
proof -
  have "real u \<le> 3600000000000" using assms(2) by simp
  also have "\<dots> \<le> (2 :: real) ^ 900" by simp
  finally show "finite_f64 (f64_of_nat u)" "near 2 (f64_value (f64_of_nat u)) (real u)"
    using near_of_nat [OF assms(1)] by blast+
qed

lemma quotient_near:
  assumes "k \<le> 60" and "0 < u" and "u \<le> 3600000000000"
  shows "finite_f64 (f64_div (f64_of_nat u) (powers k)) \<and>
    near (2 + 2 * k + 2) (f64_value (f64_div (f64_of_nat u) (powers k))) (real u / 10 ^ k) \<and>
    2 powi (-900) \<le> real u / 10 ^ k"
proof -
  have u: "1 \<le> real u" "real u \<le> 3600000000000" using assms(2,3) by simp_all
  have "(2 :: real) powi (-900) = 1 / 2 ^ 900" by (simp add: power_int_def power_one_over)
  also have "\<dots> \<le> 1 / 10 ^ 60" by simp
  also have "\<dots> \<le> 1 / 10 ^ k" using power_increasing [OF assms(1), of "10 :: real"] by (intro frac_le) simp_all
  also have "\<dots> \<le> real u / 10 ^ k" using u by (intro divide_right_mono) simp_all
  finally have low: "2 powi (-900) \<le> real u / 10 ^ k" .
  have "real u / 10 ^ k \<le> real u / 1" using u by (intro divide_left_mono) simp_all
  also have "\<dots> \<le> 2 ^ 900" using u by simp
  finally have high: "real u / 10 ^ k \<le> 2 ^ 900" .
  note fu = unit_f64 [OF assms(2,3)]
  have pk: "finite_f64 (powers k)" "near (2 * k) (f64_value (powers k)) (10 ^ k)"
    using near_powers [OF assms(1)] by blast+
  then have "0 < f64_value (powers k)" by (simp add: near_def)
  from near_rounds [OF f64_div_rounds [OF fu(1) pk(1) this] near_divide [OF fu(2) pk(2)] _ low high] low
  show ?thesis using assms(1) by simp
qed

lemma product_near:
  assumes "k \<le> 60" and "v \<le> 2 ^ 63" and "v < 10 ^ k" and "0 < u" and "u \<le> 3600000000000"
  shows "finite_f64 (product v k u) \<and> \<bar>f64_value (product v k u) - real v * (real u / 10 ^ k)\<bar> < 1 / 2"
proof (cases "v = 0")
  case True
  have "f64_of_nat 0 = F64 0 0" by (simp add: f64_of_nat_def round_f64_def)
  then have "rounds 0 (product v k u)"
    using f64_mul_rounds [of "F64 0 0" "f64_div (f64_of_nat u) (powers k)"] quotient_near [OF assms(1,4,5)] True
    by (simp add: product_def finite_f64_def)
  from rounds_small [OF this] True f64_value_nonneg [of "product v k u"] show ?thesis by simp
next
  case False
  define a where "a = real v * (real u / 10 ^ k)"
  have q: "finite_f64 (f64_div (f64_of_nat u) (powers k))"
    "near (2 + 2 * k + 2) (f64_value (f64_div (f64_of_nat u) (powers k))) (real u / 10 ^ k)"
    "2 powi (-900) \<le> real u / 10 ^ k" using quotient_near [OF assms(1,4,5)] by blast+
  have "real v \<le> real (10 ^ k)" using assms(3) unfolding of_nat_le_iff by simp
  then have v: "1 \<le> real v" "real v \<le> 10 ^ k" using False by simp_all
  have "1 * (real u / 10 ^ k) \<le> a" unfolding a_def using v by (intro mult_right_mono) simp_all
  then have a_low: "2 powi (-900) \<le> a" using q(3) by linarith
  have "a \<le> 10 ^ k * (real u / 10 ^ k)" unfolding a_def using v by (intro mult_right_mono) simp_all
  then have a_u: "a \<le> 3600000000000" using assms(5) by simp
  also have "\<dots> \<le> (2 :: real) ^ 900" by simp
  finally have a_high: "a \<le> 2 ^ 900" .
  have "real v \<le> real (2 ^ 63)" using assms(2) unfolding of_nat_le_iff .
  then have "real v \<le> 2 ^ 63" by simp
  also have "\<dots> \<le> (2 :: real) ^ 900" by simp
  finally have fv: "finite_f64 (f64_of_nat v)" "near 2 (f64_value (f64_of_nat v)) (real v)"
    using near_of_nat [of v] False by auto
  from near_rounds [OF f64_mul_rounds [OF fv(1) q(1)] near_mult [OF fv(2) q(2)] _
      a_low [unfolded a_def] a_high [unfolded a_def]]
  have p: "finite_f64 (product v k u)" "near (2 + (2 + 2 * k + 2) + 2) (f64_value (product v k u)) a"
    using assms(1) by (simp_all add: product_def a_def)
  have "\<bar>f64_value (product v k u) - a\<bar> \<le> 2 * a * (2 * real (2 + (2 + 2 * k + 2) + 2) * ulp)"
    using near_bounds(5) [OF p(2)] assms(1) by simp
  also have "\<dots> \<le> 2 * 3600000000000 * (2 * 128 * ulp)"
    using a_u near_bounds(4) [OF p(2)] assms(1) by (intro mult_mono) simp_all
  also have "\<dots> < 1 / 2" by (simp add: ulp_def)
  finally show ?thesis using p(1) by (simp add: a_def)
qed

lemma product_tiny:
  assumes "60 \<le> k" and "v \<le> 2 ^ 63" and "0 < u" and "u \<le> 3600000000000"
  shows "finite_f64 (product v k u) \<and> f64_value (product v k u) < 1 / 2"
proof -
  have "real u \<le> 3600000000000" using assms(4) by simp
  also have "\<dots> \<le> (2 :: real) ^ 900" by simp
  finally have u: "finite_f64 (f64_of_nat u)" "f64_value (f64_of_nat u) \<le> 2 * real u" by (rule of_nat_upper)+
  have "real v \<le> real (2 ^ 63)" using assms(2) unfolding of_nat_le_iff .
  then have v63: "real v \<le> 2 ^ 63" by simp
  also have "\<dots> \<le> (2 :: real) ^ 900" by simp
  finally have v: "finite_f64 (f64_of_nat v)" "f64_value (f64_of_nat v) \<le> 2 * real v" by (rule of_nat_upper)+
  define q where "q = f64_div (f64_of_nat u) (powers k)"
  have q: "finite_f64 q \<and> f64_value q \<le> 1 / 10 ^ 30"
  proof (cases "powers k = Infinity")
    case True
    moreover obtain m e where "f64_of_nat u = F64 m e" using u(1) by (auto simp: finite_f64_def)
    ultimately show ?thesis by (simp add: q_def finite_f64_def)
  next
    case False
    with powers_large [OF assms(1)] have p: "finite_f64 (powers k)" "10 ^ 50 \<le> f64_value (powers k)" by blast+
    define z where "z = f64_value (f64_of_nat u) / f64_value (powers k)"
    have "0 < f64_value (powers k)" using p(2) by (rule order_less_le_trans [rotated]) simp
    then have r: "rounds z q" unfolding q_def z_def by (rule f64_div_rounds [OF u(1) p(1)])
    have "z \<le> 7200000000000 / 10 ^ 50" unfolding z_def
      using u(2) assms(4) p(2) by (intro frac_le) simp_all
    moreover have "0 \<le> z" by (simp add: z_def f64_value_nonneg)
    ultimately show ?thesis using rounds_small [OF r] by simp
  qed
  define z where "z = f64_value (f64_of_nat v) * f64_value q"
  have "rounds z (product v k u)" unfolding product_def z_def q_def [symmetric]
    using v(1) q by (intro f64_mul_rounds) simp_all
  note r = rounds_small [OF this]
  have "z \<le> 2 ^ 64 * (1 / 10 ^ 30)" unfolding z_def
    using v(2) v63 q by (intro mult_mono) (simp_all add: f64_value_nonneg)
  moreover have "0 \<le> z" by (simp add: z_def f64_value_nonneg)
  ultimately show ?thesis using r by simp
qed

text \<open>The exact value of all digits is close to the value of those that fitted.\<close>

lemma dropped_digits:
  assumes "digits_ok ds" and "k \<le> length ds" and "v = decimal (take k ds)" and "u \<le> 3600000000000"
    and "k = length ds \<or> 922337203685477580 \<le> v"
  shows "real v * (real u / 10 ^ k) \<le> real (decimal ds) * real u / 10 ^ length ds"
    "real (decimal ds) * real u / 10 ^ length ds \<le> real v * (real u / 10 ^ k) + 1 / 2"
proof -
  define w where "w = decimal (drop k ds)"
  define n where "n = length ds - k"
  have ok: "digits_ok (take k ds)" "digits_ok (drop k ds)"
    using assms(1) by (auto simp: digits_ok_def list_all_iff dest: in_set_takeD in_set_dropD)
  have ds: "decimal ds = v * 10 ^ n + w"
    using decimal_append [of "take k ds" "drop k ds"] assms(2,3) by (simp add: w_def n_def)
  have w: "w < 10 ^ n" using decimal_less [OF ok(2)] by (simp add: w_def n_def)
  have v: "v < 10 ^ k" using decimal_less [OF ok(1)] assms(2,3) by simp
  have len: "length ds = k + n" using assms(2) by (simp add: n_def)
  have eq: "real (decimal ds) * real u / 10 ^ length ds = real v * (real u / 10 ^ k) + real w / 10 ^ n * (real u / 10 ^ k)"
    unfolding ds len by (simp add: power_add field_simps)
  have "0 \<le> real w / 10 ^ n * (real u / 10 ^ k)" by simp
  with eq show "real v * (real u / 10 ^ k) \<le> real (decimal ds) * real u / 10 ^ length ds" by linarith
  have "real w / 10 ^ n * (real u / 10 ^ k) \<le> 1 / 2"
  proof (cases "k = length ds")
    case True
    then show ?thesis using w by (simp add: n_def)
  next
    case False
    then have "922337203685477580 < (10 :: nat) ^ k" using assms(5) v by linarith
    then have "real 922337203685477580 < real (10 ^ k)" unfolding of_nat_less_iff .
    then have k: "922337203685477580 < (10 :: real) ^ k" by simp
    have "real w < real (10 ^ n)" using w unfolding of_nat_less_iff .
    then have "real w / 10 ^ n \<le> 1" by simp
    moreover have "real u / 10 ^ k \<le> 3600000000000 / 922337203685477580"
      using k assms(4) by (intro frac_le) simp_all
    ultimately have "real w / 10 ^ n * (real u / 10 ^ k) \<le> 1 * (3600000000000 / 922337203685477580)"
      by (intro mult_mono) simp_all
    also have "\<dots> \<le> 1 / 2" by simp
    finally show ?thesis .
  qed
  with eq show "real (decimal ds) * real u / 10 ^ length ds \<le> real v * (real u / 10 ^ k) + 1 / 2" by linarith
qed

lemma fractional_nanos_product:
  assumes "digits_ok ds"
  obtains k v where "fractional_nanos ds u = f64_to_u128 (product v k u)" "k \<le> length ds" "v = decimal (take k ds)"
    "v \<le> 2 ^ 63" "k = length ds \<or> 922337203685477580 \<le> v"
proof -
  from fraction_digits [OF assms] obtain k v ov where st: "foldl fraction_step (0, f64_of_nat 1, False) ds = (v, powers k, ov)"
    "k \<le> length ds" "v = decimal (take k ds)" "v \<le> 2 ^ 63" "ov \<longrightarrow> 922337203685477580 \<le> v" "\<not> ov \<longrightarrow> k = length ds"
    by blast
  show ?thesis
  proof (rule that)
    show "fractional_nanos ds u = f64_to_u128 (product v k u)"
      using st(1) by (simp add: fractional_nanos_def parse_ascii_fraction_def product_def)
  qed (use st in auto)
qed

lemma units_bounded: "(text, u) \<in> set duration_units \<Longrightarrow> 0 < u \<and> u \<le> 3600000000000"
  by (auto simp: duration_units_def)

lemma truncated_close:
  assumes "finite_f64 x" and "\<bar>f64_value x - e\<bar> < 1" and "e < 2 ^ 90" and "real n \<le> e" and "e < real n + 1"
  shows "f64_to_u128 x \<le> n + 1" "n \<le> f64_to_u128 x + 1"
proof -
  have "f64_value x < e + 1" using assms(2) by linarith
  also have "\<dots> < 2 ^ 90 + 1" using assms(3) by simp
  also have "\<dots> < (2 :: real) ^ 100" by simp
  finally have t: "real (f64_to_u128 x) \<le> f64_value x" "f64_value x < real (f64_to_u128 x) + 1"
    using truncation [OF assms(1)] by blast+
  have "real (f64_to_u128 x) < real (n + 2)" "real n < real (f64_to_u128 x + 2)" using t assms(2,4,5) by simp_all
  then have "f64_to_u128 x < n + 2" "n < f64_to_u128 x + 2" unfolding of_nat_less_iff .
  then show "f64_to_u128 x \<le> n + 1" "n \<le> f64_to_u128 x + 1" by linarith+
qed

text \<open>
  C40: the nanoseconds that \<open>parse_duration\<close> computes in floating point for the digits after a decimal point are the
  exact value of the fraction, rounded down, give or take one nanosecond. This holds for every unit and for any number
  of digits, also when the digits are more than fit in 63 bits and the code drops the rest, and when there are so many
  leading zeros that the power of ten overflows to infinity.
\<close>

theorem fraction_accuracy:
  assumes "digits_ok ds" and "(text, u) \<in> set duration_units"
  shows "fractional_nanos ds u \<le> decimal ds * u div 10 ^ length ds + 1 \<and>
    decimal ds * u div 10 ^ length ds \<le> fractional_nanos ds u + 1"
proof -
  define e where "e = real (decimal ds) * real u / 10 ^ length ds"
  define n where "n = decimal ds * u div 10 ^ length ds"
  have u: "0 < u" "u \<le> 3600000000000" using units_bounded [OF assms(2)] by blast+
  obtain k v where kv: "fractional_nanos ds u = f64_to_u128 (product v k u)" "k \<le> length ds" "v = decimal (take k ds)"
    "v \<le> 2 ^ 63" "k = length ds \<or> 922337203685477580 \<le> v" by (rule fractional_nanos_product [OF assms(1)])
  have "digits_ok (take k ds)" using assms(1) by (auto simp: digits_ok_def list_all_iff dest: in_set_takeD)
  then have v: "v < 10 ^ k" using decimal_less [of "take k ds"] kv(2,3) by simp
  define a where "a = real v * (real u / 10 ^ k)"
  note dropped = dropped_digits [OF assms(1) kv(2,3) u(2) kv(5), folded e_def a_def]
  have close: "finite_f64 (product v k u) \<and> \<bar>f64_value (product v k u) - a\<bar> < 1 / 2"
  proof (cases "k \<le> 60")
    case True
    then show ?thesis using product_near [OF True kv(4) v u] by (simp add: a_def)
  next
    case False
    have "real v \<le> real (2 ^ 63)" using kv(4) unfolding of_nat_le_iff .
    then have "a \<le> 2 ^ 63 * (3600000000000 / 10 ^ 60)" unfolding a_def
      using u(2) False power_increasing [of 60 k "10 :: real"] by (intro mult_mono frac_le) simp_all
    also have "\<dots> < 1 / 2" by simp
    finally have "a < 1 / 2" .
    moreover have "0 \<le> a" by (simp add: a_def)
    moreover have "finite_f64 (product v k u)" "f64_value (product v k u) < 1 / 2"
      using product_tiny [OF _ kv(4) u, of k] False by simp_all
    ultimately show ?thesis using f64_value_nonneg [of "product v k u"] by linarith
  qed
  have e: "real n \<le> e" "e < real n + 1"
  proof -
    have "real (n * 10 ^ length ds) \<le> real (decimal ds * u)" "real (decimal ds * u) < real (Suc n * 10 ^ length ds)"
      unfolding n_def of_nat_le_iff of_nat_less_iff by (simp_all add: dividend_less_div_times)
    then show "real n \<le> e" "e < real n + 1"
      unfolding e_def by (simp_all add: pos_le_divide_eq pos_divide_less_eq algebra_simps)
  qed
  have "e \<le> 1 * real u"
  proof -
    have "real (decimal ds) < real (10 ^ length ds)" using decimal_less [OF assms(1)] unfolding of_nat_less_iff .
    then have "real (decimal ds) / 10 ^ length ds \<le> 1" by simp
    then have "real (decimal ds) / 10 ^ length ds * real u \<le> 1 * real u" by (rule mult_right_mono) simp
    then show ?thesis by (simp add: e_def)
  qed
  also have "\<dots> < 2 ^ 90" using u(2) by simp
  finally have small: "e < 2 ^ 90" .
  have "\<bar>f64_value (product v k u) - e\<bar> < 1" using close dropped by linarith
  from truncated_close [OF conjunct1 [OF close] this small e] show ?thesis unfolding kv(1) n_def by blast
qed

lemma fraction_accuracy_witness:
  "fractional_nanos (ascii ''25'') 1000000000 \<le> 250000001 \<and> 250000000 \<le> fractional_nanos (ascii ''25'') 1000000000 + 1"
  using fraction_accuracy [of "ascii ''25''" "ascii ''s''" 1000000000]
  by (simp add: digits_ok_def ascii_def is_ascii_digit_def duration_units_def decimal_def digit_value_def)

end
