(* ===== verification/Spec2Isabelle.thy ===== *)
theory Spec2Isabelle
  imports Progress Surroundings Serving Handshake Composition Accuracy
begin

text \<open>
  A verification development of \<^verbatim>\<open>opp\<close>, a local broker for the 1Password command line \<^verbatim>\<open>op\<close> on macOS (\<^verbatim>\<open>src/*.rs\<close>).

  \<^bold>\<open>The program.\<close> One binary plays two parts. The \<^emph>\<open>client\<close> (\<^verbatim>\<open>opp start\<close>, \<^verbatim>\<open>status\<close>, \<^verbatim>\<open>stop\<close>, \<^verbatim>\<open>exec\<close>) parses its command
  line, connects to a Unix socket in the user's cache directory and sends one request; \<^verbatim>\<open>start\<close> first spawns the
  broker if there is none. The \<^emph>\<open>broker\<close> is the same binary with an internal argument. Its main thread accepts
  connections, one handler thread serves each of them, and a single executor thread owns everything that must not
  happen twice: the table of authorization records, the retained pseudoterminal and the one child process that may run.
  Handlers reach the executor through a bounded channel; five shared flags coordinate the end. An account is authorized by
  a \<^verbatim>\<open>start\<close> request, after a warning, by running \<^verbatim>\<open>op vault list\<close> on the terminal; the grant lasts twelve hours, is checked
  again by \<^verbatim>\<open>op whoami\<close> and \<^verbatim>\<open>op vault list\<close> before every command and every five minutes, and is revoked, with those of all other
  accounts, when a check fails.

  \<^bold>\<open>How the code is modelled.\<close> Functions of the source are definitions with the source's names; a struct is a record, an enum a
  datatype, an integer a word of its width, a \<^verbatim>\<open>Result\<close> a sum with the error on the left, an \<^verbatim>\<open>io::Error\<close> a kind
  with a message or an \<open>errno\<close>. The kernel, the standard library's I/O and third-party crates are arguments: the record
  \<open>os\<close> (\<open>System\<close>) answers the \<open>n\<close>-th observation of a broker thread, \<open>socket\<close> (\<open>Frames\<close>) the calls on a stream,
  \<open>host\<close> (\<open>Client\<close>) those of the client, \<open>formatting\<close> (\<open>Status\<close>) is \<^verbatim>\<open>serde_json\<close> and \<^verbatim>\<open>time\<close>. What the program does to the
  world is a list of effects. Nothing is assumed of these arguments in a definition; a property that rests on
  documented behaviour names it as a hypothesis (\<open>socket_documented\<close>: a partial read or write is not longer than the buffer
  and moves at least a byte; \<open>clock_monotone\<close> and clocks that pass every instant; killed process groups are
  eventually gone), and a witness exhibits a world where it holds (\<open>Worlds\<close>, \<open>Guarantees\<close>, \<open>wire\<close>). A loop that the source does not
  bound is a \<open>partial_function\<close> with value \<open>None\<close> when it does not return; that it returns is stated and proved separately.

  \<^bold>\<open>The theories.\<close>
  \<^item> \<open>Prelude\<close>, \<open>System\<close>: words, bytes, results, the fact collections \<open>result_simps\<close>, \<open>wire\<close>, \<open>frame\<close>, \<open>literals\<close>; observations,
    effects, and \<open>acts_within\<close>, the frame contract that every action composes.
  \<^item> \<open>Utf8\<close>, \<open>Account\<close> (\<^verbatim>\<open>account.rs\<close>), \<open>Clock\<close> (\<^verbatim>\<open>clock.rs\<close>), \<open>Runtime\<close> (\<^verbatim>\<open>runtime.rs\<close>), \<open>Environment\<close> (\<^verbatim>\<open>environment.rs\<close>);
    \<open>Surroundings\<close> proves their properties: the directory, lock and socket are the user's own and private, the child's
    environment is sanitized.
  \<^item> \<open>Codec\<close>, \<open>Frames\<close>, \<open>Messages\<close> (\<^verbatim>\<open>protocol.rs\<close>): fields, frames with attached descriptors, requests, responses, events and the
    version handshake. The interface of a field is the locale \<open>field_codec\<close> (with \<open>sized_codec\<close> for elements of lists and
    \<open>codec_pair\<close> for sequences), interpreted for every field and every message body. \<open>Transport\<close>: what one end sends is what the
    other receives, however the kernel splits the bytes, and nothing else is accepted.
  \<^item> \<open>Darwin\<close> (\<^verbatim>\<open>darwin.rs\<close>), \<open>Process\<close> (\<^verbatim>\<open>process.rs\<close>), \<open>Streams\<close> (the loops that discard or copy bytes, in \<^verbatim>\<open>darwin.rs\<close>,
    \<^verbatim>\<open>process.rs\<close> and \<^verbatim>\<open>client.rs\<close>): starting, watching, terminating and reaping a child. \<open>Worlds\<close> and \<open>Supervision\<close>: one
    SIGTERM, then at most one SIGKILL after the grace period; what is reported is what was seen; the loop returns.
  \<^item> \<open>Status\<close> (\<^verbatim>\<open>status.rs\<close>) and \<open>Broker\<close> (the executor of \<^verbatim>\<open>broker.rs\<close>: \<open>start\<close>, \<open>status_request\<close>, \<open>execute\<close>, \<open>automatic_check\<close>,
    \<open>maintain\<close>, \<open>handle\<close>, \<open>run_step\<close>, \<open>actor_run\<close>). \<open>Authorization\<close> states the record table's contract as the locale
    \<open>record_table\<close>, interpreted on the association list of the model, and refines it to a ledger of grants; \<open>Executor\<close>
    and \<open>Safety\<close> characterise each operation and the invariant of every reachable state; \<open>Guarantees\<close>, \<open>Lifetime\<close> and \<open>Progress\<close> hold
    the properties: no command without a fresh check and an unexpired grant, no grant without a warned start, fail-closed
    revocation, the twelve-hour bound, pacing, and that the executor's thread ends.
  \<^item> \<open>Server\<close> (start-up, one connection and its monitor in \<^verbatim>\<open>broker.rs\<close>) with \<open>Serving\<close>; \<open>Shutdown\<close> (the threads as a step
    relation: main loop, handlers, executor, channel and flags) with \<open>Handshake\<close>: the channel never overflows, a stop is
    answered only when everything is over, and shutting down ends.
  \<^item> \<open>Binary64\<close>, \<open>Duration\<close>, \<open>Cli\<close> (\<^verbatim>\<open>cli.rs\<close>): the command line. Durations are computed with the code's \<^verbatim>\<open>f64\<close>, modelled as
    mantissas and exponents with rounding to nearest even; \<open>Accuracy\<close> bounds the error over the reals.
  \<^item> \<open>Client\<close> (\<^verbatim>\<open>client.rs\<close>, \<^verbatim>\<open>lib.rs\<close>, \<^verbatim>\<open>main.rs\<close>) with \<open>Contract\<close>: what each command does to the world, in which order, and what
    its exit code means. \<open>Composition\<close> joins client and broker: the exit code of \<^verbatim>\<open>opp exec\<close> is that of the command.

  \<^bold>\<open>Bounds.\<close> There is no fuel: recursion is structural, measured by the remaining input, or a \<open>partial_function\<close>. At most
  \<open>MAX_CONNECTIONS = 64\<close> handlers are active and the channel has as many places; \<open>shutdown_exits\<close> derives from the phases'
  weights that at most 925 steps of the broker's own threads remain once the flag is set. The error of a fraction's digits is below
  one nanosecond because at most sixty roundings of relative error \<open>2 ^ -52\<close> precede the point where the result rounds to 0.

  \<^bold>\<open>Not modelled.\<close> The code under \<^verbatim>\<open>cfg(feature = "test-support")\<close> and \<^verbatim>\<open>cfg(test)\<close>, which release builds leave out; the lookup of
  the user by \<^verbatim>\<open>getpwuid\<close> (its result is an argument); file descriptors are numbers without ownership, so closing them by
  dropping is not an effect except where another thread waits for it; the client's signal thread is represented by when its signal
  arrives, before or after the streams are reported closed. Threads interleave sequentially consistently. Tests, fixtures and release scripts are not part of the program.

  \<^bold>\<open>What modelling showed.\<close> \<open>Handshake.second_stop_unanswered\<close>: of two concurrent stops the second may go unanswered,
  because the process exits after the first acknowledgement. \<open>Supervision.natural_exit_open_pipes\<close>: a natural exit can be
  reported while a pipe is open if shutdown begins between two loads of the flag, although \<^verbatim>\<open>SPEC.md\<close> excludes it.
\<close>

end
